(* ===== verification/Prelude.thy ===== *)
theory Prelude
  imports Complex_Main "HOL-Library.AList" "HOL-Library.Product_Lexorder"
begin

text \<open>
  Shared vocabulary of the development.

  \<^item> Python floats are read as real numbers (\<open>pyfloat\<close>): rounding, infinities and NaN
    are outside the model, every comparison tolerance of the code (\<open>1e-12\<close>, \<open>1e-9\<close>)
    is kept as it is written.
  \<^item> \<open>datetime\<close> values are integers, microseconds since the epoch in UTC (\<open>timestamp\<close>).
  \<^item> A \<open>dict\<close> is an association list in insertion order: \<open>dict_get\<close>, \<open>dict_set\<close>
    (in place, or appended at the end) and \<open>dict_pop\<close>.
  \<^item> A raised exception is the left summand of a sum type.

  The two locales of this theory are the contracts the components share: \<open>keyed_store\<close> is
  what a client may rely on of a dictionary, and \<open>guarded_system\<close> turns "every operation keeps
  the invariant" into "every run keeps it".
\<close>

type_synonym pyfloat = real
type_synonym timestamp = int
type_synonym ('k, 'v) dict = "('k \<times> 'v) list"

datatype py_error =
    ValueError string
  | TypeError string
  | KeyError
  | IndexError
  | RuntimeError string

named_theorems engine_simps
named_theorems frame_simps

abbreviation raise :: "py_error \<Rightarrow> py_error + 'a" where
  "raise \<equiv> Inl"

abbreviation ok :: "'a \<Rightarrow> py_error + 'a" where
  "ok \<equiv> Inr"

text \<open>A check that raises, and what follows it: the result is a value just when the check passes.\<close>

lemma raise_unless: "(if P then Inl e else x) = Inr y \<longleftrightarrow> \<not> P \<and> x = Inr y"
  by auto

section \<open>Language and standard library\<close>

definition char_upper :: "char \<Rightarrow> char" where
  "char_upper c =
     (let n = (of_char c :: nat) in if 97 \<le> n \<and> n \<le> 122 then char_of (n - 32) else c)"

definition py_upper :: "string \<Rightarrow> string" where
  "py_upper s = map char_upper s"

definition char_lower :: "char \<Rightarrow> char" where
  "char_lower c =
     (let n = (of_char c :: nat) in if 65 \<le> n \<and> n \<le> 90 then char_of (n + 32) else c)"

definition py_lower :: "string \<Rightarrow> string" where
  "py_lower s = map char_lower s"

definition char_is_space :: "char \<Rightarrow> bool" where
  "char_is_space c = (let n = (of_char c :: nat) in n = 32 \<or> (9 \<le> n \<and> n \<le> 13) \<or> (28 \<le> n \<and> n \<le> 31))"

definition py_strip :: "string \<Rightarrow> string" where
  "py_strip s = rev (dropWhile char_is_space (rev (dropWhile char_is_space s)))"

text \<open>\<open>timedelta(milliseconds=x)\<close> in microseconds: rounded to the nearest, ties to even.\<close>

definition round_half_even :: "real \<Rightarrow> int" where
  "round_half_even x =
     (let f = \<lfloor>x\<rfloor>; d = x - of_int f
      in if d < 1 / 2 then f else if 1 / 2 < d then f + 1 else if even f then f else f + 1)"

definition timedelta_ms :: "pyfloat \<Rightarrow> int" where
  "timedelta_ms ms = round_half_even (ms * 1000)"

definition total_seconds :: "int \<Rightarrow> pyfloat" where
  "total_seconds d = of_int d / 1000000"

text \<open>Decimal digits of \<open>str(n)\<close> and of f-strings.\<close>

fun nat_str :: "nat \<Rightarrow> string" where
  "nat_str n = (if n < 10 then [char_of (48 + n)] else nat_str (n div 10) @ [char_of (48 + n mod 10)])"

declare nat_str.simps [simp del]

definition int_str :: "int \<Rightarrow> string" where
  "int_str i = (if i < 0 then CHR ''-'' # nat_str (nat (- i)) else nat_str (nat i))"

definition char_is_digit :: "char \<Rightarrow> bool" where
  "char_is_digit c = (let n = (of_char c :: nat) in 48 \<le> n \<and> n \<le> 57)"

lemma digit_char: "n < 10 \<Longrightarrow> char_is_digit (char_of (48 + n))" "n < 10 \<Longrightarrow> (of_char (char_of (48 + n) :: char) :: nat) = 48 + n"
  by (auto simp: char_is_digit_def of_char_of take_bit_eq_mod)

lemma nat_str_digits: "nat_str n \<noteq> [] \<and> list_all char_is_digit (nat_str n)"
proof (induction n rule: nat_str.induct)
  case (1 n)
  have "list_all char_is_digit [char_of (48 + n mod 10)]" using digit_char(1)[of "n mod 10"] by simp
  then show ?case using 1 digit_char(1)[of n] by (subst (1 2) nat_str.simps) (auto simp: list_all_append)
qed

lemma nat_str_inject: "nat_str m = nat_str n \<Longrightarrow> m = n"
proof (induction m arbitrary: n rule: nat_str.induct)
  case (1 m)
  have ne: "nat_str k \<noteq> []" "[] \<noteq> nat_str k" for k using nat_str_digits[of k] by auto
  have last: "char_of (48 + a) = (char_of (48 + b) :: char) \<Longrightarrow> a < 10 \<Longrightarrow> b < 10 \<Longrightarrow> a = b" for a b :: nat
    using digit_char(2)[of a] digit_char(2)[of b] by simp
  show ?case
  proof (cases "m < 10 \<or> n < 10")
    case True
    then show ?thesis using "1.prems" last ne nat_str.simps[of m] nat_str.simps[of n] by (auto split: if_splits)
  next
    case False
    then have "nat_str (m div 10) = nat_str (n div 10)" "char_of (48 + m mod 10) = (char_of (48 + n mod 10) :: char)"
      using "1.prems" nat_str.simps[of m] nat_str.simps[of n] by auto
    then have "m div 10 = n div 10" "m mod 10 = n mod 10" using "1.IH" False last[of "m mod 10" "n mod 10"] by auto
    then show ?thesis by (metis div_mult_mod_eq)
  qed
qed

lemma minus_not_digit: "\<not> char_is_digit CHR ''-''"
  by (simp add: char_is_digit_def)

lemma int_str_inject: "int_str i = int_str j \<Longrightarrow> i = j"
proof -
  assume eq: "int_str i = int_str j"
  have "nat_str k \<noteq> CHR ''-'' # s" "CHR ''-'' # s \<noteq> nat_str k" for k s
    using nat_str_digits[of k] minus_not_digit list.pred_inject(2)[of char_is_digit "CHR ''-''" s] by metis+
  then show ?thesis using eq nat_str_inject[of "nat (- i)" "nat (- j)"] nat_str_inject[of "nat i" "nat j"]
    by (auto simp: int_str_def split: if_splits)
qed

text \<open>The truth value of an optional number: \<open>None\<close> and \<open>0\<close> are false.\<close>

definition py_or :: "pyfloat option \<Rightarrow> pyfloat \<Rightarrow> pyfloat" where
  "py_or a b = (case a of None \<Rightarrow> b | Some x \<Rightarrow> if x = 0 then b else x)"

definition clamp :: "real \<Rightarrow> real \<Rightarrow> real \<Rightarrow> real" where
  "clamp v lo hi = max lo (min hi v)"

section \<open>Dictionaries\<close>

definition dict_get :: "('k, 'v) dict \<Rightarrow> 'k \<Rightarrow> 'v option" where
  "dict_get d k = map_of d k"

definition dict_set :: "('k, 'v) dict \<Rightarrow> 'k \<Rightarrow> 'v \<Rightarrow> ('k, 'v) dict" where
  "dict_set d k v = AList.update k v d"

definition dict_pop :: "('k, 'v) dict \<Rightarrow> 'k \<Rightarrow> ('k, 'v) dict" where
  "dict_pop d k = filter (\<lambda>p. fst p \<noteq> k) d"

definition dict_get_or :: "('k, 'v) dict \<Rightarrow> 'k \<Rightarrow> 'v \<Rightarrow> 'v" where
  "dict_get_or d k v = (case dict_get d k of None \<Rightarrow> v | Some x \<Rightarrow> x)"

definition dict_wf :: "('k, 'v) dict \<Rightarrow> bool" where
  "dict_wf d = distinct (map fst d)"

lemma dict_get_Nil [simp]: "dict_get [] k = None"
  by (simp add: dict_get_def)

lemma dict_get_set [simp]: "dict_get (dict_set d k v) k' = (if k = k' then Some v else dict_get d k')"
  by (simp add: dict_get_def dict_set_def update_conv')

lemma map_of_filter_fst: "map_of (filter (\<lambda>p. fst p \<noteq> k) d) k' = (if k = k' then None else map_of d k')"
  by (induction d) auto

lemma dict_get_pop [simp]: "dict_get (dict_pop d k) k' = (if k = k' then None else dict_get d k')"
  by (simp add: dict_get_def dict_pop_def map_of_filter_fst)

lemma dict_wf_Nil [simp, intro]: "dict_wf []"
  by (simp add: dict_wf_def)

lemma dict_wf_set [simp, intro]: "dict_wf d \<Longrightarrow> dict_wf (dict_set d k v)"
  by (simp add: dict_wf_def dict_set_def distinct_update)

lemma dict_wf_pop [simp, intro]: "dict_wf d \<Longrightarrow> dict_wf (dict_pop d k)"
  by (induction d) (auto simp: dict_wf_def dict_pop_def)

lemma dict_get_mem: "dict_get d k = Some v \<Longrightarrow> (k, v) \<in> set d"
  by (simp add: dict_get_def map_of_SomeD)

lemma dict_wf_get: "dict_wf d \<Longrightarrow> (k, v) \<in> set d \<Longrightarrow> dict_get d k = Some v"
  by (simp add: dict_wf_def dict_get_def)

lemma dict_get_None_iff: "dict_get d k = None \<longleftrightarrow> k \<notin> fst ` set d"
  by (simp add: dict_get_def map_of_eq_None_iff)

lemma dict_set_keys: "fst ` set (dict_set d k v) = insert k (fst ` set d)"
  by (simp add: dict_set_def dom_update)

lemma dict_set_new: "dict_get d k = None \<Longrightarrow> dict_set d k v = d @ [(k, v)]"
  by (induction d) (auto simp: dict_get_def dict_set_def split: if_splits)

lemma dict_set_mem: "(k', v') \<in> set (dict_set d k v) \<Longrightarrow> (k' = k \<and> v' = v) \<or> (k', v') \<in> set d"
  by (induction d) (auto simp: dict_set_def split: if_splits)

lemma dict_set_same: "dict_get d k = Some v \<Longrightarrow> dict_set d k v = d"
  by (induction d) (auto simp: dict_get_def dict_set_def split: if_splits)

lemma dict_set_twice [simp]: "dict_set (dict_set d k v) k w = dict_set d k w"
  by (simp add: dict_set_def)

lemma dict_get_or_set [simp]:
  "dict_get_or (dict_set d k v) k' x = (if k = k' then v else dict_get_or d k' x)"
  by (simp add: dict_get_or_def)

lemma dict_get_or_pop [simp]:
  "dict_get_or (dict_pop d k) k' x = (if k = k' then x else dict_get_or d k' x)"
  by (simp add: dict_get_or_def)

lemma dict_get_or_Nil [simp]: "dict_get_or [] k x = x"
  by (simp add: dict_get_or_def)

text \<open>Sums over the values of a dictionary.\<close>

definition dict_sum :: "('v \<Rightarrow> 'a::ab_group_add) \<Rightarrow> ('k, 'v) dict \<Rightarrow> 'a" where
  "dict_sum w d = sum_list (map (\<lambda>p. w (snd p)) d)"

lemma dict_sum_Nil [simp]: "dict_sum w [] = 0"
  by (simp add: dict_sum_def)

lemma dict_sum_set:
  "dict_wf d \<Longrightarrow> dict_get d k = Some v \<Longrightarrow> dict_sum w (dict_set d k v') = dict_sum w d - w v + w v'"
  by (induction d) (auto simp: dict_sum_def dict_wf_def dict_get_def dict_set_def split: if_splits)

lemma dict_sum_new: "dict_get d k = None \<Longrightarrow> dict_sum w (dict_set d k v) = dict_sum w d + w v"
  by (simp add: dict_set_new dict_sum_def)

lemma filter_absent: "k \<notin> fst ` set d \<Longrightarrow> filter (\<lambda>p. fst p \<noteq> k) d = d"
  by (induction d) auto

lemma dict_sum_pop:
  "dict_wf d \<Longrightarrow> dict_get d k = Some v \<Longrightarrow> dict_sum w (dict_pop d k) = dict_sum w d - w v"
  by (induction d) (auto simp: dict_sum_def dict_wf_def dict_get_def dict_pop_def filter_absent split: if_splits)

text \<open>The dictionary contract, and what a client derives from it alone.\<close>

locale keyed_store =
  fixes get :: "'s \<Rightarrow> 'k \<Rightarrow> 'v option"
    and put :: "'s \<Rightarrow> 'k \<Rightarrow> 'v \<Rightarrow> 's"
    and del :: "'s \<Rightarrow> 'k \<Rightarrow> 's"
    and nothing :: "'s"
    and store_ok :: "'s \<Rightarrow> bool"
  assumes get_nothing: "get nothing k = None"
    and get_put: "store_ok s \<Longrightarrow> get (put s k v) k' = (if k = k' then Some v else get s k')"
    and get_del: "store_ok s \<Longrightarrow> get (del s k) k' = (if k = k' then None else get s k')"
    and ok_nothing: "store_ok nothing"
    and ok_put: "store_ok s \<Longrightarrow> store_ok (put s k v)"
    and ok_del: "store_ok s \<Longrightarrow> store_ok (del s k)"
begin

lemma last_put_wins: "store_ok s \<Longrightarrow> get (put (put s k v) k w) k' = get (put s k w) k'"
  by (simp add: get_put ok_put)

lemma puts_commute:
  "store_ok s \<Longrightarrow> k \<noteq> l \<Longrightarrow> get (put (put s k v) l w) k' = get (put (put s l w) k v) k'"
  by (auto simp: get_put ok_put)

lemma put_all_get:
  "store_ok s \<Longrightarrow> distinct (map fst kvs) \<Longrightarrow>
   get (foldl (\<lambda>t (k, v). put t k v) s kvs) k' =
     (case map_of kvs k' of Some v \<Rightarrow> Some v | None \<Rightarrow> get s k')"
proof (induction kvs arbitrary: s)
  case Nil
  then show ?case by simp
next
  case (Cons p kvs)
  obtain k v where p: "p = (k, v)" by (cases p)
  have "get (foldl (\<lambda>t (k, v). put t k v) (put s k v) kvs) k' =
      (case map_of kvs k' of Some v \<Rightarrow> Some v | None \<Rightarrow> get (put s k v) k')"
    using Cons p by (simp add: ok_put)
  moreover have "k \<notin> fst ` set kvs" using Cons.prems p by simp
  ultimately show ?case
    using Cons.prems p
    by (auto simp: get_put map_of_eq_None_iff[symmetric] split: option.splits)
qed

end

interpretation dict_store: keyed_store dict_get dict_set dict_pop "[]" dict_wf
  by unfold_locales auto

section \<open>Operations that may raise, and runs of them\<close>

primrec run_steps :: "('s \<Rightarrow> 'e \<Rightarrow> py_error + 's) \<Rightarrow> 's \<Rightarrow> 'e list \<Rightarrow> py_error + 's" where
  "run_steps step s [] = Inr s"
| "run_steps step s (e # es) = (case step s e of Inl x \<Rightarrow> Inl x | Inr t \<Rightarrow> run_steps step t es)"

locale guarded_system =
  fixes step :: "'s \<Rightarrow> 'e \<Rightarrow> py_error + 's"
    and inv :: "'s \<Rightarrow> bool"
    and leads :: "'s \<Rightarrow> 's \<Rightarrow> bool"
  assumes step_inv: "inv s \<Longrightarrow> step s e = Inr t \<Longrightarrow> inv t"
    and step_leads: "inv s \<Longrightarrow> step s e = Inr t \<Longrightarrow> leads s t"
    and leads_refl: "leads s s"
    and leads_trans: "leads s t \<Longrightarrow> leads t u \<Longrightarrow> leads s u"
begin

lemma run_inv: "inv s \<Longrightarrow> run_steps step s es = Inr t \<Longrightarrow> inv t"
  by (induction es arbitrary: s) (auto split: sum.splits dest: step_inv)

lemma run_leads: "inv s \<Longrightarrow> run_steps step s es = Inr t \<Longrightarrow> leads s t"
proof (induction es arbitrary: s)
  case (Cons e es)
  then obtain u where u: "step s e = Inr u" "run_steps step u es = Inr t" by (auto split: sum.splits)
  then show ?case using Cons.IH[of u] Cons.prems(1) step_inv step_leads leads_trans by blast
qed (simp add: leads_refl)

end

section \<open>Lists and numbers\<close>

lemma sum_list_nonneg_real:
  fixes xs :: "real list"
  shows "(\<And>x. x \<in> set xs \<Longrightarrow> 0 \<le> x) \<Longrightarrow> 0 \<le> sum_list xs"
  by (rule sum_list_nonneg) auto

lemma map_upt_nth: "map (\<lambda>i. f (xs ! i)) [0..<length xs] = map f xs"
  by (rule nth_equalityI) auto

lemma sum_list_update_group:
  fixes xs :: "'a::ab_group_add list"
  shows "k < length xs \<Longrightarrow> sum_list (xs[k := x]) = sum_list xs + x - xs ! k"
  by (induction xs arbitrary: k) (auto split: nat.splits)

lemma clamp_bounds: "lo \<le> hi \<Longrightarrow> lo \<le> clamp v lo hi \<and> clamp v lo hi \<le> hi"
  by (simp add: clamp_def)

lemma clamp_id: "lo \<le> v \<Longrightarrow> v \<le> hi \<Longrightarrow> clamp v lo hi = v"
  by (simp add: clamp_def)

lemma round_half_even_error: "\<bar>of_int (round_half_even x) - x\<bar> \<le> 1 / 2"
proof -
  have "of_int \<lfloor>x\<rfloor> \<le> x" "x < of_int \<lfloor>x\<rfloor> + 1" by linarith+
  then show ?thesis by (auto simp: round_half_even_def Let_def)
qed

lemma round_half_even_mono: "x \<le> y \<Longrightarrow> round_half_even x \<le> round_half_even y"
proof -
  assume xy: "x \<le> y"
  have fl: "\<lfloor>x\<rfloor> \<le> \<lfloor>y\<rfloor>" using xy by (rule floor_mono)
  have b: "\<lfloor>z\<rfloor> \<le> round_half_even z \<and> round_half_even z \<le> \<lfloor>z\<rfloor> + 1" for z :: real
    by (auto simp: round_half_even_def Let_def)
  show ?thesis
  proof (cases "\<lfloor>x\<rfloor> = \<lfloor>y\<rfloor>")
    case True
    then show ?thesis using xy by (auto simp: round_half_even_def Let_def)
  next
    case False
    then show ?thesis using fl b[of x] b[of y] by linarith
  qed
qed

lemma timedelta_ms_nonneg:
  assumes "0 \<le> ms" shows "0 \<le> timedelta_ms ms"
proof -
  have "0 \<le> \<lfloor>ms * 1000\<rfloor>" using assms by simp
  then show ?thesis unfolding timedelta_ms_def round_half_even_def Let_def by (auto split: if_splits)
qed

lemma py_upper_length [simp]: "length (py_upper s) = length s"
  by (simp add: py_upper_def)

lemma weighted_average_between:
  fixes a b u v :: real
  assumes "0 \<le> u" "0 \<le> v" "0 < u + v"
  shows "min a b \<le> (a * u + b * v) / (u + v)" "(a * u + b * v) / (u + v) \<le> max a b"
proof -
  have "min a b * (u + v) \<le> a * u + b * v"
    using assms by (simp add: distrib_left add_mono mult_right_mono)
  then show "min a b \<le> (a * u + b * v) / (u + v)"
    using assms by (simp add: pos_le_divide_eq)
  have "a * u + b * v \<le> max a b * (u + v)"
    using assms by (simp add: distrib_left add_mono mult_right_mono)
  then show "(a * u + b * v) / (u + v) \<le> max a b"
    using assms by (simp add: pos_divide_le_eq)
qed

end
