(* ===== verification/Book.thy ===== *)
theory Book
  imports Prelude
begin

text \<open>
  Order-book values of the backtester: \<open>services/backtest/book_replay.py\<close> (price levels, L2
  snapshots with their lazily built ladders, the in-memory replay and its point-in-time lookup)
  and \<open>services/optimization/queue_ahead.py\<close> (the FIFO queue-position formula).

  The ladder walk is specified once, in the locale \<open>price_ladder\<close>, and interpreted for the
  bid ladder a SELL taker walks and the ask ladder a BUY taker walks.
\<close>

section \<open>Snapshots\<close>

record price_level =
  lvl_price :: pyfloat
  lvl_size :: pyfloat

record book_snapshot =
  s_token :: string
  s_observed_at :: timestamp
  s_sequence :: "int option"
  s_spread_bps :: "pyfloat option"
  s_trade_price :: "pyfloat option"
  s_trade_size :: "pyfloat option"
  s_trade_side :: "string option"
  s_top_bid :: "pyfloat option"
  s_top_ask :: "pyfloat option"
  s_bids :: "price_level list option"
  s_asks :: "price_level list option"
  s_bids_raw :: "(pyfloat \<times> pyfloat) list option"
  s_asks_raw :: "(pyfloat \<times> pyfloat) list option"

definition mk_level :: "pyfloat \<times> pyfloat \<Rightarrow> price_level" where
  "mk_level pq = \<lparr>lvl_price = fst pq, lvl_size = snd pq\<rparr>"

definition bids :: "book_snapshot \<Rightarrow> price_level list" where
  "bids s = (case s_bids s of Some b \<Rightarrow> b
     | None \<Rightarrow> map mk_level (case s_bids_raw s of Some r \<Rightarrow> r | None \<Rightarrow> []))"

definition asks :: "book_snapshot \<Rightarrow> price_level list" where
  "asks s = (case s_asks s of Some a \<Rightarrow> a
     | None \<Rightarrow> map mk_level (case s_asks_raw s of Some r \<Rightarrow> r | None \<Rightarrow> []))"

definition best_bid :: "book_snapshot \<Rightarrow> pyfloat option" where
  "best_bid s = (case s_top_bid s of Some p \<Rightarrow> Some p
     | None \<Rightarrow> (case bids s of [] \<Rightarrow> None | b # _ \<Rightarrow> Some (lvl_price b)))"

definition best_ask :: "book_snapshot \<Rightarrow> pyfloat option" where
  "best_ask s = (case s_top_ask s of Some p \<Rightarrow> Some p
     | None \<Rightarrow> (case asks s of [] \<Rightarrow> None | a # _ \<Rightarrow> Some (lvl_price a)))"

text \<open>\<open>xs[:n]\<close>: a negative bound counts from the end.\<close>

definition slice_to :: "'a list \<Rightarrow> int \<Rightarrow> 'a list" where
  "slice_to xs n = (if 0 \<le> n then take (nat n) xs else take (nat (int (length xs) + n)) xs)"

definition depth :: "book_snapshot \<Rightarrow> string \<Rightarrow> int \<Rightarrow> pyfloat" where
  "depth s side levels =
     (let sd = py_lower side;
          bid_side = (sd = ''bid'' \<or> sd = ''buy'');
          raw = (if bid_side then s_bids_raw s else s_asks_raw s)
      in case raw of
           Some r \<Rightarrow> sum_list (map snd (slice_to r levels))
         | None \<Rightarrow> sum_list (map lvl_size (slice_to (if bid_side then bids s else asks s) levels)))"

definition mid :: "book_snapshot \<Rightarrow> pyfloat option" where
  "mid s = (case (best_bid s, best_ask s) of
       (Some bb, Some ba) \<Rightarrow> Some ((bb + ba) / 2) | _ \<Rightarrow> None)"

definition spread :: "book_snapshot \<Rightarrow> pyfloat option" where
  "spread s = (case (best_bid s, best_ask s) of
       (Some bb, Some ba) \<Rightarrow> Some (ba - bb) | _ \<Rightarrow> None)"

definition eps12 :: pyfloat where
  "eps12 = 1 / 10 ^ 12"

lemma eps12_pos [simp]: "0 < eps12" "0 \<le> eps12"
  by (simp_all add: eps12_def)

definition total_size_at_or_better :: "book_snapshot \<Rightarrow> string \<Rightarrow> pyfloat \<Rightarrow> pyfloat" where
  "total_size_at_or_better s side price =
     (let sd = py_upper side in
      if sd = ''SELL'' then
        sum_list (map lvl_size (filter (\<lambda>l. price - eps12 \<le> lvl_price l) (bids s)))
      else if sd = ''BUY'' then
        sum_list (map lvl_size (filter (\<lambda>l. lvl_price l \<le> price + eps12) (asks s)))
      else 0)"

fun walk_loop :: "(pyfloat \<Rightarrow> bool) \<Rightarrow> pyfloat \<Rightarrow> price_level list \<Rightarrow> (pyfloat \<times> pyfloat) list" where
  "walk_loop crosses remaining [] = []"
| "walk_loop crosses remaining (l # ls) =
     (if remaining \<le> 0 then []
      else if crosses (lvl_price l) then []
      else let tk = min (lvl_size l) remaining in
        if tk \<le> 0 then walk_loop crosses remaining ls
        else (lvl_price l, tk) # walk_loop crosses (remaining - tk) ls)"

definition sell_crosses :: "pyfloat option \<Rightarrow> pyfloat \<Rightarrow> bool" where
  "sell_crosses limit lp = (case limit of None \<Rightarrow> False | Some L \<Rightarrow> lp + eps12 < L)"

definition buy_crosses :: "pyfloat option \<Rightarrow> pyfloat \<Rightarrow> bool" where
  "buy_crosses limit lp = (case limit of None \<Rightarrow> False | Some L \<Rightarrow> lp - eps12 > L)"

definition walk_for_taker ::
    "book_snapshot \<Rightarrow> string \<Rightarrow> pyfloat \<Rightarrow> pyfloat option \<Rightarrow> (pyfloat \<times> pyfloat) list" where
  "walk_for_taker s side sz limit_price =
     (let remaining = max 0 sz; sd = py_upper side in
      if remaining \<le> 0 then []
      else if sd = ''SELL'' then walk_loop (sell_crosses limit_price) remaining (bids s)
      else if sd = ''BUY'' then walk_loop (buy_crosses limit_price) remaining (asks s)
      else [])"

section \<open>The in-memory replay\<close>

record book_replay =
  r_snaps :: "book_snapshot list"
  r_by_token :: "(string, book_snapshot list) dict"

definition snap_key :: "book_snapshot \<Rightarrow> timestamp \<times> int" where
  "snap_key s = (s_observed_at s, case s_sequence s of None \<Rightarrow> 0 | Some n \<Rightarrow> n)"

definition bucket_append ::
    "(string, book_snapshot list) dict \<Rightarrow> book_snapshot \<Rightarrow> (string, book_snapshot list) dict" where
  "bucket_append d s = dict_set d (s_token s) (dict_get_or d (s_token s) [] @ [s])"

definition mk_replay :: "book_snapshot list \<Rightarrow> book_replay" where
  "mk_replay snapshots =
     (let snaps = sort_key snap_key snapshots
      in \<lparr>r_snaps = snaps, r_by_token = foldl bucket_append [] snaps\<rparr>)"

definition iter_snapshots :: "book_replay \<Rightarrow> book_snapshot list" where
  "iter_snapshots r = r_snaps r"

function bisect_right_loop :: "int list \<Rightarrow> int \<Rightarrow> nat \<Rightarrow> nat \<Rightarrow> nat" where
  "bisect_right_loop a x lo hi =
     (if lo < hi then
        let m = (lo + hi) div 2 in
        if x < a ! m then bisect_right_loop a x lo m
        else bisect_right_loop a x (m + 1) hi
      else lo)"
  by pat_completeness auto
termination
  by (relation "measure (\<lambda>(a, x, lo, hi). hi - lo)") auto

declare bisect_right_loop.simps [simp del]

definition bisect_right :: "int list \<Rightarrow> int \<Rightarrow> nat" where
  "bisect_right a x = bisect_right_loop a x 0 (length a)"

definition snapshot_at :: "book_replay \<Rightarrow> string \<Rightarrow> timestamp \<Rightarrow> book_snapshot option" where
  "snapshot_at r token ts =
     (let bucket = dict_get_or (r_by_token r) token [] in
      if bucket = [] then None
      else let idx = int (bisect_right (map s_observed_at bucket) ts) - 1
        in if idx < 0 then None else Some (bucket ! nat idx))"

section \<open>Queue position\<close>

definition iter_levels :: "price_level list \<Rightarrow> (pyfloat \<times> pyfloat) list" where
  "iter_levels ls =
     filter (\<lambda>(p, q). 0 < p \<and> 0 < q) (map (\<lambda>l. (lvl_price l, lvl_size l)) ls)"

definition queue_level :: "bool \<Rightarrow> pyfloat \<Rightarrow> pyfloat \<times> pyfloat \<Rightarrow> pyfloat \<times> pyfloat \<Rightarrow> pyfloat \<times> pyfloat" where
  "queue_level is_buy limit acc pq =
     (let (better, same) = acc; (price, sz) = pq in
      if is_buy then
        if price > limit + eps12 then (better + sz, same)
        else if \<bar>price - limit\<bar> \<le> 1 / 10 ^ 9 then (better, same + sz) else (better, same)
      else
        if price < limit - eps12 then (better + sz, same)
        else if \<bar>price - limit\<bar> \<le> 1 / 10 ^ 9 then (better, same + sz) else (better, same))"

definition compute_queue_ahead_shares ::
    "price_level list \<Rightarrow> price_level list \<Rightarrow> string \<Rightarrow> pyfloat \<Rightarrow> pyfloat \<Rightarrow> pyfloat \<Rightarrow> pyfloat" where
  "compute_queue_ahead_shares bid_levels ask_levels side limit fraction depth_factor =
     (let sd = py_upper side;
          is_buy = (sd = ''BUY'' \<or> sd = ''BUY_YES'' \<or> sd = ''BUY_NO'');
          (better, same) =
            foldl (queue_level is_buy limit) (0, 0) (iter_levels (if is_buy then bid_levels else ask_levels))
      in (better + same * fraction) * depth_factor)"

section \<open>Ladder walks\<close>

lemma walk_loop_sizes: "(p, q) \<in> set (walk_loop c r ls) \<Longrightarrow> 0 < q"
  by (induction c r ls rule: walk_loop.induct) (auto simp: Let_def split: if_splits)

lemma walk_loop_levels:
  "(p, q) \<in> set (walk_loop c r ls) \<Longrightarrow> \<not> c p \<and> (\<exists>l\<in>set ls. lvl_price l = p \<and> q \<le> lvl_size l)"
  by (induction c r ls rule: walk_loop.induct) (auto simp: Let_def split: if_splits)

lemma walk_loop_done: "r \<le> 0 \<Longrightarrow> walk_loop c r ls = []"
  by (cases ls) auto

lemma walk_loop_total_le: "0 \<le> r \<Longrightarrow> sum_list (map snd (walk_loop c r ls)) \<le> r"
proof (induction c r ls rule: walk_loop.induct)
  case (2 c r l ls)
  then show ?case by (auto simp: Let_def)
qed simp

text \<open>
  A ladder is ordered best price first, and once a level lies beyond the limit so do all levels
  behind it. That is all the walk needs to fill exactly the accessible size.
\<close>

locale price_ladder =
  fixes at_or_worse :: "real \<Rightarrow> real \<Rightarrow> bool"
    and beyond :: "'l \<Rightarrow> real \<Rightarrow> bool"
  assumes beyond_worse: "beyond L p \<Longrightarrow> at_or_worse p p' \<Longrightarrow> beyond L p'"
begin

definition ladder :: "price_level list \<Rightarrow> bool" where
  "ladder ls \<longleftrightarrow> sorted_wrt at_or_worse (map lvl_price ls) \<and> (\<forall>l\<in>set ls. 0 \<le> lvl_size l)"

definition accessible :: "'l \<Rightarrow> price_level list \<Rightarrow> real" where
  "accessible L ls = sum_list (map lvl_size (filter (\<lambda>l. \<not> beyond L (lvl_price l)) ls))"

lemma accessible_nonneg: "ladder ls \<Longrightarrow> 0 \<le> accessible L ls"
  unfolding accessible_def ladder_def by (rule sum_list_nonneg_real) auto

lemma ladder_tail: "ladder (l # ls) \<Longrightarrow> ladder ls"
  by (simp add: ladder_def)

lemma beyond_tail: "ladder (l # ls) \<Longrightarrow> beyond L (lvl_price l) \<Longrightarrow> accessible L (l # ls) = 0"
proof -
  assume a: "ladder (l # ls)" "beyond L (lvl_price l)"
  then have "filter (\<lambda>l. \<not> beyond L (lvl_price l)) (l # ls) = []"
    by (auto simp: ladder_def filter_empty_conv dest: beyond_worse)
  then show ?thesis by (simp only: accessible_def list.map sum_list.Nil)
qed

lemma walk_total:
  "ladder ls \<Longrightarrow> 0 \<le> r \<Longrightarrow> sum_list (map snd (walk_loop (beyond L) r ls)) = min r (accessible L ls)"
proof (induction ls arbitrary: r)
  case Nil
  then show ?case by (simp add: accessible_def)
next
  case (Cons l ls)
  note tail = ladder_tail[OF Cons.prems(1)]
  note IH = Cons.IH[OF tail]
  have nn: "0 \<le> lvl_size l" using Cons.prems(1) by (simp add: ladder_def)
  have acc: "0 \<le> accessible L ls" using accessible_nonneg[OF tail] .
  show ?case
  proof (cases "beyond L (lvl_price l)")
    case True
    then show ?thesis using beyond_tail[OF Cons.prems(1)] Cons.prems(2) by simp
  next
    case False
    then have split: "accessible L (l # ls) = lvl_size l + accessible L ls"
      by (simp add: accessible_def)
    have "r - min (lvl_size l) r \<ge> 0" by simp
    note rest = IH[OF this]
    show ?thesis
      using False nn acc split rest IH[of r] Cons.prems(2)
      by (auto simp: Let_def min_def)
  qed
qed

end

interpretation bid_ladder: price_ladder "(\<lambda>p p'. p' \<le> p)" sell_crosses
  by unfold_locales (auto simp: sell_crosses_def split: option.splits)

interpretation ask_ladder: price_ladder "(\<lambda>p p'. p \<le> p')" buy_crosses
  by unfold_locales (auto simp: buy_crosses_def split: option.splits)

definition wf_snapshot :: "book_snapshot \<Rightarrow> bool" where
  "wf_snapshot s \<longleftrightarrow>
     sorted_wrt (\<lambda>p p'. p' \<le> p) (map lvl_price (bids s)) \<and> list_all (\<lambda>l. 0 \<le> lvl_size l) (bids s) \<and>
     sorted_wrt (\<le>) (map lvl_price (asks s)) \<and> list_all (\<lambda>l. 0 \<le> lvl_size l) (asks s)"

lemma wf_snapshot_ladders:
  assumes "wf_snapshot s"
  shows "bid_ladder.ladder (bids s)" "ask_ladder.ladder (asks s)"
  using assms by (simp_all add: wf_snapshot_def bid_ladder.ladder_def ask_ladder.ladder_def list_all_iff)

lemma accessible_total_size:
  "bid_ladder.accessible (Some p) (bids s) = total_size_at_or_better s ''SELL'' p"
  "ask_ladder.accessible (Some p) (asks s) = total_size_at_or_better s ''BUY'' p"
  unfolding bid_ladder.accessible_def ask_ladder.accessible_def total_size_at_or_better_def
    sell_crosses_def buy_crosses_def
  by (auto simp: Let_def py_upper_def char_upper_def not_less algebra_simps
      intro!: arg_cong[where f = sum_list] arg_cong[where f = "map lvl_size"] filter_cong)

lemma py_upper_BUY [simp]: "py_upper ''BUY'' = ''BUY''" and py_upper_SELL [simp]: "py_upper ''SELL'' = ''SELL''"
  by (simp_all add: py_upper_def char_upper_def)

section \<open>Point-in-time lookup\<close>

lemma bisect_right_loop_spec:
  assumes "sorted a" "lo \<le> hi" "hi \<le> length a"
    and "\<forall>i<lo. a ! i \<le> x" and "\<forall>i. hi \<le> i \<and> i < length a \<longrightarrow> x < a ! i"
  shows "bisect_right_loop a x lo hi \<le> length a \<and>
     (\<forall>i<bisect_right_loop a x lo hi. a ! i \<le> x) \<and>
     (\<forall>i. bisect_right_loop a x lo hi \<le> i \<and> i < length a \<longrightarrow> x < a ! i)"
  using assms
proof (induction a x lo hi rule: bisect_right_loop.induct)
  case (1 a x lo hi)
  show ?case
  proof (cases "lo < hi")
    case False
    then show ?thesis using "1.prems" by (simp add: bisect_right_loop.simps)
  next
    case True
    let ?m = "(lo + hi) div 2"
    have m: "lo \<le> ?m" "?m < hi" "?m < length a" using True "1.prems" by auto
    show ?thesis
    proof (cases "x < a ! ?m")
      case True
      have "\<forall>i. ?m \<le> i \<and> i < length a \<longrightarrow> x < a ! i"
        using True "1.prems"(1) by (auto intro: less_le_trans sorted_nth_mono)
      with "1.IH"(1)[OF \<open>lo < hi\<close> refl True] "1.prems" m True \<open>lo < hi\<close>
      show ?thesis by (simp add: bisect_right_loop.simps[of a x lo hi] Let_def)
    next
      case False
      have "\<forall>i<?m + 1. a ! i \<le> x"
      proof (intro allI impI)
        fix i assume "i < ?m + 1"
        then have "a ! i \<le> a ! ?m" using m "1.prems"(1) by (auto intro: sorted_nth_mono)
        with False show "a ! i \<le> x" by simp
      qed
      with "1.IH"(2)[OF \<open>lo < hi\<close> refl False] "1.prems" m False \<open>lo < hi\<close>
      show ?thesis by (simp add: bisect_right_loop.simps[of a x lo hi] Let_def)
    qed
  qed
qed

lemma bisect_right_spec:
  assumes "sorted a"
  shows "bisect_right a x \<le> length a"
    and "i < bisect_right a x \<Longrightarrow> a ! i \<le> x"
    and "bisect_right a x \<le> i \<Longrightarrow> i < length a \<Longrightarrow> x < a ! i"
  using bisect_right_loop_spec[OF assms, of 0 "length a" x]
  by (auto simp: bisect_right_def)

lemma buckets_get:
  "dict_get_or (foldl bucket_append d snaps) token [] =
     dict_get_or d token [] @ filter (\<lambda>s. s_token s = token) snaps"
  by (induction snaps arbitrary: d) (auto simp: bucket_append_def dict_get_or_def split: option.splits)

lemma replay_bucket:
  "dict_get_or (r_by_token (mk_replay snaps)) token [] =
     filter (\<lambda>s. s_token s = token) (sort_key snap_key snaps)"
  by (simp add: mk_replay_def Let_def buckets_get)

lemma replay_sorted: "sorted (map s_observed_at (sort_key snap_key snaps))"
proof -
  have "sorted (map snap_key (sort_key snap_key snaps))" by simp
  then have "sorted_wrt (\<lambda>a b. snap_key a \<le> snap_key b) (sort_key snap_key snaps)"
    by (simp add: sorted_map)
  then have "sorted_wrt (\<lambda>a b. s_observed_at a \<le> s_observed_at b) (sort_key snap_key snaps)"
    by (rule sorted_wrt_mono_rel[rotated]) (auto simp: snap_key_def less_eq_prod_def)
  then show ?thesis by (simp add: sorted_map)
qed

lemma iter_replay: "iter_snapshots (mk_replay snaps) = sort_key snap_key snaps"
  by (simp add: iter_snapshots_def mk_replay_def Let_def)

lemma bucket_sorted:
  "sorted (map s_observed_at (dict_get_or (r_by_token (mk_replay snaps)) token []))"
  using replay_sorted[of snaps]
  by (auto simp: replay_bucket sorted_map intro: sorted_wrt_filter)

lemma snapshot_at_lookup:
  assumes "sorted (map s_observed_at bucket)"
    and "bucket = dict_get_or (r_by_token r) token []"
  shows "case snapshot_at r token ts of
       None \<Rightarrow> (\<forall>s\<in>set bucket. ts < s_observed_at s)
     | Some s \<Rightarrow> s \<in> set bucket \<and> s_observed_at s \<le> ts \<and>
         (\<forall>s'\<in>set bucket. s_observed_at s' \<le> ts \<longrightarrow> s_observed_at s' \<le> s_observed_at s)"
proof -
  let ?k = "map s_observed_at bucket"
  let ?n = "bisect_right ?k ts"
  note spec = bisect_right_spec[OF assms(1), where x = ts]
  show ?thesis
  proof (cases "bucket = [] \<or> ?n = 0")
    case True
    have "ts < s_observed_at s" if "s \<in> set bucket" for s
      using that True spec(3) by (auto simp: in_set_conv_nth)
    with True show ?thesis using assms(2) by (auto simp: snapshot_at_def Let_def)
  next
    case False
    then have n: "0 < ?n" "?n \<le> length bucket" using spec(1) by auto
    have val: "snapshot_at r token ts = Some (bucket ! (?n - 1))"
      using False assms(2) n by (simp add: snapshot_at_def Let_def nat_diff_distrib)
    have le: "s_observed_at (bucket ! (?n - 1)) \<le> ts"
      using spec(2)[of "?n - 1"] n by simp
    have "s_observed_at s' \<le> s_observed_at (bucket ! (?n - 1))"
      if mem: "s' \<in> set bucket" and old: "s_observed_at s' \<le> ts" for s'
    proof -
      obtain i where i: "i < length bucket" "s' = bucket ! i" using mem by (auto simp: in_set_conv_nth)
      have "i < ?n" using spec(3)[of i] i old by (auto simp: not_le[symmetric])
      then show ?thesis using sorted_nth_mono[OF assms(1), of i "?n - 1"] n i by simp
    qed
    with val le n show ?thesis by auto
  qed
qed

section \<open>Queue position\<close>

definition queue_better :: "bool \<Rightarrow> pyfloat \<Rightarrow> pyfloat \<times> pyfloat \<Rightarrow> bool" where
  "queue_better is_buy limit pq =
     (if is_buy then fst pq > limit + eps12 else fst pq < limit - eps12)"

definition queue_same :: "bool \<Rightarrow> pyfloat \<Rightarrow> pyfloat \<times> pyfloat \<Rightarrow> bool" where
  "queue_same is_buy limit pq =
     (\<not> queue_better is_buy limit pq \<and> \<bar>fst pq - limit\<bar> \<le> 1 / 10 ^ 9)"

definition queue_share :: "bool \<Rightarrow> pyfloat \<Rightarrow> pyfloat \<Rightarrow> pyfloat \<times> pyfloat \<Rightarrow> pyfloat" where
  "queue_share is_buy limit fraction pq =
     (if queue_better is_buy limit pq then snd pq
      else if queue_same is_buy limit pq then snd pq * fraction else 0)"

lemma queue_fold:
  "foldl (queue_level b L) (x, y) ps =
     (x + sum_list (map snd (filter (queue_better b L) ps)),
      y + sum_list (map snd (filter (queue_same b L) ps)))"
  by (induction ps arbitrary: x y)
     (auto simp: queue_level_def queue_better_def queue_same_def split: if_splits)

lemma queue_share_sum:
  "sum_list (map snd (filter (queue_better b L) ps)) +
     sum_list (map snd (filter (queue_same b L) ps)) * f = sum_list (map (queue_share b L f) ps)"
  by (induction ps) (auto simp: queue_share_def queue_same_def algebra_simps)

lemma queue_ahead_shares_eq:
  "compute_queue_ahead_shares bs as sd L f df =
     sum_list (map (queue_share (py_upper sd \<in> {''BUY'', ''BUY_YES'', ''BUY_NO''}) L f)
       (iter_levels (if py_upper sd \<in> {''BUY'', ''BUY_YES'', ''BUY_NO''} then bs else as))) * df"
  by (simp add: compute_queue_ahead_shares_def Let_def queue_fold queue_share_sum)

lemma iter_levels_pos: "pq \<in> set (iter_levels ls) \<Longrightarrow> 0 < fst pq \<and> 0 < snd pq"
  by (auto simp: iter_levels_def)

lemma queue_share_bounds:
  "0 \<le> f \<Longrightarrow> f \<le> 1 \<Longrightarrow> 0 < snd pq \<Longrightarrow>
   0 \<le> queue_share b L f pq \<and> queue_share b L f pq \<le> snd pq"
  by (auto simp: queue_share_def mult_left_le)

lemma queue_share_improves:
  assumes f: "0 \<le> f" "f \<le> 1" and q: "0 < snd pq" and better: "if b then L \<le> L' else L' \<le> L"
  shows "queue_share b L' f pq \<le> queue_share b L f pq"
proof -
  have "snd pq * f \<le> snd pq" "0 \<le> snd pq * f" using f q by (auto simp: mult_left_le)
  moreover have "queue_better b L pq" if "queue_better b L' pq"
    using that better by (cases b) (auto simp: queue_better_def)
  moreover have "queue_better b L pq \<or> queue_same b L pq" if "queue_same b L' pq"
    using that better by (cases b) (auto simp: queue_better_def queue_same_def eps12_def abs_if split: if_splits)
  ultimately show ?thesis using q by (auto simp: queue_share_def)
qed

lemma queue_ahead_nonneg:
  "0 \<le> f \<Longrightarrow> f \<le> 1 \<Longrightarrow> 0 \<le> df \<Longrightarrow> 0 \<le> compute_queue_ahead_shares bs as sd L f df"
  unfolding queue_ahead_shares_eq
  by (intro mult_nonneg_nonneg sum_list_nonneg_real)
     (use queue_share_bounds iter_levels_pos in auto)

section \<open>Properties\<close>

text \<open>A small book used by the witnesses of this and later theories.\<close>

definition sample_book :: "string \<Rightarrow> timestamp \<Rightarrow> book_snapshot" where
  "sample_book token when =
     \<lparr>s_token = token, s_observed_at = when, s_sequence = Some 1, s_spread_bps = None,
      s_trade_price = None, s_trade_size = None, s_trade_side = None,
      s_top_bid = None, s_top_ask = None,
      s_bids = None, s_asks = None,
      s_bids_raw = Some [(50/100, 10), (49/100, 20)],
      s_asks_raw = Some [(52/100, 10), (53/100, 20)]\<rparr>"

lemma sample_book_ladders [simp]:
  "bids (sample_book t a) = [mk_level (50/100, 10), mk_level (49/100, 20)]"
  "asks (sample_book t a) = [mk_level (52/100, 10), mk_level (53/100, 20)]"
  by (simp_all add: sample_book_def bids_def asks_def)

lemma sample_book_fields [simp]:
  "s_token (sample_book t a) = t" "s_observed_at (sample_book t a) = a"
  by (simp_all add: sample_book_def)

lemma sample_book_wf: "wf_snapshot (sample_book t a)"
  by (simp add: wf_snapshot_def mk_level_def)

text \<open>
  On a well-formed snapshot a taker walk fills exactly the smaller of the requested size and
  the size displayed at or better than its limit, and every piece it fills is a positive part of
  one displayed level inside the limit.
\<close>

theorem walk_fills_accessible_size:
  assumes "wf_snapshot s" and "py_upper side \<in> {''SELL'', ''BUY''}"
  shows "sum_list (map snd (walk_for_taker s side sz (Some p))) =
           min (max 0 sz) (total_size_at_or_better s (py_upper side) p)
       \<and> (\<forall>(q, n)\<in>set (walk_for_taker s side sz (Some p)).
            0 < n \<and> (if py_upper side = ''SELL'' then p \<le> q + eps12 else q \<le> p + eps12))"
proof -
  note L = wf_snapshot_ladders[OF assms(1)]
  note nn = bid_ladder.accessible_nonneg[OF L(1), of "Some p"] ask_ladder.accessible_nonneg[OF L(2), of "Some p"]
  show ?thesis
    using assms(2) bid_ladder.walk_total[OF L(1), of "max 0 sz" "Some p"]
      ask_ladder.walk_total[OF L(2), of "max 0 sz" "Some p"] nn
    by (auto simp: walk_for_taker_def Let_def accessible_total_size
        dest: walk_loop_sizes)
       (auto simp: sell_crosses_def buy_crosses_def dest!: walk_loop_levels split: if_splits)
qed

theorem walk_fills_accessible_size_witness:
  "sum_list (map snd (walk_for_taker (sample_book ''t'' 0) ''buy'' 15 (Some (53/100)))) = 15"
proof -
  have side: "py_upper ''buy'' = ''BUY''" by code_simp
  have "total_size_at_or_better (sample_book ''t'' 0) ''BUY'' (53/100) = 30"
    by (simp add: total_size_at_or_better_def mk_level_def eps12_def)
  with walk_fills_accessible_size[OF sample_book_wf, of "''buy''" "''t''" 0 15 "53/100"] side
  show ?thesis by simp
qed

text \<open>
  The replay is chronological, and a point-in-time lookup never looks ahead: it answers with
  the latest snapshot of the token observed at or before the requested time, and with nothing
  exactly when every snapshot of the token lies in the future.
\<close>

theorem snapshot_at_point_in_time:
  "sorted (map s_observed_at (iter_snapshots (mk_replay snaps)))
   \<and> (case snapshot_at (mk_replay snaps) token ts of
        None \<Rightarrow> (\<forall>s\<in>set snaps. s_token s = token \<longrightarrow> ts < s_observed_at s)
      | Some s \<Rightarrow> s \<in> set snaps \<and> s_token s = token \<and> s_observed_at s \<le> ts \<and>
          (\<forall>s'\<in>set snaps. s_token s' = token \<longrightarrow> s_observed_at s' \<le> ts
             \<longrightarrow> s_observed_at s' \<le> s_observed_at s))"
  using snapshot_at_lookup[OF bucket_sorted refl, of snaps token ts] replay_sorted[of snaps]
    iter_replay[of snaps]
  by (auto simp: replay_bucket split: option.splits)

theorem snapshot_at_point_in_time_witness:
  "snapshot_at (mk_replay [sample_book ''t'' 5, sample_book ''t'' 3]) ''t'' 4 = Some (sample_book ''t'' 3)"
proof -
  let ?r = "mk_replay [sample_book ''t'' 5, sample_book ''t'' 3]"
  note h = snapshot_at_point_in_time[of "[sample_book ''t'' 5, sample_book ''t'' 3]" "''t''" 4]
  show ?thesis
  proof (cases "snapshot_at ?r ''t'' 4")
    case None
    with h show ?thesis by (auto split: option.splits)
  next
    case (Some s)
    with h have "s \<in> {sample_book ''t'' 5, sample_book ''t'' 3}" "s_observed_at s \<le> 4"
      by (auto split: option.splits)
    with Some show ?thesis by auto
  qed
qed

text \<open>
  The queue-ahead count is never negative, never exceeds the displayed size of the order's own
  side, and improving the limit price never puts the order further back in the queue.
\<close>

theorem queue_ahead_bounded_and_monotone:
  assumes f: "0 \<le> f" "f \<le> 1" and df: "0 \<le> df" "df \<le> 1"
    and buy: "is_buy = (py_upper side \<in> {''BUY'', ''BUY_YES'', ''BUY_NO''})"
    and better: "if is_buy then L \<le> L' else L' \<le> L"
  shows "0 \<le> compute_queue_ahead_shares bs as side L f df
    \<and> compute_queue_ahead_shares bs as side L f df
        \<le> sum_list (map snd (iter_levels (if is_buy then bs else as)))
    \<and> compute_queue_ahead_shares bs as side L' f df \<le> compute_queue_ahead_shares bs as side L f df"
proof (intro conjI)
  let ?ls = "iter_levels (if is_buy then bs else as)"
  have pos: "0 < snd pq" if "pq \<in> set ?ls" for pq
    using iter_levels_pos[OF that] by simp
  show "0 \<le> compute_queue_ahead_shares bs as side L f df"
    using queue_ahead_nonneg f df by blast
  have "sum_list (map (queue_share is_buy L f) ?ls) \<le> sum_list (map snd ?ls)"
    by (rule sum_list_mono) (use queue_share_bounds f pos in auto)
  moreover have queue_sum_nonneg: "0 \<le> sum_list (map (queue_share is_buy L f) ?ls)"
    by (rule sum_list_nonneg_real) (use queue_share_bounds f pos in auto)
  ultimately have queue_cap: "sum_list (map (queue_share is_buy L f) ?ls) * df \<le> sum_list (map snd ?ls)"
    using df queue_sum_nonneg by (meson mult_left_le order_trans)
  then show "compute_queue_ahead_shares bs as side L f df \<le> sum_list (map snd ?ls)"
    using df queue_cap by (simp only: queue_ahead_shares_eq flip: buy)
  have "sum_list (map (queue_share is_buy L' f) ?ls) \<le> sum_list (map (queue_share is_buy L f) ?ls)"
    by (rule sum_list_mono) (use queue_share_improves[OF f _ better] pos in auto)
  then show "compute_queue_ahead_shares bs as side L' f df \<le> compute_queue_ahead_shares bs as side L f df"
    using df by (simp only: queue_ahead_shares_eq flip: buy) (rule mult_right_mono)
qed

theorem queue_ahead_bounded_and_monotone_witness:
  "compute_queue_ahead_shares (bids (sample_book ''t'' 0)) [] ''BUY'' (49/100) (65/100) 1 \<le> 30"
proof -
  have "(True :: bool) = (py_upper ''BUY'' \<in> {''BUY'', ''BUY_YES'', ''BUY_NO''})" by simp
  from queue_ahead_bounded_and_monotone[OF _ _ _ _ this, of "65/100" 1 "49/100" "50/100"
      "bids (sample_book ''t'' 0)" "[]"]
  show ?thesis by (simp add: iter_levels_def mk_level_def)
qed

end
