(* ===== verification/Venue.thy ===== *)
theory Venue
  imports Book
begin

text \<open>
  Venue rules of the backtester, \<open>services/backtest/venue_model.py\<close>: time-in-force names, the
  Polymarket rule record, tick rounding, static submit validation and the crossing tests.

  The locale \<open>venue_interface\<close> is the contract of the \<open>Venue\<close> protocol that the matching
  engine relies on; it is interpreted on the Polymarket rules.
\<close>

definition TIF_GTC :: string where "TIF_GTC = ''GTC''"
definition TIF_IOC :: string where "TIF_IOC = ''IOC''"
definition TIF_FAK :: string where "TIF_FAK = ''FAK''"
definition TIF_FOK :: string where "TIF_FOK = ''FOK''"
definition TIF_GTD :: string where "TIF_GTD = ''GTD''"

lemmas tif_defs = TIF_GTC_def TIF_IOC_def TIF_FAK_def TIF_FOK_def TIF_GTD_def

datatype reject_reason =
    InvalidSide string
  | InvalidTif string
  | PostOnlyWithTakerTif string
  | NonPositiveSize
  | NonPositivePrice
  | BelowMinNotional pyfloat pyfloat
  | PostOnlyCrossesBook
  | FokInsufficientLiquidity

record order_rule =
  tick_size :: pyfloat
  min_notional_usd :: pyfloat
  max_price :: pyfloat
  min_price :: pyfloat
  valid_tifs :: "string list"
  supports_post_only :: bool
  supports_partial_fills :: bool
  fok_atomicity :: bool

record submit_decision =
  d_ok :: bool
  d_adjusted_price :: "pyfloat option"
  d_adjusted_size :: "pyfloat option"
  d_reject_reason :: "reject_reason option"

definition polymarket_rules :: order_rule where
  "polymarket_rules =
     \<lparr>tick_size = 1 / 100, min_notional_usd = 1, max_price = 99 / 100, min_price = 1 / 100,
      valid_tifs = [TIF_GTC, TIF_IOC, TIF_FAK, TIF_FOK, TIF_GTD],
      supports_post_only = True, supports_partial_fills = True, fok_atomicity = True\<rparr>"

definition eps9 :: pyfloat where
  "eps9 = 1 / 10 ^ 9"

definition round_price :: "order_rule \<Rightarrow> pyfloat \<Rightarrow> string \<Rightarrow> pyfloat" where
  "round_price rules price side =
     (let tick = tick_size rules; sd = py_upper side in
      if tick \<le> 0 then price
      else let steps = price / tick;
               rounded = (if sd = ''BUY'' then of_int \<lceil>steps - eps9\<rceil> * tick
                          else of_int \<lfloor>steps + eps9\<rfloor> * tick)
        in clamp rounded (min_price rules) (max_price rules))"

definition rejected :: "reject_reason \<Rightarrow> submit_decision" where
  "rejected r = \<lparr>d_ok = False, d_adjusted_price = None, d_adjusted_size = None, d_reject_reason = Some r\<rparr>"

definition tif_or_gtc :: "string \<Rightarrow> string" where
  "tif_or_gtc tif = py_upper (if tif = [] then TIF_GTC else tif)"

definition validate_submit ::
    "order_rule \<Rightarrow> string \<Rightarrow> pyfloat \<Rightarrow> pyfloat \<Rightarrow> string \<Rightarrow> bool \<Rightarrow> submit_decision" where
  "validate_submit rules side price sz tif post_only =
     (let sd = py_upper side; tn = tif_or_gtc tif in
      if sd \<noteq> ''BUY'' \<and> sd \<noteq> ''SELL'' then rejected (InvalidSide side)
      else if tn \<notin> set (valid_tifs rules) then rejected (InvalidTif tif)
      else if post_only \<and> tn \<in> {TIF_IOC, TIF_FAK, TIF_FOK} then rejected (PostOnlyWithTakerTif tn)
      else if sz \<le> 0 then rejected NonPositiveSize
      else if price \<le> 0 then rejected NonPositivePrice
      else let rp = round_price rules price sd; notional = rp * sz in
        if notional + eps9 < min_notional_usd rules
        then rejected (BelowMinNotional notional (min_notional_usd rules))
        else \<lparr>d_ok = True,
              d_adjusted_price = (if \<bar>rp - price\<bar> > eps12 then Some rp else None),
              d_adjusted_size = None, d_reject_reason = None\<rparr>)"

definition crosses_book :: "string \<Rightarrow> pyfloat \<Rightarrow> pyfloat option \<Rightarrow> pyfloat option \<Rightarrow> bool" where
  "crosses_book side price bb ba =
     (let sd = py_upper side in
      if sd = ''BUY'' then (case ba of None \<Rightarrow> False | Some a \<Rightarrow> price + eps12 \<ge> a)
      else if sd = ''SELL'' then (case bb of None \<Rightarrow> False | Some b \<Rightarrow> price - eps12 \<le> b)
      else False)"

definition is_marketable :: "string \<Rightarrow> pyfloat \<Rightarrow> pyfloat option \<Rightarrow> pyfloat option \<Rightarrow> bool" where
  "is_marketable side price bb ba =
     (let sd = py_upper side in
      if sd = ''BUY'' then (case ba of None \<Rightarrow> False | Some a \<Rightarrow> price + eps12 \<ge> a)
      else if sd = ''SELL'' then (case bb of None \<Rightarrow> False | Some b \<Rightarrow> price - eps12 \<le> b)
      else False)"

section \<open>The venue contract\<close>

definition effective_price :: "submit_decision \<Rightarrow> pyfloat \<Rightarrow> pyfloat" where
  "effective_price d price = (case d_adjusted_price d of None \<Rightarrow> price | Some p \<Rightarrow> p)"

definition effective_size :: "submit_decision \<Rightarrow> pyfloat \<Rightarrow> pyfloat" where
  "effective_size d sz = (case d_adjusted_size d of None \<Rightarrow> sz | Some n \<Rightarrow> n)"

locale venue_interface =
  fixes validate :: "string \<Rightarrow> pyfloat \<Rightarrow> pyfloat \<Rightarrow> string \<Rightarrow> bool \<Rightarrow> submit_decision"
    and crosses :: "string \<Rightarrow> pyfloat \<Rightarrow> pyfloat option \<Rightarrow> pyfloat option \<Rightarrow> bool"
    and marketable :: "string \<Rightarrow> pyfloat \<Rightarrow> pyfloat option \<Rightarrow> pyfloat option \<Rightarrow> bool"
    and floor_notional :: real
    and slack :: real
  assumes admitted_size: "d_ok (validate sd p q tif po) \<Longrightarrow> 0 < effective_size (validate sd p q tif po) q"
    and admitted_price: "d_ok (validate sd p q tif po) \<Longrightarrow> 0 < effective_price (validate sd p q tif po) p"
    and admitted_notional: "d_ok (validate sd p q tif po) \<Longrightarrow>
          floor_notional \<le> effective_price (validate sd p q tif po) p * effective_size (validate sd p q tif po) q
            + slack * (1 + effective_size (validate sd p q tif po) q)"
    and refused_reason: "\<not> d_ok (validate sd p q tif po) \<Longrightarrow> d_reject_reason (validate sd p q tif po) \<noteq> None"
    and crosses_marketable: "crosses sd p bb ba = marketable sd p bb ba"
begin

lemma admitted_value_positive:
  "d_ok (validate sd p q tif po) \<Longrightarrow>
   0 < effective_price (validate sd p q tif po) p * effective_size (validate sd p q tif po) q"
  by (simp add: admitted_size admitted_price)

lemma post_only_never_marketable: "\<not> crosses sd p bb ba \<Longrightarrow> \<not> marketable sd p bb ba"
  by (simp add: crosses_marketable)

end

section \<open>Tick rounding\<close>

lemma polymarket_rules_simps [simp]:
  "tick_size polymarket_rules = 1 / 100" "min_notional_usd polymarket_rules = 1"
  "max_price polymarket_rules = 99 / 100" "min_price polymarket_rules = 1 / 100"
  "valid_tifs polymarket_rules = [TIF_GTC, TIF_IOC, TIF_FAK, TIF_FOK, TIF_GTD]"
  by (simp_all add: polymarket_rules_def)

definition raw_ticks :: "pyfloat \<Rightarrow> string \<Rightarrow> int" where
  "raw_ticks price side =
     (if py_upper side = ''BUY'' then \<lceil>price * 100 - eps9\<rceil> else \<lfloor>price * 100 + eps9\<rfloor>)"

lemma round_price_ticks:
  "round_price polymarket_rules price side = of_int (max 1 (min 99 (raw_ticks price side))) / 100"
  by (simp add: round_price_def Let_def clamp_def raw_ticks_def max_def min_def)

lemma raw_ticks_grid: "raw_ticks (of_int k / 100) side = k"
proof -
  have "\<lceil>of_int k - eps9\<rceil> = k" unfolding eps9_def by (rule ceiling_unique) auto
  moreover have "\<lfloor>of_int k + eps9\<rfloor> = k" unfolding eps9_def by (rule floor_unique) auto
  ultimately show ?thesis by (simp add: raw_ticks_def)
qed

lemma round_price_band:
  "1 / 100 \<le> round_price polymarket_rules price side \<and> round_price polymarket_rules price side \<le> 99 / 100"
proof -
  have "1 \<le> max 1 (min 99 (raw_ticks price side))" "max 1 (min 99 (raw_ticks price side)) \<le> 99" by auto
  then have "(1 :: real) \<le> of_int (max 1 (min 99 (raw_ticks price side)))"
     "of_int (max 1 (min 99 (raw_ticks price side))) \<le> (99 :: real)" by linarith+
  then show ?thesis unfolding round_price_ticks by simp
qed

lemma round_price_idem:
  "round_price polymarket_rules (round_price polymarket_rules price side) side' =
   round_price polymarket_rules price side"
  by (simp add: round_price_ticks raw_ticks_grid)

lemma raw_ticks_direction:
  "py_upper side = ''BUY'' \<Longrightarrow> price * 100 - eps9 \<le> of_int (raw_ticks price side) \<and>
     of_int (raw_ticks price side) < price * 100 - eps9 + 1"
  "py_upper side \<noteq> ''BUY'' \<Longrightarrow> of_int (raw_ticks price side) \<le> price * 100 + eps9 \<and>
     price * 100 + eps9 - 1 < of_int (raw_ticks price side)"
  by (simp_all add: raw_ticks_def) linarith+

section \<open>Static validation\<close>

lemma rejected_simps [simp]: "\<not> d_ok (rejected r)" "d_reject_reason (rejected r) = Some r"
  by (simp_all add: rejected_def)

text \<open>Six guards in a row, then acceptance: the shape of \<open>validate_submit\<close>.\<close>

lemma guard_chain:
  fixes c1 c2 c3 c4 c5 c6 :: bool and r1 r2 r3 r4 r5 r6 :: reject_reason and x :: "pyfloat option"
  defines "d \<equiv> (if c1 then rejected r1 else if c2 then rejected r2 else if c3 then rejected r3
      else if c4 then rejected r4 else if c5 then rejected r5 else if c6 then rejected r6
      else \<lparr>d_ok = True, d_adjusted_price = x, d_adjusted_size = None, d_reject_reason = None\<rparr>)"
  shows "d_ok d \<longleftrightarrow> \<not> c1 \<and> \<not> c2 \<and> \<not> c3 \<and> \<not> c4 \<and> \<not> c5 \<and> \<not> c6"
    and "d_ok d \<Longrightarrow> d_adjusted_price d = x \<and> d_adjusted_size d = None"
    and "\<not> d_ok d \<Longrightarrow> d_reject_reason d \<noteq> None"
  unfolding d_def by (auto split: if_splits)

lemma validate_ok_iff:
  "d_ok (validate_submit rules sd p q tif po) \<longleftrightarrow>
     (py_upper sd = ''BUY'' \<or> py_upper sd = ''SELL'') \<and> tif_or_gtc tif \<in> set (valid_tifs rules) \<and>
     \<not> (po \<and> tif_or_gtc tif \<in> {TIF_IOC, TIF_FAK, TIF_FOK}) \<and> 0 < q \<and> 0 < p \<and>
     min_notional_usd rules \<le> round_price rules p (py_upper sd) * q + eps9"
  unfolding validate_submit_def Let_def guard_chain(1) by (auto simp: not_le not_less)

lemma validate_ok_adjust:
  "d_ok (validate_submit rules sd p q tif po) \<Longrightarrow>
   d_adjusted_price (validate_submit rules sd p q tif po) =
     (if \<bar>round_price rules p (py_upper sd) - p\<bar> > eps12 then Some (round_price rules p (py_upper sd)) else None) \<and>
   d_adjusted_size (validate_submit rules sd p q tif po) = None"
  unfolding validate_submit_def Let_def by (rule guard_chain(2))

lemma validate_refused:
  "\<not> d_ok (validate_submit rules sd p q tif po) \<Longrightarrow>
   d_reject_reason (validate_submit rules sd p q tif po) \<noteq> None"
  unfolding validate_submit_def Let_def by (rule guard_chain(3))

lemma validate_ok_value:
  "d_ok (validate_submit rules sd p q tif po) \<Longrightarrow>
   effective_size (validate_submit rules sd p q tif po) q = q \<and>
   \<bar>effective_price (validate_submit rules sd p q tif po) p - round_price rules p (py_upper sd)\<bar> \<le> eps12"
  using validate_ok_adjust[of rules sd p q tif po]
  by (cases "\<bar>round_price rules p (py_upper sd) - p\<bar> > eps12")
     (simp_all add: effective_price_def effective_size_def abs_minus_commute[of p])

lemma polymarket_admitted:
  assumes ok: "d_ok (validate_submit polymarket_rules sd p q tif po)"
  defines "d \<equiv> validate_submit polymarket_rules sd p q tif po"
  shows "0 < effective_price d p" "0 < effective_size d q"
    and "1 \<le> effective_price d p * effective_size d q + eps9 * (1 + effective_size d q)"
proof -
  let ?r = "round_price polymarket_rules p (py_upper sd)"
  have v: "effective_size d q = q" "\<bar>effective_price d p - ?r\<bar> \<le> eps12"
    using validate_ok_value[OF ok] by (simp_all add: d_def)
  have band: "1 / 100 \<le> ?r" using round_price_band by blast
  have q: "0 < q" and n: "1 \<le> ?r * q + eps9" using ok by (simp_all add: validate_ok_iff)
  show "0 < effective_price d p" using v band by (auto simp: eps12_def abs_if split: if_splits)
  show "0 < effective_size d q" using v q by simp
  have "?r * q \<le> (effective_price d p + eps12) * q"
    using v(2) q by (intro mult_right_mono) (auto simp: abs_if split: if_splits)
  also have "\<dots> \<le> effective_price d p * q + eps9 * q"
    using q by (simp add: distrib_right eps12_def eps9_def)
  finally show "1 \<le> effective_price d p * effective_size d q + eps9 * (1 + effective_size d q)"
    using n v(1) by (simp add: distrib_left)
qed

interpretation polymarket: venue_interface "validate_submit polymarket_rules" crosses_book is_marketable 1 eps9
proof unfold_locales
  fix sd tif :: string and p q :: pyfloat and po :: bool
  show "\<not> d_ok (validate_submit polymarket_rules sd p q tif po) \<Longrightarrow>
      d_reject_reason (validate_submit polymarket_rules sd p q tif po) \<noteq> None"
    by (rule validate_refused)
  show "crosses_book sd p bb ba = is_marketable sd p bb ba" for bb ba
    by (simp add: crosses_book_def is_marketable_def)
qed (rule polymarket_admitted, assumption)+

section \<open>Properties\<close>

text \<open>
  Tick rounding is idempotent, stays inside the price band and on the tick grid, and for a
  price inside the band moves a BUY up and a SELL down by less than one tick (up to the code's
  tolerance of 1e-9 ticks).
\<close>

theorem round_price_correct:
  fixes price :: pyfloat and side :: string
  defines "r \<equiv> round_price polymarket_rules price side"
  assumes band: "1 / 100 \<le> price" "price \<le> 99 / 100"
  shows "round_price polymarket_rules r side = r
    \<and> 1 / 100 \<le> r \<and> r \<le> 99 / 100 \<and> (\<exists>k::int. r = of_int k / 100)
    \<and> (if py_upper side = ''BUY'' then price - eps9 \<le> r \<and> r < price + 1 / 100
       else r \<le> price + eps9 \<and> price - 1 / 100 < r)"
proof -
  have grid: "\<exists>k::int. r = of_int k / 100" unfolding r_def round_price_ticks by blast
  let ?t = "raw_ticks price side"
  have clamped: "r = max (1 / 100) (min (99 / 100) (of_int ?t / 100))"
    unfolding r_def round_price_ticks by (auto simp: max_def min_def)
  have "if py_upper side = ''BUY'' then price - eps9 \<le> r \<and> r < price + 1 / 100
       else r \<le> price + eps9 \<and> price - 1 / 100 < r"
    using raw_ticks_direction[of side price] band unfolding clamped
    by (auto simp: eps9_def max_def min_def split: if_splits)
  then show ?thesis
    using round_price_idem[of price side side] round_price_band[of price side] grid by (simp add: r_def)
qed

theorem round_price_correct_witness:
  "round_price polymarket_rules (501/1000) ''BUY'' < 511/1000
   \<and> 501/1000 - eps9 \<le> round_price polymarket_rules (501/1000) ''BUY''"
  using round_price_correct[of "501/1000" "''BUY''"] by simp

text \<open>
  Static validation admits an order exactly when its side and time-in-force are known, it is
  not a post-only order with a taker time-in-force, size and price are positive and the rounded
  notional reaches the venue floor; the admitted order keeps its size and its effective price is
  the rounded one up to 1e-12.
\<close>

theorem validate_submit_admits:
  "d_ok (validate_submit polymarket_rules sd p q tif po) =
     ((py_upper sd = ''BUY'' \<or> py_upper sd = ''SELL'') \<and>
      tif_or_gtc tif \<in> {''GTC'', ''IOC'', ''FAK'', ''FOK'', ''GTD''} \<and>
      \<not> (po \<and> tif_or_gtc tif \<in> {''IOC'', ''FAK'', ''FOK''}) \<and> 0 < q \<and> 0 < p \<and>
      1 \<le> round_price polymarket_rules p (py_upper sd) * q + eps9)
   \<and> (d_ok (validate_submit polymarket_rules sd p q tif po) \<longrightarrow>
        effective_size (validate_submit polymarket_rules sd p q tif po) q = q \<and>
        \<bar>effective_price (validate_submit polymarket_rules sd p q tif po) p
           - round_price polymarket_rules p (py_upper sd)\<bar> \<le> eps12)"
  using validate_ok_value[of polymarket_rules sd p q tif po]
  by (auto simp: validate_ok_iff tif_defs)

theorem validate_submit_admits_witness:
  "effective_size (validate_submit polymarket_rules ''BUY'' (1/2) 10 ''GTC'' False) 10 = 10"
proof -
  have r: "round_price polymarket_rules (1/2) ''BUY'' = 1/2"
    using raw_ticks_grid[of 50 "''BUY''"] by (simp add: round_price_ticks)
  have "tif_or_gtc ''GTC'' = ''GTC''" by (simp add: tif_or_gtc_def py_upper_def char_upper_def)
  then show ?thesis
    using validate_submit_admits[of "''BUY''" "1/2" 10 "''GTC''" False] r by (simp add: eps9_def)
qed

end
