(* ===== verification/Fees.thy ===== *)
theory Fees
  imports Book
begin

text \<open>
  Costs and sizing: \<open>utils/kelly.py\<close> (Kelly sizing, the Polymarket and Kalshi taker fee
  curves, fee-adjusted edge) and the \<open>FeeModel\<close> and \<open>ImpactModel\<close> classes of
  \<open>services/backtest/matching_engine.py\<close>.
\<close>

section \<open>Kelly sizing and fee curves\<close>

definition kelly_fraction :: "pyfloat \<Rightarrow> pyfloat \<Rightarrow> pyfloat \<Rightarrow> pyfloat" where
  "kelly_fraction p_estimated p_market fraction =
     (if p_estimated \<le> p_market \<or> p_market \<le> 0 \<or> p_market \<ge> 1 then 0
      else let f_star = (p_estimated - p_market) / (1 - p_market)
        in max 0 (min 1 (fraction * f_star)))"

definition kelly_size ::
    "pyfloat \<Rightarrow> pyfloat \<Rightarrow> pyfloat \<Rightarrow> pyfloat \<Rightarrow> pyfloat \<Rightarrow> pyfloat \<Rightarrow> pyfloat" where
  "kelly_size p_estimated p_market bankroll fraction min_size max_size =
     (let sz = bankroll * kelly_fraction p_estimated p_market fraction
      in if sz < min_size then 0 else min sz max_size)"

definition polymarket_taker_fee :: "pyfloat \<Rightarrow> pyfloat" where
  "polymarket_taker_fee p = (let c = max 0 (min 1 p) in c * (1 / 4) * (c * (1 - c)) ^ 2)"

definition polymarket_taker_fee_pct :: "pyfloat \<Rightarrow> pyfloat" where
  "polymarket_taker_fee_pct p = (if p \<le> 0 then 0 else polymarket_taker_fee p / p)"

definition kalshi_taker_fee :: "pyfloat \<Rightarrow> int \<Rightarrow> pyfloat \<Rightarrow> pyfloat" where
  "kalshi_taker_fee p contracts fee_rate =
     of_int \<lceil>fee_rate * of_int contracts * p * (1 - p) * 100\<rceil> / 100"

definition fee_adjusted_edge :: "pyfloat \<Rightarrow> pyfloat \<Rightarrow> string \<Rightarrow> string \<Rightarrow> pyfloat" where
  "fee_adjusted_edge p_estimated p_market platform side =
     (let gross_edge = p_estimated - p_market;
          fee = (if platform = ''polymarket'' then
                   (if side = ''buy'' then polymarket_taker_fee p_market else 0)
                 else if platform = ''kalshi'' then kalshi_taker_fee p_market 1 (7 / 100)
                 else 0)
      in gross_edge - fee)"

definition breakeven_edge :: "pyfloat \<Rightarrow> string \<Rightarrow> pyfloat" where
  "breakeven_edge p_market platform =
     (if platform = ''polymarket'' then polymarket_taker_fee p_market
      else if platform = ''kalshi'' then kalshi_taker_fee p_market 1 (7 / 100)
      else 0)"

section \<open>Per-fill and settlement fees\<close>

record fee_model =
  taker_bps :: pyfloat
  maker_bps :: pyfloat
  per_fill_gas_usd :: pyfloat
  resolution_fee_rate :: pyfloat
  negrisk_conversion_gas_usd :: pyfloat
  maker_rebate_bps :: pyfloat
  maker_rebate_max_spread_bps :: pyfloat
  use_taker_fee_curve :: bool
  crypto_fee_multiplier :: pyfloat

definition default_fee_model :: fee_model where
  "default_fee_model =
     \<lparr>taker_bps = 0, maker_bps = 0, per_fill_gas_usd = 5 / 1000, resolution_fee_rate = 0,
      negrisk_conversion_gas_usd = 1 / 100, maker_rebate_bps = 0, maker_rebate_max_spread_bps = 50,
      use_taker_fee_curve = True, crypto_fee_multiplier = 1\<rparr>"

definition fill_fee ::
    "fee_model \<Rightarrow> pyfloat \<Rightarrow> pyfloat \<Rightarrow> bool \<Rightarrow> bool \<Rightarrow> pyfloat option \<Rightarrow> pyfloat" where
  "fill_fee fm price sz is_maker is_negrisk mid_price =
     (let gas0 = max 0 (per_fill_gas_usd fm);
          gas = (if is_negrisk then gas0 + max 0 (negrisk_conversion_gas_usd fm) else gas0)
      in if is_maker then
           let maker_fee = (if maker_bps fm > 0 then price * sz * (maker_bps fm / 10000) else 0);
               inside_band = (case mid_price of
                   Some m \<Rightarrow> if m > 0
                     then \<bar>price - m\<bar> / m * 10000 \<le> maker_rebate_max_spread_bps fm else True
                 | None \<Rightarrow> True);
               rebate_credit = (if maker_rebate_bps fm > 0 \<and> inside_band
                   then price * sz * (maker_rebate_bps fm / 10000) else 0)
           in maker_fee + gas - rebate_credit
         else
           let taker_fee = (if use_taker_fee_curve fm
                 then polymarket_taker_fee price * sz * max 0 (crypto_fee_multiplier fm)
                 else price * sz * (taker_bps fm / 10000))
           in taker_fee + gas)"

definition resolution_fee :: "fee_model \<Rightarrow> pyfloat \<Rightarrow> pyfloat" where
  "resolution_fee fm gross_winnings_usd =
     (if gross_winnings_usd \<le> 0 then 0
      else gross_winnings_usd * max 0 (resolution_fee_rate fm))"

section \<open>Market impact\<close>

record impact_model =
  strength_bps :: pyfloat
  cap_bps :: pyfloat
  capacity_threshold :: pyfloat
  capacity_exponent :: pyfloat

definition default_impact_model :: impact_model where
  "default_impact_model =
     \<lparr>strength_bps = 0, cap_bps = 200, capacity_threshold = 1 / 2, capacity_exponent = 3 / 2\<rparr>"

definition adverse_bps :: "impact_model \<Rightarrow> pyfloat \<Rightarrow> pyfloat \<Rightarrow> pyfloat" where
  "adverse_bps im your_size_shares side_visible_depth_shares =
     (if strength_bps im \<le> 0 then 0
      else if your_size_shares \<le> 0 \<or> side_visible_depth_shares \<le> 0 then 0
      else let ratio = max 0 (your_size_shares / side_visible_depth_shares);
               threshold = max (1 / 10 ^ 6) (capacity_threshold im);
               bps = (if ratio \<le> threshold then strength_bps im * sqrt ratio
                      else strength_bps im * sqrt threshold
                           + strength_bps im * (ratio - threshold) powr capacity_exponent im)
           in min bps (max 0 (cap_bps im)))"

section \<open>Lemmas\<close>

lemma kelly_fraction_range: "0 \<le> kelly_fraction p m f \<and> kelly_fraction p m f \<le> 1"
  by (simp add: kelly_fraction_def Let_def)

text \<open>Expected log growth of staking a fraction \<open>f\<close> of the bankroll on a contract priced \<open>m\<close>.\<close>

definition log_growth :: "real \<Rightarrow> real \<Rightarrow> real \<Rightarrow> real" where
  "log_growth p m f = p * ln (1 + f * (1 - m) / m) + (1 - p) * ln (1 - f)"

lemma ln_ratio_le:
  assumes "0 < a" "0 < b" shows "ln a - ln b \<le> a / b - (1 :: real)"
  using ln_le_minus_one[of "a / b"] assms by (simp add: ln_div)

lemma kelly_optimal:
  assumes m: "0 < m" "m < p" and p: "p < 1" and f: "0 \<le> f" "f < 1"
  shows "log_growth p m f \<le> log_growth p m ((p - m) / (1 - m))"
proof -
  let ?s = "(p - m) / (1 - m)" and ?A = "1 + f * (1 - m) / m"
  have A': "1 + ?s * (1 - m) / m = p / m" and B': "1 - ?s = (1 - p) / (1 - m)"
    using m p by (simp_all add: field_simps)
  have pos: "0 < ?A" "0 < p / m" "0 < 1 - f" "0 < (1 - p) / (1 - m)"
    using m p f by (auto intro: add_pos_nonneg)
  have "p * (ln ?A - ln (p / m)) \<le> p * (?A / (p / m) - 1)"
    using ln_ratio_le[OF pos(1,2)] m by (intro mult_left_mono) auto
  moreover have "(1 - p) * (ln (1 - f) - ln ((1 - p) / (1 - m))) \<le> (1 - p) * ((1 - f) / ((1 - p) / (1 - m)) - 1)"
    using ln_ratio_le[OF pos(3,4)] p by (intro mult_left_mono) auto
  moreover have "p * (?A / (p / m) - 1) = m + f * (1 - m) - p"
    using m by (simp add: field_simps)
  moreover have "(1 - p) * ((1 - f) / ((1 - p) / (1 - m)) - 1) = (1 - m) * (1 - f) - (1 - p)"
    using p m by (simp add: field_simps)
  ultimately have "p * ln ?A - p * ln (p / m) + ((1 - p) * ln (1 - f) - (1 - p) * ln ((1 - p) / (1 - m)))
      \<le> m + f * (1 - m) - p + ((1 - m) * (1 - f) - (1 - p))"
    unfolding right_diff_distrib by linarith
  also have "\<dots> = 0" by (simp add: algebra_simps)
  finally show ?thesis unfolding log_growth_def A' B' by linarith
qed

lemma quadratic_peak: "0 \<le> c \<Longrightarrow> c \<le> 1 \<Longrightarrow> 0 \<le> c * (1 - c) \<and> c * (1 - c) \<le> (1 / 4 :: real)"
proof -
  assume "0 \<le> c" "c \<le> 1"
  moreover have "0 \<le> (c - 1 / 2) ^ 2" by simp
  moreover have "c * c \<le> c" using calculation by (simp add: mult_left_le)
  ultimately show ?thesis by (simp add: power2_eq_square algebra_simps)
qed

lemma taker_fee_bounds: "0 \<le> polymarket_taker_fee p" "polymarket_taker_fee p \<le> max 0 (min 1 p) / 64"
proof -
  let ?c = "max 0 (min 1 p)"
  have c: "0 \<le> ?c" "?c \<le> 1" by auto
  have q: "0 \<le> ?c * (1 - ?c)" "?c * (1 - ?c) \<le> 1 / 4" using quadratic_peak[OF c] by auto
  have "(?c * (1 - ?c)) ^ 2 \<le> (1 / 4) ^ 2" using q by (intro power_mono)
  then have "?c * (1 / 4) * (?c * (1 - ?c)) ^ 2 \<le> ?c * (1 / 4) * (1 / 4) ^ 2"
    using c by (intro mult_left_mono) auto
  then show "polymarket_taker_fee p \<le> ?c / 64"
    by (simp add: polymarket_taker_fee_def Let_def power2_eq_square)
  show "0 \<le> polymarket_taker_fee p" using c by (simp add: polymarket_taker_fee_def Let_def)
qed

lemma fill_fee_taker_nonneg:
  "0 \<le> sz \<Longrightarrow> 0 \<le> price \<Longrightarrow> 0 \<le> taker_bps fm \<Longrightarrow> 0 \<le> fill_fee fm price sz False neg m"
  by (simp add: fill_fee_def Let_def taker_fee_bounds)

lemma fill_fee_maker_nonneg:
  "maker_rebate_bps fm \<le> 0 \<Longrightarrow> 0 \<le> sz \<Longrightarrow> 0 \<le> price \<Longrightarrow> 0 \<le> fill_fee fm price sz True neg m"
  by (simp add: fill_fee_def Let_def)

lemma resolution_fee_nonneg: "0 \<le> resolution_fee fm g"
  by (simp add: resolution_fee_def)

lemma resolution_fee_le:
  "resolution_fee_rate fm \<le> 1 \<Longrightarrow> resolution_fee fm g \<le> max 0 g"
  by (auto simp: resolution_fee_def mult_left_le)

definition impact_curve :: "impact_model \<Rightarrow> real \<Rightarrow> real" where
  "impact_curve im r =
     (let th = max (1 / 10 ^ 6) (capacity_threshold im) in
      if r \<le> th then strength_bps im * sqrt r
      else strength_bps im * sqrt th + strength_bps im * (r - th) powr capacity_exponent im)"

lemma adverse_bps_curve:
  "0 < strength_bps im \<Longrightarrow> 0 < y \<Longrightarrow> 0 < d \<Longrightarrow>
   adverse_bps im y d = min (impact_curve im (y / d)) (max 0 (cap_bps im))"
  by (simp add: adverse_bps_def impact_curve_def Let_def max_def)

lemma impact_curve_nonneg: "0 < strength_bps im \<Longrightarrow> 0 \<le> r \<Longrightarrow> 0 \<le> impact_curve im r"
  by (simp add: impact_curve_def Let_def)

lemma impact_curve_mono:
  assumes s: "0 < strength_bps im" and e: "0 \<le> capacity_exponent im" and r: "r \<le> r'"
  shows "impact_curve im r \<le> impact_curve im r'"
proof -
  define th where "th = max (1 / 10 ^ 6) (capacity_threshold im)"
  have curve: "impact_curve im x = (if x \<le> th then strength_bps im * sqrt x
      else strength_bps im * sqrt th + strength_bps im * (x - th) powr capacity_exponent im)" for x
    by (simp add: impact_curve_def th_def Let_def)
  consider "r' \<le> th" | "r \<le> th" "th < r'" | "th < r" by linarith
  then show ?thesis
  proof cases
    case 1
    then show ?thesis using s r by (simp add: curve)
  next
    case 2
    have "strength_bps im * sqrt r \<le> strength_bps im * sqrt th" using s 2 by simp
    moreover have "0 \<le> strength_bps im * (r' - th) powr capacity_exponent im" using s by simp
    ultimately show ?thesis using 2 by (simp add: curve)
  next
    case 3
    have "(r - th) powr capacity_exponent im \<le> (r' - th) powr capacity_exponent im"
      using 3 r e by (intro powr_mono2) auto
    then show ?thesis using 3 r s by (simp add: curve)
  qed
qed

lemma adverse_bps_bounds: "0 \<le> adverse_bps im y d \<and> adverse_bps im y d \<le> max 0 (cap_bps im)"
proof (cases "0 < strength_bps im \<and> 0 < y \<and> 0 < d")
  case True
  then show ?thesis using impact_curve_nonneg[of im "y / d"] by (simp add: adverse_bps_curve)
next
  case False
  then show ?thesis by (auto simp: adverse_bps_def)
qed

section \<open>Properties\<close>

text \<open>
  The full Kelly fraction the code computes maximises the expected logarithmic growth of the
  bankroll over every stake below the whole bankroll, and every fractional Kelly stake stays
  between zero and one.
\<close>

theorem kelly_fraction_maximises_growth:
  assumes "0 < p_market" "p_market < p_estimated" "p_estimated < 1" "0 \<le> f" "f < 1"
  shows "log_growth p_estimated p_market f
       \<le> log_growth p_estimated p_market (kelly_fraction p_estimated p_market 1)
    \<and> 0 \<le> kelly_fraction p_estimated p_market c \<and> kelly_fraction p_estimated p_market c \<le> 1"
proof -
  have "0 \<le> (p_estimated - p_market) / (1 - p_market)" "(p_estimated - p_market) / (1 - p_market) \<le> 1"
    using assms by (auto simp: field_simps)
  then have "kelly_fraction p_estimated p_market 1 = (p_estimated - p_market) / (1 - p_market)"
    using assms by (simp add: kelly_fraction_def Let_def)
  then show ?thesis using kelly_optimal[of p_market p_estimated f] assms kelly_fraction_range by auto
qed

theorem kelly_fraction_maximises_growth_witness:
  "log_growth (3/5) (1/2) (1/10) \<le> log_growth (3/5) (1/2) (kelly_fraction (3/5) (1/2) 1)"
  using kelly_fraction_maximises_growth[of "1/2" "3/5" "1/10" 1] by simp

text \<open>
  A Kelly position is either refused (zero) or lies between the minimum and the maximum size,
  and it never stakes more than the bankroll.
\<close>

theorem kelly_size_range:
  assumes "0 \<le> bankroll" "min_size \<le> max_size" "0 \<le> max_size"
  shows "(kelly_size p m bankroll c min_size max_size = 0
          \<or> min_size \<le> kelly_size p m bankroll c min_size max_size)
    \<and> kelly_size p m bankroll c min_size max_size \<le> max_size
    \<and> kelly_size p m bankroll c min_size max_size \<le> bankroll"
  using assms kelly_fraction_range[of p m c] mult_left_le[of "kelly_fraction p m c" bankroll]
  by (auto simp: kelly_size_def Let_def min_def)

theorem kelly_size_range_witness: "kelly_size (3/5) (1/2) 1000 (1/4) 1 500 \<le> 500"
  using kelly_size_range[of 1000 1 500 "3/5" "1/2" "1/4"] by simp

text \<open>
  The taker fee curve charges nothing at 0 and 1, never a negative amount, and at most 1/64
  (1.5625 percent) of the price, a rate it attains at one half.
\<close>

theorem taker_fee_curve_bounds:
  "0 \<le> polymarket_taker_fee p \<and> 0 \<le> polymarket_taker_fee_pct p \<and> polymarket_taker_fee_pct p \<le> 1 / 64
   \<and> polymarket_taker_fee 0 = 0 \<and> polymarket_taker_fee 1 = 0
   \<and> polymarket_taker_fee_pct (1 / 2) = 1 / 64"
proof -
  have "polymarket_taker_fee p / p \<le> 1 / 64" if "0 < p"
  proof -
    have "polymarket_taker_fee p \<le> p / 64" using taker_fee_bounds(2)[of p] that by (auto simp: min_def split: if_splits)
    then show ?thesis using that by (simp add: divide_le_eq)
  qed
  then show ?thesis
    using taker_fee_bounds(1)[of p]
    by (simp add: polymarket_taker_fee_pct_def) (simp add: polymarket_taker_fee_def Let_def power2_eq_square)
qed

text \<open>
  Market impact is never negative and never above the cap, is switched off by a zero strength,
  and does not decrease when the same depth is asked for more shares.
\<close>

theorem adverse_bps_bounded_monotone:
  assumes "0 \<le> capacity_exponent im" "y \<le> y'"
  shows "0 \<le> adverse_bps im y d \<and> adverse_bps im y d \<le> max 0 (cap_bps im)
    \<and> adverse_bps im y d \<le> adverse_bps im y' d
    \<and> adverse_bps (im\<lparr>strength_bps := 0\<rparr>) y d = 0"
proof -
  have "adverse_bps im y d \<le> adverse_bps im y' d"
  proof (cases "0 < strength_bps im \<and> 0 < y \<and> 0 < d")
    case True
    then have "impact_curve im (y / d) \<le> impact_curve im (y' / d)"
      using assms by (intro impact_curve_mono) (auto simp: divide_right_mono)
    then show ?thesis using True assms(2) by (simp add: adverse_bps_curve min_def)
  next
    case False
    then have "adverse_bps im y d = 0" by (auto simp: adverse_bps_def)
    then show ?thesis using adverse_bps_bounds[of im y' d] by simp
  qed
  then show ?thesis using adverse_bps_bounds[of im y d] by (simp add: adverse_bps_def)
qed

theorem adverse_bps_bounded_monotone_witness:
  "adverse_bps (default_impact_model\<lparr>strength_bps := 10\<rparr>) 5 100
     \<le> adverse_bps (default_impact_model\<lparr>strength_bps := 10\<rparr>) 80 100"
  using adverse_bps_bounded_monotone[of "default_impact_model\<lparr>strength_bps := 10\<rparr>" 5 80 100]
  by (simp add: default_impact_model_def)

text \<open>
  An order that takes exactly the threshold share of the visible depth pays the strength times
  the square root of the threshold, which is the strength itself only for a threshold of one (the
  class documentation states the strength is paid at the threshold).
\<close>

theorem impact_at_threshold:
  assumes "0 < strength_bps im" "1 / 10 ^ 6 \<le> capacity_threshold im" "0 < d"
    and "strength_bps im * sqrt (capacity_threshold im) \<le> cap_bps im"
  shows "adverse_bps im (capacity_threshold im * d) d = strength_bps im * sqrt (capacity_threshold im)
    \<and> (adverse_bps im (capacity_threshold im * d) d = strength_bps im) = (capacity_threshold im = 1)"
proof -
  have th: "0 < capacity_threshold im" by (rule less_le_trans[OF _ assms(2)]) simp
  have "0 \<le> strength_bps im * sqrt (capacity_threshold im)" using assms(1) th by simp
  moreover have "impact_curve im (capacity_threshold im) = strength_bps im * sqrt (capacity_threshold im)"
    using assms(2) by (simp add: impact_curve_def Let_def max_def)
  ultimately have "adverse_bps im (capacity_threshold im * d) d = strength_bps im * sqrt (capacity_threshold im)"
    using assms th by (simp add: adverse_bps_curve)
  then show ?thesis using assms(1) by simp
qed

theorem impact_at_threshold_witness:
  "adverse_bps (default_impact_model\<lparr>strength_bps := 10, capacity_threshold := 1/4\<rparr>) 25 100 = 5"
  using impact_at_threshold[of "default_impact_model\<lparr>strength_bps := 10, capacity_threshold := 1/4\<rparr>" 100]
  by (simp add: default_impact_model_def real_sqrt_divide)

end
