(* ===== verification/Latency.thy ===== *)
theory Latency
  imports Prelude
begin

text \<open>
  The latency model of the backtester, \<open>services/backtest/latency_model.py\<close>: log-normal
  profiles, their quantiles, and the bucketed draws that multi-leg orders share.

  The random generator is a parameter: \<open>lm_gauss n\<close> is the value of the \<open>n\<close>-th call of
  \<open>rng.gauss(0.0, 1.0)\<close>, and \<open>lm_next\<close> counts the calls made so far.
\<close>

record latency_profile =
  mu_ms :: pyfloat
  sigma_ms :: pyfloat
  minimum_ms :: pyfloat
  maximum_ms :: pyfloat

definition z95 :: pyfloat where
  "z95 = 16448536269514722 / 10 ^ 16"

definition from_quantiles ::
    "pyfloat \<Rightarrow> pyfloat \<Rightarrow> pyfloat \<Rightarrow> pyfloat \<Rightarrow> py_error + latency_profile" where
  "from_quantiles p50 p95 lo hi =
     (if p50 \<le> 0 \<or> p95 \<le> 0 \<or> p95 \<le> p50 then raise (ValueError ''latency quantiles invalid'')
      else let mu = ln p50; sigma = (ln p95 - mu) / z95
        in ok \<lparr>mu_ms = mu, sigma_ms = max (1 / 10 ^ 6) sigma, minimum_ms = lo, maximum_ms = hi\<rparr>)"

definition from_observations ::
    "pyfloat list \<Rightarrow> pyfloat \<Rightarrow> pyfloat \<Rightarrow> py_error + latency_profile" where
  "from_observations samples lo hi =
     (let positive = filter (\<lambda>s. s > 0) samples in
      if length positive < 5 then raise (ValueError ''need >= 5 positive samples to fit'')
      else let logs = map ln positive;
               mu = sum_list logs / real (length logs);
               var = sum_list (map (\<lambda>x. (x - mu) ^ 2) logs) / real (max 1 (length logs - 1));
               sigma = sqrt (max var (1 / 10 ^ 9))
        in ok \<lparr>mu_ms = mu, sigma_ms = sigma, minimum_ms = lo, maximum_ms = hi\<rparr>)"

definition icdf_tail :: "pyfloat \<Rightarrow> pyfloat" where
  "icdf_tail q =
     (((((- 7784894002430293 / 10 ^ 18 * q + - 3223964580411365 / 10 ^ 16) * q
        + - 2400758277161838 / 10 ^ 15) * q + - 2549732539343734 / 10 ^ 15) * q
        + 4374664141464968 / 10 ^ 15) * q + 2938163982698783 / 10 ^ 15)
     / ((((7784695709041462 / 10 ^ 18 * q + 3224671290700398 / 10 ^ 16) * q
        + 2445134137142996 / 10 ^ 15) * q + 3754408661907416 / 10 ^ 15) * q + 1)"

definition icdf_center :: "pyfloat \<Rightarrow> pyfloat" where
  "icdf_center q =
     (let r = q * q in
      (((((- 3969683028665376 / 10 ^ 14 * r + 2209460984245205 / 10 ^ 13) * r
        + - 2759285104469687 / 10 ^ 13) * r + 1383577518672690 / 10 ^ 13) * r
        + - 3066479806614716 / 10 ^ 14) * r + 2506628277459239 / 10 ^ 15) * q
      / (((((- 5447609879822406 / 10 ^ 14 * r + 1615858368580409 / 10 ^ 13) * r
        + - 1556989798598866 / 10 ^ 13) * r + 6680131188771972 / 10 ^ 14) * r
        + - 1328068155288572 / 10 ^ 14) * r + 1))"

definition inverse_normal_cdf :: "pyfloat \<Rightarrow> pyfloat" where
  "inverse_normal_cdf p =
     (let p_low = 2425 / 100000; p_high = 1 - p_low in
      if p < p_low then icdf_tail (sqrt (- 2 * ln p))
      else if p \<le> p_high then icdf_center (p - 1 / 2)
      else - icdf_tail (sqrt (- 2 * ln (1 - p))))"

definition profile_at :: "latency_profile \<Rightarrow> pyfloat \<Rightarrow> pyfloat" where
  "profile_at pr z = clamp (exp (mu_ms pr + sigma_ms pr * z)) (minimum_ms pr) (maximum_ms pr)"

definition quantile :: "latency_profile \<Rightarrow> pyfloat \<Rightarrow> py_error + pyfloat" where
  "quantile pr q =
     (if \<not> (0 < q \<and> q < 1) then raise (ValueError ''q must be in (0, 1)'')
      else ok (profile_at pr (inverse_normal_cdf q)))"

datatype latency_kind = SubmitDraw | CancelDraw

record latency_model =
  lm_submit :: latency_profile
  lm_cancel :: latency_profile
  lm_gauss :: "nat \<Rightarrow> pyfloat"
  lm_next :: nat
  correlation_window_ms :: pyfloat
  bucket_cache :: "(latency_kind \<times> int, pyfloat) dict"
  bucket_order :: "(latency_kind \<times> int) list"

definition profile_sample :: "latency_profile \<Rightarrow> latency_model \<Rightarrow> pyfloat \<times> latency_model" where
  "profile_sample pr lm = (profile_at pr (lm_gauss lm (lm_next lm)), lm\<lparr>lm_next := Suc (lm_next lm)\<rparr>)"

definition bucket_id :: "latency_model \<Rightarrow> timestamp option \<Rightarrow> int option" where
  "bucket_id lm ts =
     (case ts of
        None \<Rightarrow> None
      | Some t \<Rightarrow> if correlation_window_ms lm \<le> 0 then None
          else Some \<lfloor>(of_int t / 1000000 * 1000) / correlation_window_ms lm\<rfloor>)"

definition correlated_sample ::
    "latency_kind \<Rightarrow> latency_profile \<Rightarrow> timestamp option \<Rightarrow> latency_model \<Rightarrow> pyfloat \<times> latency_model" where
  "correlated_sample kind pr ts lm =
     (case bucket_id lm ts of
        None \<Rightarrow> profile_sample pr lm
      | Some bucket \<Rightarrow>
          (case dict_get (bucket_cache lm) (kind, bucket) of
             Some cached \<Rightarrow> (cached, lm)
           | None \<Rightarrow>
               let (drawn, lm1) = profile_sample pr lm;
                   cache = dict_set (bucket_cache lm1) (kind, bucket) drawn;
                   order = bucket_order lm1 @ [(kind, bucket)]
               in if length order > 1024
                  then (drawn, lm1\<lparr>bucket_cache := dict_pop cache (hd order), bucket_order := tl order\<rparr>)
                  else (drawn, lm1\<lparr>bucket_cache := cache, bucket_order := order\<rparr>)))"

definition sample_submit_ms :: "timestamp option \<Rightarrow> latency_model \<Rightarrow> pyfloat \<times> latency_model" where
  "sample_submit_ms ts lm =
     (if ts = None then profile_sample (lm_submit lm) lm
      else correlated_sample SubmitDraw (lm_submit lm) ts lm)"

definition sample_cancel_ms :: "timestamp option \<Rightarrow> latency_model \<Rightarrow> pyfloat \<times> latency_model" where
  "sample_cancel_ms ts lm =
     (if ts = None then profile_sample (lm_cancel lm) lm
      else correlated_sample CancelDraw (lm_cancel lm) ts lm)"

text \<open>\<open>LatencyModel.deterministic\<close>: constant latencies for unit tests.\<close>

definition point_profile :: "pyfloat \<Rightarrow> latency_profile" where
  "point_profile ms = \<lparr>mu_ms = ln ms, sigma_ms = 1 / 10 ^ 9, minimum_ms = 1, maximum_ms = 10000\<rparr>"

definition deterministic :: "(nat \<Rightarrow> pyfloat) \<Rightarrow> pyfloat \<Rightarrow> pyfloat \<Rightarrow> latency_model" where
  "deterministic gauss submit_ms cancel_ms =
     \<lparr>lm_submit = point_profile submit_ms, lm_cancel = point_profile cancel_ms,
      lm_gauss = gauss, lm_next = 0, correlation_window_ms = 5, bucket_cache = [], bucket_order = []\<rparr>"

section \<open>Lemmas\<close>

definition profile_wf :: "latency_profile \<Rightarrow> bool" where
  "profile_wf pr \<longleftrightarrow> 0 \<le> minimum_ms pr \<and> minimum_ms pr \<le> maximum_ms pr"

text \<open>The cache holds exactly the buckets of the eviction list, which never passes its bound.\<close>

definition latency_inv :: "latency_model \<Rightarrow> bool" where
  "latency_inv lm \<longleftrightarrow>
     profile_wf (lm_submit lm) \<and> profile_wf (lm_cancel lm) \<and>
     length (bucket_order lm) \<le> 1024 \<and> distinct (bucket_order lm) \<and>
     dict_wf (bucket_cache lm) \<and>
     (\<forall>k. dict_get (bucket_cache lm) k = None \<longleftrightarrow> k \<notin> set (bucket_order lm)) \<and>
     (\<forall>kind b v. dict_get (bucket_cache lm) (kind, b) = Some v \<longrightarrow> 0 \<le> v)"

lemma profile_at_range:
  "minimum_ms pr \<le> maximum_ms pr \<Longrightarrow> minimum_ms pr \<le> profile_at pr z \<and> profile_at pr z \<le> maximum_ms pr"
  by (simp add: profile_at_def clamp_bounds)

lemma profile_at_nonneg: "profile_wf pr \<Longrightarrow> 0 \<le> profile_at pr z"
  using profile_at_range[of pr z] by (auto simp: profile_wf_def)

lemma correlated_sample_hit:
  "bucket_id lm ts = Some b \<Longrightarrow> dict_get (bucket_cache lm) (kind, b) = Some v \<Longrightarrow>
   correlated_sample kind pr ts lm = (v, lm)"
  by (simp add: correlated_sample_def)

lemma correlated_sample_miss:
  fixes pr :: latency_profile
  assumes "bucket_id lm ts = Some b" "dict_get (bucket_cache lm) (kind, b) = None"
  defines "d \<equiv> profile_at pr (lm_gauss lm (lm_next lm))"
  shows "correlated_sample kind pr ts lm = (d,
     if length (bucket_order lm) < 1024
     then lm\<lparr>lm_next := Suc (lm_next lm), bucket_cache := dict_set (bucket_cache lm) (kind, b) d,
             bucket_order := bucket_order lm @ [(kind, b)]\<rparr>
     else lm\<lparr>lm_next := Suc (lm_next lm),
             bucket_cache := dict_pop (dict_set (bucket_cache lm) (kind, b) d) (hd (bucket_order lm)),
             bucket_order := tl (bucket_order lm) @ [(kind, b)]\<rparr>)"
  using assms by (cases "bucket_order lm") (simp_all add: correlated_sample_def profile_sample_def)

lemma latency_inv_put:
  assumes "latency_inv lm" "0 \<le> d" "key \<notin> set (bucket_order lm)" "length (bucket_order lm) < 1024"
  shows "latency_inv (lm\<lparr>lm_next := n, bucket_cache := dict_set (bucket_cache lm) key d,
             bucket_order := bucket_order lm @ [key]\<rparr>)"
  using assms by (auto simp: latency_inv_def)

lemma latency_inv_evict:
  assumes "latency_inv lm" "0 \<le> d" "key \<notin> set (bucket_order lm)" "\<not> length (bucket_order lm) < 1024"
  shows "latency_inv (lm\<lparr>lm_next := n,
             bucket_cache := dict_pop (dict_set (bucket_cache lm) key d) (hd (bucket_order lm)),
             bucket_order := tl (bucket_order lm) @ [key]\<rparr>)"
  using assms by (cases "bucket_order lm") (auto simp: latency_inv_def)

lemma correlated_sample_inv:
  assumes inv: "latency_inv lm" and pr: "profile_wf pr"
  shows "latency_inv (snd (correlated_sample kind pr ts lm)) \<and> 0 \<le> fst (correlated_sample kind pr ts lm)"
proof (cases "bucket_id lm ts")
  case None
  then show ?thesis using inv pr
    by (simp add: correlated_sample_def profile_sample_def profile_at_nonneg latency_inv_def)
next
  case (Some b)
  show ?thesis
  proof (cases "dict_get (bucket_cache lm) (kind, b)")
    case (Some v)
    have "0 \<le> v" using inv Some by (auto simp: latency_inv_def)
    then show ?thesis using inv correlated_sample_hit[OF \<open>bucket_id lm ts = Some b\<close> Some] by simp
  next
    case None
    then have "(kind, b) \<notin> set (bucket_order lm)" using inv by (auto simp: latency_inv_def)
    then show ?thesis
      using correlated_sample_miss[OF \<open>bucket_id lm ts = Some b\<close> None, of pr]
        latency_inv_put[OF inv profile_at_nonneg[OF pr]] latency_inv_evict[OF inv profile_at_nonneg[OF pr]]
        profile_at_nonneg[OF pr] by simp
  qed
qed

lemma sample_submit_inv:
  "latency_inv lm \<Longrightarrow> latency_inv (snd (sample_submit_ms ts lm)) \<and> 0 \<le> fst (sample_submit_ms ts lm)"
proof -
  assume inv: "latency_inv lm"
  then have "profile_wf (lm_submit lm)" by (simp add: latency_inv_def)
  then show ?thesis
    using inv correlated_sample_inv[OF inv, of "lm_submit lm" SubmitDraw ts]
    by (cases "ts = None")
       (simp_all add: sample_submit_ms_def profile_sample_def profile_at_nonneg latency_inv_def)
qed

lemma sample_cancel_inv:
  "latency_inv lm \<Longrightarrow> latency_inv (snd (sample_cancel_ms ts lm)) \<and> 0 \<le> fst (sample_cancel_ms ts lm)"
proof -
  assume inv: "latency_inv lm"
  then have "profile_wf (lm_cancel lm)" by (simp add: latency_inv_def)
  then show ?thesis
    using inv correlated_sample_inv[OF inv, of "lm_cancel lm" CancelDraw ts]
    by (cases "ts = None")
       (simp_all add: sample_cancel_ms_def profile_sample_def profile_at_nonneg latency_inv_def)
qed

lemma deterministic_inv: "latency_inv (deterministic g s c)"
  by (simp add: deterministic_def latency_inv_def profile_wf_def point_profile_def)

lemma correlated_sample_caches:
  assumes b: "bucket_id lm ts = Some b" and inv: "latency_inv lm"
  shows "dict_get (bucket_cache (snd (correlated_sample kind pr ts lm))) (kind, b)
       = Some (fst (correlated_sample kind pr ts lm))"
proof (cases "dict_get (bucket_cache lm) (kind, b)")
  case (Some v)
  then show ?thesis using correlated_sample_hit[OF b Some] by simp
next
  case None
  then have "(kind, b) \<notin> set (bucket_order lm)" using inv by (auto simp: latency_inv_def)
  then have "hd (bucket_order lm) \<noteq> (kind, b)" if "\<not> length (bucket_order lm) < 1024"
    using that by (cases "bucket_order lm") auto
  then show ?thesis using correlated_sample_miss[OF b None, of pr] by auto
qed

lemma correlated_sample_frame:
  "correlation_window_ms (snd (correlated_sample kind pr ts lm)) = correlation_window_ms lm"
  by (auto simp: correlated_sample_def profile_sample_def Let_def split: option.splits)

lemma bucket_id_cong:
  "correlation_window_ms lm = correlation_window_ms lm' \<Longrightarrow> bucket_id lm t = bucket_id lm' t"
  by (cases t) (simp_all add: bucket_id_def)

section \<open>Properties\<close>

text \<open>
  Legs sent in the same latency window share one draw: after any submit sample, a second
  sample whose time falls in the same bucket returns the same value and draws nothing; every
  sample is non-negative and the bucket cache never holds more than 1024 entries.
\<close>

theorem same_bucket_shares_draw:
  assumes inv: "latency_inv lm" and b: "bucket_id lm (Some t) = Some b" "bucket_id lm (Some t') = Some b"
    and s: "sample_submit_ms (Some t) lm = (v, lm')"
  shows "sample_submit_ms (Some t') lm' = (v, lm') \<and> 0 \<le> v \<and> length (bucket_order lm') \<le> 1024"
proof -
  have cs: "correlated_sample SubmitDraw (lm_submit lm) (Some t) lm = (v, lm')"
    using s by (simp add: sample_submit_ms_def)
  have hit: "dict_get (bucket_cache lm') (SubmitDraw, b) = Some v"
    using correlated_sample_caches[OF b(1) inv, of SubmitDraw "lm_submit lm"] cs by simp
  have "correlation_window_ms lm' = correlation_window_ms lm"
    using correlated_sample_frame[of SubmitDraw "lm_submit lm" "Some t" lm] cs by simp
  then have "bucket_id lm' (Some t') = Some b" using b(2) bucket_id_cong by metis
  then have "sample_submit_ms (Some t') lm' = (v, lm')"
    using hit by (simp add: sample_submit_ms_def correlated_sample_def)
  moreover have "latency_inv lm'" "0 \<le> v" using sample_submit_inv[OF inv, of "Some t"] s by simp_all
  ultimately show ?thesis by (simp add: latency_inv_def)
qed

theorem same_bucket_shares_draw_witness:
  "sample_submit_ms (Some 1001) (snd (sample_submit_ms (Some 0) (deterministic (\<lambda>_. 0) 350 200)))
     = sample_submit_ms (Some 0) (deterministic (\<lambda>_. 0) 350 200)"
proof -
  let ?lm = "deterministic (\<lambda>_. 0) 350 200"
  have "bucket_id ?lm (Some 0) = Some 0" by (simp add: bucket_id_def deterministic_def)
  moreover have "bucket_id ?lm (Some 1001) = Some 0"
    by (simp add: bucket_id_def deterministic_def floor_eq_iff)
  ultimately show ?thesis
    using same_bucket_shares_draw[OF deterministic_inv, of "\<lambda>_. 0" 350 200 0 0 1001
        "fst (sample_submit_ms (Some 0) ?lm)" "snd (sample_submit_ms (Some 0) ?lm)"] by simp
qed

text \<open>
  A profile solved from a median and a 95th percentile reproduces them: the log-normal value
  at the normal deviate 0 is the median, and at 1.645 the 95th percentile (when they are far enough
  apart for the sigma floor not to bind); bad quantiles are refused.
\<close>

theorem from_quantiles_roundtrip:
  assumes "0 < p50" "ln p50 + z95 / 10 ^ 6 \<le> ln p95" "0 < p95" "lo \<le> p50" "p95 \<le> hi"
  shows "(\<exists>pr. from_quantiles p50 p95 lo hi = Inr pr \<and> profile_at pr 0 = p50 \<and> profile_at pr z95 = p95)
    \<and> (\<exists>e. from_quantiles p95 p50 lo hi = Inl e)"
proof -
  have z: "0 < z95" by (simp add: z95_def)
  then have "0 < z95 / 10 ^ 6" by simp
  then have "ln p50 < ln p95" using assms(2) by linarith
  then have lt: "p50 < p95" using assms by simp
  have sig: "max (1 / 10 ^ 6) ((ln p95 - ln p50) / z95) = (ln p95 - ln p50) / z95"
    using assms(2) z by (simp add: max_def field_simps)
  have "from_quantiles p50 p95 lo hi =
      Inr \<lparr>mu_ms = ln p50, sigma_ms = (ln p95 - ln p50) / z95, minimum_ms = lo, maximum_ms = hi\<rparr>"
    using assms lt sig by (simp add: from_quantiles_def Let_def)
  moreover have "clamp p50 lo hi = p50" "clamp p95 lo hi = p95" using assms lt by (auto simp: clamp_def)
  ultimately show ?thesis
    using assms lt z by (simp add: profile_at_def) (simp add: from_quantiles_def)
qed

theorem from_quantiles_roundtrip_witness:
  "\<exists>pr. from_quantiles 1 (exp 1) 1 10000 = Inr pr \<and> profile_at pr 0 = 1 \<and> profile_at pr z95 = exp 1"
proof -
  have "exp 1 \<le> (10000 :: real)" using exp_le by linarith
  then show ?thesis using from_quantiles_roundtrip[of 1 "exp 1" 1 10000] by (simp add: z95_def)
qed

end
