(* ===== verification/Orders.thy ===== *)
theory Orders
  imports Venue Fees Latency
begin

text \<open>
  Orders, fills and the residual book of \<open>services/backtest/matching_engine.py\<close>: the data
  classes, the residual book's accounting of consumed liquidity, the taker walk
  (\<open>_consume_levels\<close>), the fill-probability cap and the resting fill. These are the parts of
  the engine that touch one order and one book; \<open>Matching\<close> composes them.

  The survival model behind \<open>fill_model_snapshot\<close> is an argument (\<open>fill_model\<close>): the
  feature vector it builds for an order and the probability it evaluates.
\<close>

section \<open>Data\<close>

datatype order_state = PENDING | WORKING | PARTIAL | FILLED | CANCELLED | REJECTED

datatype fill_note = NBool bool | NNum pyfloat | NStr "string option"

record fill =
  f_order_id :: string
  f_token :: string
  f_side :: string
  f_price :: pyfloat
  f_size :: pyfloat
  f_fee_usd :: pyfloat
  f_occurred_at :: timestamp
  f_index :: nat
  f_sequence :: "int option"
  f_notes :: "(string, fill_note) dict"

record order =
  o_id :: string
  o_token :: string
  o_side :: string
  o_price :: pyfloat
  o_size :: pyfloat
  o_tif :: string
  o_post_only :: bool
  o_submitted_at :: timestamp
  o_trader :: "string option"
  o_slug :: "string option"
  o_meta :: "(string, fill_note) dict"
  o_state :: order_state
  o_received_at :: "timestamp option"
  o_filled :: pyfloat
  o_avg_price :: pyfloat
  o_cancel_pending_at :: "timestamp option"
  o_cancelled_at :: "timestamp option"
  o_reject_reason :: "reject_reason option"
  o_fills :: "fill list"
  o_queue_ahead :: "pyfloat option"
  o_covariates :: "(string, pyfloat) dict option"
  o_fill_probability :: pyfloat

text \<open>The constructor, with the defaults of the data class.\<close>

definition new_order ::
    "string \<Rightarrow> string \<Rightarrow> string \<Rightarrow> pyfloat \<Rightarrow> pyfloat \<Rightarrow> string \<Rightarrow> bool \<Rightarrow> timestamp \<Rightarrow> order" where
  "new_order oid token side price sz tif post_only submitted_at =
     \<lparr>o_id = oid, o_token = token, o_side = side, o_price = price, o_size = sz, o_tif = tif,
      o_post_only = post_only, o_submitted_at = submitted_at, o_trader = None, o_slug = None, o_meta = [],
      o_state = PENDING, o_received_at = None, o_filled = 0, o_avg_price = 0, o_cancel_pending_at = None,
      o_cancelled_at = None, o_reject_reason = None, o_fills = [], o_queue_ahead = None,
      o_covariates = None, o_fill_probability = 0\<rparr>"

definition remaining_size :: "order \<Rightarrow> pyfloat" where
  "remaining_size o' = max 0 (o_size o' - o_filled o')"

definition is_terminal :: "order \<Rightarrow> bool" where
  "is_terminal o' = (o_state o' \<in> {FILLED, CANCELLED, REJECTED})"

definition filled_notional_usd :: "order \<Rightarrow> pyfloat" where
  "filled_notional_usd o' = o_filled o' * o_avg_price o'"

definition notional_usd :: "fill \<Rightarrow> pyfloat" where
  "notional_usd f = f_price f * f_size f"

record residual_book =
  rb_snapshot :: book_snapshot
  consumed_bids :: "(pyfloat, pyfloat) dict"
  consumed_asks :: "(pyfloat, pyfloat) dict"

definition fresh_book :: "book_snapshot \<Rightarrow> residual_book" where
  "fresh_book s = \<lparr>rb_snapshot = s, consumed_bids = [], consumed_asks = []\<rparr>"

definition remaining_levels :: "(pyfloat, pyfloat) dict \<Rightarrow> price_level list \<Rightarrow> (pyfloat \<times> pyfloat) list" where
  "remaining_levels consumed ls =
     map (\<lambda>l. (lvl_price l, max 0 (lvl_size l - dict_get_or consumed (lvl_price l) 0))) ls"

definition remaining_bids :: "residual_book \<Rightarrow> (pyfloat \<times> pyfloat) list" where
  "remaining_bids rb = remaining_levels (consumed_bids rb) (bids (rb_snapshot rb))"

definition remaining_asks :: "residual_book \<Rightarrow> (pyfloat \<times> pyfloat) list" where
  "remaining_asks rb = remaining_levels (consumed_asks rb) (asks (rb_snapshot rb))"

definition rb_consume :: "residual_book \<Rightarrow> string \<Rightarrow> pyfloat \<Rightarrow> pyfloat \<Rightarrow> residual_book" where
  "rb_consume rb side_taker price sz =
     (let sd = py_upper side_taker in
      if sd = ''SELL'' then
        rb\<lparr>consumed_bids := dict_set (consumed_bids rb) price (dict_get_or (consumed_bids rb) price 0 + sz)\<rparr>
      else if sd = ''BUY'' then
        rb\<lparr>consumed_asks := dict_set (consumed_asks rb) price (dict_get_or (consumed_asks rb) price 0 + sz)\<rparr>
      else rb)"

definition depth_at :: "residual_book \<Rightarrow> string \<Rightarrow> pyfloat \<Rightarrow> pyfloat" where
  "depth_at rb side price =
     (let levels = (if py_upper side = ''BUY'' then bids (rb_snapshot rb) else asks (rb_snapshot rb))
      in case find (\<lambda>l. \<bar>lvl_price l - price\<bar> < eps12) levels of None \<Rightarrow> 0 | Some l \<Rightarrow> lvl_size l)"

record fill_model =
  fm_features :: "order \<Rightarrow> book_snapshot \<Rightarrow> pyfloat \<Rightarrow> (string, pyfloat) dict"
  fm_evaluate :: "(string, pyfloat) dict \<Rightarrow> pyfloat \<Rightarrow> pyfloat"
  fm_family :: "string option"
  fm_strata :: "string option"

record match_config =
  mc_rules :: order_rule
  mc_fees :: fee_model
  mc_impact :: impact_model
  mc_fill_model :: "fill_model option"
  mc_trade_fraction :: pyfloat

section \<open>Taking liquidity\<close>

text \<open>A level the limit of an order on side \<open>sd\<close> cannot reach.\<close>

definition level_out :: "string \<Rightarrow> pyfloat \<Rightarrow> pyfloat \<Rightarrow> bool" where
  "level_out sd limit p = ((sd = ''SELL'' \<and> p + eps12 < limit) \<or> (sd = ''BUY'' \<and> p - eps12 > limit))"

definition available_for_taker :: "residual_book \<Rightarrow> string \<Rightarrow> pyfloat \<Rightarrow> pyfloat" where
  "available_for_taker rb side price =
     (let sd = py_upper side in
      if sd = ''SELL'' then
        sum_list (map snd (filter (\<lambda>(p, q). p \<ge> price - eps12) (remaining_bids rb)))
      else if sd = ''BUY'' then
        sum_list (map snd (filter (\<lambda>(p, q). p \<le> price + eps12) (remaining_asks rb)))
      else 0)"

definition visible_depth :: "string \<Rightarrow> pyfloat \<Rightarrow> (pyfloat \<times> pyfloat) list \<Rightarrow> pyfloat" where
  "visible_depth sd limit levels =
     sum_list (map snd (filter (\<lambda>(p, q). 0 < q \<and> \<not> level_out sd limit p) levels))"

definition adjusted_price :: "string \<Rightarrow> pyfloat \<Rightarrow> pyfloat \<Rightarrow> pyfloat" where
  "adjusted_price sd impact_factor price =
     (if impact_factor > 0 then
        if sd = ''BUY'' then min (9999 / 10000) (price * (1 + impact_factor))
        else max (1 / 10000) (price * (1 - impact_factor))
      else price)"

text \<open>Booking a fill on its order: the size-weighted average price and the filled size.\<close>

definition book_fill :: "order \<Rightarrow> fill \<Rightarrow> order" where
  "book_fill o' f =
     (let new_filled = o_filled o' + f_size f in
      o'\<lparr>o_fills := o_fills o' @ [f],
         o_avg_price := (if new_filled > 0
            then (o_avg_price o' * o_filled o' + f_price f * f_size f) / new_filled else f_price f),
         o_filled := new_filled\<rparr>)"

definition taker_fill ::
    "match_config \<Rightarrow> timestamp option \<Rightarrow> pyfloat \<Rightarrow> string \<Rightarrow> order \<Rightarrow> residual_book \<Rightarrow> pyfloat \<Rightarrow> pyfloat \<Rightarrow> nat \<Rightarrow> fill" where
  "taker_fill cfg now impact_bps sd o' rb price tk idx =
     (let ap = adjusted_price sd (impact_bps / 10000) price in
      \<lparr>f_order_id = o_id o', f_token = o_token o', f_side = sd, f_price = ap, f_size = tk,
       f_fee_usd = fill_fee (mc_fees cfg) ap tk False False (mid (rb_snapshot rb)),
       f_occurred_at = (case o_received_at o' of Some t \<Rightarrow> t
          | None \<Rightarrow> (case now of Some t \<Rightarrow> t | None \<Rightarrow> o_submitted_at o')),
       f_index = idx, f_sequence = s_sequence (rb_snapshot rb),
       f_notes = (if impact_bps > 0 then [(''impact_bps'', NNum impact_bps)] else [])\<rparr>)"

fun consume_loop ::
    "match_config \<Rightarrow> timestamp option \<Rightarrow> pyfloat \<Rightarrow> string \<Rightarrow> (pyfloat \<times> pyfloat) list \<Rightarrow> pyfloat
     \<Rightarrow> order \<Rightarrow> residual_book \<Rightarrow> nat \<Rightarrow> order \<times> residual_book \<times> fill list" where
  "consume_loop cfg now impact_bps sd [] remaining o' rb idx = (o', rb, [])"
| "consume_loop cfg now impact_bps sd ((price, qty) # ls) remaining o' rb idx =
     (if remaining \<le> 0 then (o', rb, [])
      else if qty \<le> 0 then consume_loop cfg now impact_bps sd ls remaining o' rb idx
      else if level_out sd (o_price o') price then (o', rb, [])
      else let tk = min qty remaining;
               f = taker_fill cfg now impact_bps sd o' rb price tk idx;
               (o2, rb2, fs) = consume_loop cfg now impact_bps sd ls (remaining - tk)
                  (book_fill o' f) (rb_consume rb sd price tk) (Suc idx)
           in (o2, rb2, f # fs))"

definition consume_levels ::
    "match_config \<Rightarrow> timestamp option \<Rightarrow> order \<Rightarrow> residual_book \<Rightarrow> nat \<Rightarrow> order \<times> residual_book \<times> fill list" where
  "consume_levels cfg now o' rb idx =
     (let sd = py_upper (o_side o');
          levels = (if sd = ''SELL'' then remaining_bids rb else remaining_asks rb);
          remaining = remaining_size o'
      in if remaining \<le> 0 then (o', rb, [])
         else let impact_bps = adverse_bps (mc_impact cfg) (remaining_size o')
                                 (visible_depth sd (o_price o') levels)
           in consume_loop cfg now impact_bps sd levels remaining o' rb idx)"

section \<open>Resting fills\<close>

definition fill_probability_capped_take ::
    "match_config \<Rightarrow> order \<Rightarrow> book_snapshot \<Rightarrow> pyfloat \<Rightarrow> pyfloat \<times> (string, fill_note) dict \<times> order" where
  "fill_probability_capped_take cfg o' snap candidate_size =
     (case (mc_fill_model cfg, o_covariates o') of
        (Some fm, Some cov) \<Rightarrow>
          if cov = [] \<or> candidate_size \<le> 0 then (candidate_size, [], o')
          else let admitted_at = (case o_received_at o' of Some t \<Rightarrow> t | None \<Rightarrow> o_submitted_at o');
                   horizon = max 0 (total_seconds (s_observed_at snap - admitted_at));
                   probability = max 0 (min 1 (max (o_fill_probability o') (fm_evaluate fm cov horizon)));
                   cap = o_size o' * probability;
                   fillable = max 0 (cap - o_filled o');
                   tk = min candidate_size fillable
            in (tk,
                [(''fill_probability'', NNum probability),
                 (''fill_probability_horizon_seconds'', NNum horizon),
                 (''fill_probability_model_family'', NStr (fm_family fm)),
                 (''fill_probability_model_strata'', NStr (fm_strata fm))],
                o'\<lparr>o_fill_probability := probability\<rparr>)
      | _ \<Rightarrow> (candidate_size, [], o'))"

definition dict_update :: "('k, 'v) dict \<Rightarrow> ('k, 'v) dict \<Rightarrow> ('k, 'v) dict" where
  "dict_update d e = foldl (\<lambda>t (k, v). dict_set t k v) d e"

definition resting_fill ::
    "match_config \<Rightarrow> order \<Rightarrow> book_snapshot \<Rightarrow> pyfloat \<Rightarrow> pyfloat \<Rightarrow> (string, fill_note) dict \<Rightarrow> nat \<Rightarrow> fill" where
  "resting_fill cfg o' snap price sz notes idx =
     \<lparr>f_order_id = o_id o', f_token = o_token o', f_side = py_upper (o_side o'), f_price = price, f_size = sz,
      f_fee_usd = fill_fee (mc_fees cfg) price sz True False (mid snap),
      f_occurred_at = s_observed_at snap, f_index = idx, f_sequence = s_sequence snap,
      f_notes = dict_update [(''maker'', NBool True)] notes\<rparr>"

text \<open>
  The liquidity a resting fill uses is recorded at the order's own price, as
  \<open>_record_resting_fill\<close> does, not at the level that supplied it.
\<close>

definition record_resting_fill ::
    "match_config \<Rightarrow> order \<Rightarrow> residual_book \<Rightarrow> book_snapshot \<Rightarrow> pyfloat \<Rightarrow> pyfloat \<Rightarrow> (string, fill_note) dict \<Rightarrow> nat
     \<Rightarrow> order \<times> residual_book \<times> fill" where
  "record_resting_fill cfg o' rb snap sz price notes idx =
     (let f = resting_fill cfg o' snap price sz notes idx;
          consume_side = (if py_upper (o_side o') = ''SELL'' then ''SELL'' else ''BUY'')
      in (book_fill o' f, rb_consume rb consume_side price sz, f))"

fun resting_loop ::
    "match_config \<Rightarrow> string \<Rightarrow> book_snapshot \<Rightarrow> (pyfloat \<times> pyfloat) list \<Rightarrow> pyfloat
     \<Rightarrow> order \<Rightarrow> residual_book \<Rightarrow> nat \<Rightarrow> order \<times> residual_book \<times> fill list" where
  "resting_loop cfg sd snap [] remaining o' rb idx = (o', rb, [])"
| "resting_loop cfg sd snap ((price, qty) # ls) remaining o' rb idx =
     (if remaining \<le> 0 then (o', rb, [])
      else if level_out sd (o_price o') price then (o', rb, [])
      else let (tk, notes, o1) = fill_probability_capped_take cfg o' snap (min qty remaining) in
        if tk \<le> 0 then resting_loop cfg sd snap ls remaining o1 rb idx
        else let (o2, rb2, f) = record_resting_fill cfg o1 rb snap tk (o_price o1) notes idx;
                 (o3, rb3, fs) = resting_loop cfg sd snap ls (remaining - tk) o2 rb2 (Suc idx)
             in (o3, rb3, f # fs))"

definition match_resting ::
    "match_config \<Rightarrow> order \<Rightarrow> residual_book \<Rightarrow> nat \<Rightarrow> order \<times> residual_book \<times> fill list" where
  "match_resting cfg o' rb idx =
     (let sd = py_upper (o_side o'); remaining = remaining_size o' in
      if remaining \<le> 0 then (o', rb, [])
      else if sd = ''SELL'' then resting_loop cfg sd (rb_snapshot rb) (remaining_bids rb) remaining o' rb idx
      else if sd = ''BUY'' then resting_loop cfg sd (rb_snapshot rb) (remaining_asks rb) remaining o' rb idx
      else (o', rb, []))"

section \<open>Queue position\<close>

definition snapshot_queue_position :: "match_config \<Rightarrow> latency_profile \<Rightarrow> order \<Rightarrow> residual_book \<Rightarrow> order" where
  "snapshot_queue_position cfg submit_profile o' rb =
     (let snap = rb_snapshot rb;
          qa = compute_queue_ahead_shares (bids snap) (asks snap) (o_side o') (o_price o') (65 / 100) 1;
          o1 = o'\<lparr>o_queue_ahead := Some qa, o_fill_probability := 0\<rparr>
      in case mc_fill_model cfg of
           None \<Rightarrow> o1\<lparr>o_covariates := None\<rparr>
         | Some fm \<Rightarrow>
             let p95 = profile_at submit_profile (inverse_normal_cdf (95 / 100));
                 features = fm_features fm o1 snap p95
             in o1\<lparr>o_covariates := Some (dict_set features ''queue_ahead_shares'' qa)\<rparr>)"

definition eligible_depth :: "bool \<Rightarrow> pyfloat \<Rightarrow> (pyfloat \<times> pyfloat) list \<Rightarrow> pyfloat" where
  "eligible_depth is_buy limit ps =
     sum_list (map (\<lambda>(p, q). max 0 q)
       (filter (\<lambda>(p, q). \<not> (if is_buy then p + eps12 < limit else p - eps12 > limit)) ps))"

definition level_pairs :: "price_level list \<Rightarrow> (pyfloat \<times> pyfloat) list" where
  "level_pairs ls = map (\<lambda>l. (lvl_price l, lvl_size l)) ls"

definition advance_queue :: "pyfloat \<Rightarrow> residual_book \<Rightarrow> residual_book \<Rightarrow> order \<Rightarrow> order" where
  "advance_queue trade_fraction old_book new_book o' =
     (if is_terminal o' then o'
      else case o_queue_ahead o' of
        None \<Rightarrow> o'
      | Some qa \<Rightarrow>
          if qa \<le> 0 then o'
          else let is_buy = (py_upper (o_side o') = ''BUY'');
                   old_levels = (if is_buy then bids (rb_snapshot old_book) else asks (rb_snapshot old_book));
                   new_levels = (if is_buy then bids (rb_snapshot new_book) else asks (rb_snapshot new_book));
                   consumed = (if is_buy then consumed_bids old_book else consumed_asks old_book);
                   external = max 0 (eligible_depth is_buy (o_price o') (level_pairs old_levels)
                                     - eligible_depth is_buy (o_price o') (level_pairs new_levels)
                                     - eligible_depth is_buy (o_price o') consumed)
                              * trade_fraction
               in o'\<lparr>o_queue_ahead := Some (max 0 (qa - external))\<rparr>)"

section \<open>What booking a fill keeps\<close>

text \<open>The fields of an order that no fill changes.\<close>

definition order_core ::
    "order \<Rightarrow> (string \<times> string \<times> string \<times> pyfloat \<times> pyfloat \<times> string \<times> bool) \<times>
       (timestamp \<times> string option \<times> order_state \<times> timestamp option)" where
  "order_core o' =
     ((o_id o', o_token o', o_side o', o_price o', o_size o', o_tif o', o_post_only o'),
      (o_submitted_at o', o_slug o', o_state o', o_received_at o'))"

text \<open>
  The ledger invariant of one order: the filled size is the sum of its fills and never exceeds the
  order, the average price is the size-weighted one, and its fills are its own and numbered in order.
\<close>

definition order_ok :: "order \<Rightarrow> bool" where
  "order_ok o' \<longleftrightarrow>
     0 \<le> o_filled o' \<and> o_filled o' \<le> max 0 (o_size o') \<and>
     o_filled o' = sum_list (map f_size (o_fills o')) \<and>
     o_avg_price o' * o_filled o' = sum_list (map notional_usd (o_fills o')) \<and>
     list_all (\<lambda>f. 0 < f_size f \<and> f_order_id f = o_id o' \<and> f_token f = o_token o') (o_fills o') \<and>
     map f_index (o_fills o') = [0..<length (o_fills o')]"

lemma order_okD:
  assumes "order_ok o'"
  shows "0 \<le> o_filled o'" "o_filled o' \<le> max 0 (o_size o')" "o_filled o' = sum_list (map f_size (o_fills o'))"
    "o_avg_price o' * o_filled o' = sum_list (map notional_usd (o_fills o'))"
    "list_all (\<lambda>f. 0 < f_size f \<and> f_order_id f = o_id o' \<and> f_token f = o_token o') (o_fills o')"
    "map f_index (o_fills o') = [0..<length (o_fills o')]"
  using assms unfolding order_ok_def by blast+

lemma order_core_fields:
  assumes "order_core a = order_core b"
  shows "o_id a = o_id b" "o_token a = o_token b" "o_side a = o_side b" "o_price a = o_price b"
    "o_size a = o_size b" "o_tif a = o_tif b" "o_state a = o_state b" "o_received_at a = o_received_at b"
    "o_slug a = o_slug b" "o_post_only a = o_post_only b"
  using assms by (simp_all add: order_core_def)

lemma is_terminal_core: "order_core a = order_core b \<Longrightarrow> is_terminal a = is_terminal b"
  using order_core_fields(7)[of a b] by (simp add: is_terminal_def)

lemma book_fill_frame [simp]:
  "order_core (book_fill o' f) = order_core o'" "o_fills (book_fill o' f) = o_fills o' @ [f]"
  "o_filled (book_fill o' f) = o_filled o' + f_size f" "o_covariates (book_fill o' f) = o_covariates o'"
  "o_size (book_fill o' f) = o_size o'" "o_price (book_fill o' f) = o_price o'"
  by (simp_all add: book_fill_def order_core_def Let_def)

lemma book_fill_ok:
  assumes ok: "order_ok o'" and sz: "0 < f_size f" "f_size f \<le> o_size o' - o_filled o'"
    and ids: "f_order_id f = o_id o'" "f_token f = o_token o'" "f_index f = length (o_fills o')"
  shows "order_ok (book_fill o' f)"
proof -
  have pos: "0 < o_filled o' + f_size f" using order_okD(1)[OF ok] sz by linarith
  then have avg: "o_avg_price (book_fill o' f) * (o_filled o' + f_size f) =
      o_avg_price o' * o_filled o' + f_price f * f_size f"
    by (simp add: book_fill_def Let_def)
  have "o_avg_price (book_fill o' f) * o_filled (book_fill o' f) =
      sum_list (map notional_usd (o_fills (book_fill o' f)))"
    using avg order_okD(4)[OF ok] by (simp add: notional_usd_def)
  moreover have "0 \<le> o_filled (book_fill o' f)" "o_filled (book_fill o' f) \<le> max 0 (o_size (book_fill o' f))"
    using order_okD(1)[OF ok] sz by simp_all
  moreover have "o_filled (book_fill o' f) = sum_list (map f_size (o_fills (book_fill o' f)))"
    using order_okD(3)[OF ok] by simp
  ultimately show ?thesis
    using order_okD(5,6)[OF ok] sz(1) ids order_core_fields(1,2)[OF book_fill_frame(1)[of o' f]]
    unfolding order_ok_def by simp
qed

lemma rb_consume_snapshot [simp]: "rb_snapshot (rb_consume rb sd p q) = rb_snapshot rb"
  by (simp add: rb_consume_def Let_def)

lemma taker_fill_fields [simp]:
  "f_size (taker_fill cfg now ib sd o' rb p tk i) = tk"
  "f_order_id (taker_fill cfg now ib sd o' rb p tk i) = o_id o'"
  "f_token (taker_fill cfg now ib sd o' rb p tk i) = o_token o'"
  "f_index (taker_fill cfg now ib sd o' rb p tk i) = i"
  "f_price (taker_fill cfg now ib sd o' rb p tk i) = adjusted_price sd (ib / 10000) p"
  by (simp_all add: taker_fill_def Let_def)

definition fill_step :: "order \<Rightarrow> residual_book \<Rightarrow> order \<times> residual_book \<times> fill list \<Rightarrow> bool" where
  "fill_step o' rb res = (case res of (o2, rb2, fs) \<Rightarrow>
     order_ok o2 \<and> order_core o2 = order_core o' \<and> o_fills o2 = o_fills o' @ fs \<and>
     rb_snapshot rb2 = rb_snapshot rb)"

lemma consume_loop_step:
  "order_ok o' \<Longrightarrow> r = o_size o' - o_filled o' \<Longrightarrow> idx = length (o_fills o') \<Longrightarrow>
   fill_step o' rb (consume_loop cfg now ib sd ls r o' rb idx)"
proof (induction cfg now ib sd ls r o' rb idx rule: consume_loop.induct)
  case (1 cfg now ib sd r o' rb idx)
  then show ?case by (simp add: fill_step_def)
next
  case (2 cfg now ib sd price qty ls r o' rb idx)
  show ?case
  proof (cases "r \<le> 0 \<or> qty \<le> 0 \<or> level_out sd (o_price o') price")
    case True
    then show ?thesis using 2 by (auto simp: fill_step_def)
  next
    case False
    let ?tk = "min qty r" let ?f = "taker_fill cfg now ib sd o' rb price (min qty r) idx"
    have ok: "order_ok (book_fill o' ?f)"
      using False 2(3-5) by (intro book_fill_ok) auto
    have "fill_step (book_fill o' ?f) (rb_consume rb sd price ?tk)
       (consume_loop cfg now ib sd ls (r - ?tk) (book_fill o' ?f) (rb_consume rb sd price ?tk) (Suc idx))"
      using False 2(3-5) ok by (intro 2(2)) auto
    then show ?thesis using False
      by (auto simp: fill_step_def Let_def split: prod.splits)
  qed
qed

lemma remaining_size_pos: "0 < remaining_size o' \<Longrightarrow> remaining_size o' = o_size o' - o_filled o'"
  by (simp add: remaining_size_def max_def split: if_splits)

lemma consume_levels_step:
  assumes "order_ok o'" "idx = length (o_fills o')"
  shows "fill_step o' rb (consume_levels cfg now o' rb idx)"
proof (cases "remaining_size o' \<le> 0")
  case True
  then show ?thesis using assms by (simp add: consume_levels_def Let_def fill_step_def)
next
  case False
  then show ?thesis
    using consume_loop_step[OF assms(1) remaining_size_pos[of o'] assms(2)]
    by (simp add: consume_levels_def Let_def)
qed

section \<open>The probability cap and resting fills\<close>

lemma order_ok_probability [simp]: "order_ok (o'\<lparr>o_fill_probability := x\<rparr>) = order_ok o'"
  by (simp add: order_ok_def)

lemma order_core_probability [simp]: "order_core (o'\<lparr>o_fill_probability := x\<rparr>) = order_core o'"
  by (simp add: order_core_def)

lemma capped_take:
  assumes "fill_probability_capped_take cfg o' snap c = (tk, nts, o1)"
  shows "tk \<le> c" "order_core o1 = order_core o'" "order_ok o1 = order_ok o'" "o_fills o1 = o_fills o'"
    "o_filled o1 = o_filled o'" "o_size o1 = o_size o'" "o_price o1 = o_price o'"
proof -
  have "\<exists>F N P. fill_probability_capped_take cfg o' snap c = (min c F, N, o'\<lparr>o_fill_probability := P\<rparr>)"
    if "mc_fill_model cfg = Some fm" "o_covariates o' = Some cov" "\<not> (cov = [] \<or> c \<le> 0)" for fm cov
    unfolding fill_probability_capped_take_def that(1,2) prod.case option.case Let_def if_not_P[OF that(3)]
    by blast
  moreover have "fill_probability_capped_take cfg o' snap c = (c, [], o')"
    if "\<not> (\<exists>fm cov. mc_fill_model cfg = Some fm \<and> o_covariates o' = Some cov \<and> \<not> (cov = [] \<or> c \<le> 0))"
    using that unfolding fill_probability_capped_take_def
    by (cases "mc_fill_model cfg"; cases "o_covariates o'") simp_all
  ultimately have "(\<exists>F N P. (tk, nts, o1) = (min c F, N, o'\<lparr>o_fill_probability := P\<rparr>)) \<or> (tk, nts, o1) = (c, [], o')"
    unfolding assms by blast
  then show "tk \<le> c" "order_core o1 = order_core o'" "order_ok o1 = order_ok o'" "o_fills o1 = o_fills o'"
    "o_filled o1 = o_filled o'" "o_size o1 = o_size o'" "o_price o1 = o_price o'" by auto
qed

lemma resting_fill_fields [simp]:
  "f_size (resting_fill cfg o' snap p q n i) = q" "f_order_id (resting_fill cfg o' snap p q n i) = o_id o'"
  "f_token (resting_fill cfg o' snap p q n i) = o_token o'" "f_index (resting_fill cfg o' snap p q n i) = i"
  "f_price (resting_fill cfg o' snap p q n i) = p"
  by (simp_all add: resting_fill_def)

lemma resting_loop_step:
  "order_ok o' \<Longrightarrow> r = o_size o' - o_filled o' \<Longrightarrow> idx = length (o_fills o') \<Longrightarrow>
   fill_step o' rb (resting_loop cfg sd snap ls r o' rb idx)"
proof (induction cfg sd snap ls r o' rb idx rule: resting_loop.induct)
  case (1 cfg sd snap r o' rb idx)
  then show ?case by (simp add: fill_step_def)
next
  case (2 cfg sd snap price qty ls r o' rb idx)
  obtain tk nts o1 where c: "fill_probability_capped_take cfg o' snap (min qty r) = (tk, nts, o1)"
    using prod_cases3 by blast
  note o1 = capped_take[OF c]
  show ?case
  proof (cases "r \<le> 0 \<or> level_out sd (o_price o') price")
    case True
    then show ?thesis using 2 by (auto simp: fill_step_def)
  next
    case False
    show ?thesis
    proof (cases "tk \<le> 0")
      case True
      have "fill_step o1 rb (resting_loop cfg sd snap ls r o1 rb idx)"
        using False True 2(3-5) c o1 by (intro 2(1)) (auto simp: Let_def)
      then show ?thesis using False True c o1 by (simp add: fill_step_def split: prod.splits)
    next
      case pos: False
      let ?f = "resting_fill cfg o1 snap (o_price o1) tk nts idx"
      let ?rb = "rb_consume rb (if py_upper (o_side o1) = ''SELL'' then ''SELL'' else ''BUY'') (o_price o1) tk"
      have ok: "order_ok (book_fill o1 ?f)"
        using pos 2(3-5) o1 by (intro book_fill_ok) auto
      have rec: "record_resting_fill cfg o1 rb snap tk (o_price o1) nts idx = (book_fill o1 ?f, ?rb, ?f)"
        by (simp add: record_resting_fill_def Let_def)
      have "fill_step (book_fill o1 ?f) ?rb
         (resting_loop cfg sd snap ls (r - tk) (book_fill o1 ?f) ?rb (Suc idx))"
        using False pos 2(3-5) c o1 ok rec by (intro 2(2)) (auto simp: Let_def)
      then show ?thesis using False pos c o1 rec
        by (auto simp: fill_step_def Let_def split: prod.splits)
    qed
  qed
qed

lemma match_resting_step:
  assumes "order_ok o'" "idx = length (o_fills o')"
  shows "fill_step o' rb (match_resting cfg o' rb idx)"
proof (cases "remaining_size o' \<le> 0")
  case True
  then show ?thesis using assms by (simp add: match_resting_def Let_def fill_step_def)
next
  case False
  then show ?thesis
    using assms(1) resting_loop_step[OF assms(1) remaining_size_pos[of o'] assms(2)]
    by (simp add: match_resting_def Let_def fill_step_def)
qed

lemma resting_loop_price:
  "list_all (\<lambda>f. f_price f = o_price o') (snd (snd (resting_loop cfg sd snap ls r o' rb idx)))"
proof (induction cfg sd snap ls r o' rb idx rule: resting_loop.induct)
  case (2 cfg sd snap price qty ls r o' rb idx)
  obtain tk nts o1 where c: "fill_probability_capped_take cfg o' snap (min qty r) = (tk, nts, o1)"
    using prod_cases3 by blast
  note o1 = capped_take[OF c]
  show ?case
  proof (cases "r \<le> 0 \<or> level_out sd (o_price o') price")
    case False
    then show ?thesis
      using c o1 2(1)[OF _ _ c[symmetric] refl refl] 2(2)[OF _ _ c[symmetric] refl refl _ refl]
      by (cases "tk \<le> 0") (auto simp: Let_def record_resting_fill_def split: prod.splits)
  qed auto
qed simp

lemma snapshot_queue_frame [simp]:
  "order_core (snapshot_queue_position cfg pr o' rb) = order_core o'"
  "order_ok (snapshot_queue_position cfg pr o' rb) = order_ok o'"
  "o_fills (snapshot_queue_position cfg pr o' rb) = o_fills o'"
  by (auto simp: snapshot_queue_position_def Let_def order_core_def order_ok_def split: option.splits)

lemma advance_queue_frame [simp]:
  "order_core (advance_queue tf ob nb o') = order_core o'"
  "order_ok (advance_queue tf ob nb o') = order_ok o'"
  "o_fills (advance_queue tf ob nb o') = o_fills o'"
  by (auto simp: advance_queue_def Let_def order_core_def order_ok_def split: option.splits)

end
