(* ===== verification/Matching.thy ===== *)
theory Matching
  imports Orders
begin

text \<open>
  The matching engine of \<open>services/backtest/matching_engine.py\<close>: submit, cancel and
  \<open>advance_to\<close> over its order table, working lists, active counters, pending cancels and
  residual books.

  The order lifecycle is also stated abstractly, as the step relation \<open>lifecycle\<close> on engine
  states; every operation of the engine is shown to be a sequence of its steps, and the invariants
  are proved once, by rule induction on it.
\<close>

section \<open>State and operations\<close>

record engine =
  e_latency :: latency_model
  e_orders :: "(string, order) dict"
  e_working :: "(string, string list) dict"
  e_active :: "(string, int) dict"
  e_pending_cancels :: "(string, timestamp) dict"
  e_books :: "(string, residual_book) dict"
  e_now :: "timestamp option"
  e_fills_by_order :: "(string, fill list) dict"
  e_all_fills :: "fill list"

definition init_engine :: "latency_model \<Rightarrow> engine" where
  "init_engine lm =
     \<lparr>e_latency = lm, e_orders = [], e_working = [], e_active = [], e_pending_cancels = [],
      e_books = [], e_now = None, e_fills_by_order = [], e_all_fills = []\<rparr>"

text \<open>\<open>MatchingEngine.__init__\<close> clamps the queue-progress fraction.\<close>

definition mk_config ::
    "order_rule \<Rightarrow> fee_model \<Rightarrow> impact_model \<Rightarrow> fill_model option \<Rightarrow> pyfloat \<Rightarrow> match_config" where
  "mk_config rules fees impact fm fraction =
     \<lparr>mc_rules = rules, mc_fees = fees, mc_impact = impact, mc_fill_model = fm,
      mc_trade_fraction = max 0 (min 1 fraction)\<rparr>"

definition put_order :: "order \<Rightarrow> engine \<Rightarrow> engine" where
  "put_order o' e = e\<lparr>e_orders := dict_set (e_orders e) (o_id o') o'\<rparr>"

definition submit :: "match_config \<Rightarrow> order \<Rightarrow> engine \<Rightarrow> py_error + (order \<times> engine)" where
  "submit cfg o' e =
     (if dict_get (e_orders e) (o_id o') \<noteq> None then raise (ValueError ''duplicate order_id'')
      else let d = validate_submit (mc_rules cfg) (o_side o') (o_price o') (o_size o') (o_tif o') (o_post_only o') in
        if \<not> d_ok d then
          let o1 = o'\<lparr>o_state := REJECTED, o_reject_reason := d_reject_reason d\<rparr>
          in ok (o1, (put_order o1 e)\<lparr>e_fills_by_order := dict_set (e_fills_by_order e) (o_id o') []\<rparr>)
        else
          let o1 = o'\<lparr>o_price := effective_price d (o_price o'), o_size := effective_size d (o_size o')\<rparr>;
              (latency_ms, lm) = sample_submit_ms (Some (o_submitted_at o')) (e_latency e);
              o2 = o1\<lparr>o_received_at := Some (o_submitted_at o' + timedelta_ms latency_ms), o_state := PENDING\<rparr>
          in ok (o2, (put_order o2 e)
               \<lparr>e_latency := lm,
                e_fills_by_order := dict_set (e_fills_by_order e) (o_id o') [],
                e_active := dict_set (e_active e) (o_token o') (dict_get_or (e_active e) (o_token o') 0 + 1)\<rparr>))"

definition dec_active :: "(string, int) dict \<Rightarrow> string \<Rightarrow> (string, int) dict" where
  "dec_active d token =
     (let n = dict_get_or d token 0 - 1 in if n \<le> 0 then dict_pop d token else dict_set d token n)"

definition decrement_active :: "string \<Rightarrow> engine \<Rightarrow> engine" where
  "decrement_active token e = e\<lparr>e_active := dec_active (e_active e) token\<rparr>"

definition terminate :: "order_state \<Rightarrow> order \<Rightarrow> engine \<Rightarrow> engine" where
  "terminate st o' e =
     (if is_terminal o' then put_order o' e
      else decrement_active (o_token o') (put_order (o'\<lparr>o_state := st\<rparr>) e))"

definition has_active_orders_for_token :: "engine \<Rightarrow> string \<Rightarrow> bool" where
  "has_active_orders_for_token e token = (dict_get_or (e_active e) token 0 > 0)"

definition cancel :: "string \<Rightarrow> timestamp \<Rightarrow> engine \<Rightarrow> bool \<times> engine" where
  "cancel oid requested_at e =
     (case dict_get (e_orders e) oid of
        None \<Rightarrow> (False, e)
      | Some o' \<Rightarrow>
          if is_terminal o' then (False, e)
          else if dict_get (e_pending_cancels e) oid \<noteq> None then (True, e)
          else let (latency_ms, lm) = sample_cancel_ms (Some requested_at) (e_latency e);
                   effective = requested_at + timedelta_ms latency_ms
               in (True, (put_order (o'\<lparr>o_cancel_pending_at := Some effective\<rparr>) e)
                    \<lparr>e_latency := lm,
                     e_pending_cancels := dict_set (e_pending_cancels e) oid effective\<rparr>))"

definition wk_add :: "(string, string list) dict \<Rightarrow> string \<Rightarrow> string \<Rightarrow> (string, string list) dict" where
  "wk_add w token oid =
     (let ids = dict_get_or w token [] in dict_set w token (if oid \<in> set ids then ids else ids @ [oid]))"

definition wk_remove :: "(string, string list) dict \<Rightarrow> string \<Rightarrow> string \<Rightarrow> (string, string list) dict" where
  "wk_remove w token oid =
     (let ids = dict_get_or w token [] in if oid \<in> set ids then dict_set w token (remove1 oid ids) else w)"

definition add_to_working :: "order \<Rightarrow> engine \<Rightarrow> engine" where
  "add_to_working o' e = e\<lparr>e_working := wk_add (e_working e) (o_token o') (o_id o')\<rparr>"

definition remove_from_working :: "order \<Rightarrow> engine \<Rightarrow> engine" where
  "remove_from_working o' e = e\<lparr>e_working := wk_remove (e_working e) (o_token o') (o_id o')\<rparr>"

definition apply_cancel :: "string \<Rightarrow> timestamp \<Rightarrow> engine \<Rightarrow> engine" where
  "apply_cancel oid effective_at e =
     (case dict_get (e_orders e) oid of
        None \<Rightarrow> e
      | Some o' \<Rightarrow>
          if is_terminal o' then e
          else if o_state o' = PARTIAL \<or> o_state o' = WORKING then
            remove_from_working o' (terminate CANCELLED (o'\<lparr>o_cancelled_at := Some effective_at\<rparr>) e)
          else if o_state o' = PENDING then
            terminate CANCELLED (o'\<lparr>o_cancelled_at := Some effective_at\<rparr>) e
          else e)"

text \<open>
  The fills a match produced are stored with the order, the per-order ledger and the book.
\<close>

definition commit_fills ::
    "order \<times> residual_book \<times> fill list \<Rightarrow> engine \<Rightarrow> engine" where
  "commit_fills res e = (case res of (o', rb, fs) \<Rightarrow>
     (put_order o' e)
       \<lparr>e_books := dict_set (e_books e) (o_token o') rb,
        e_fills_by_order := dict_set (e_fills_by_order e) (o_id o')
          (dict_get_or (e_fills_by_order e) (o_id o') [] @ fs)\<rparr>)"

definition ledger_length :: "engine \<Rightarrow> order \<Rightarrow> nat" where
  "ledger_length e o' = length (dict_get_or (e_fills_by_order e) (o_id o') [])"

definition rest_order :: "match_config \<Rightarrow> order_state \<Rightarrow> order \<Rightarrow> residual_book \<Rightarrow> engine \<Rightarrow> engine" where
  "rest_order cfg st o' rb e =
     (let o1 = snapshot_queue_position cfg (lm_submit (e_latency e)) (o'\<lparr>o_state := st\<rparr>) rb
      in add_to_working o1 (put_order o1 e))"

definition handle_admit :: "match_config \<Rightarrow> order \<Rightarrow> engine \<Rightarrow> engine \<times> fill list" where
  "handle_admit cfg o' e =
     (case dict_get (e_books e) (o_token o') of
        None \<Rightarrow> (e, [])
      | Some book \<Rightarrow>
          let snap = rb_snapshot book; tif = tif_or_gtc (o_tif o') in
          if o_post_only o' \<and> crosses_book (o_side o') (o_price o') (best_bid snap) (best_ask snap) then
            (terminate REJECTED (o'\<lparr>o_reject_reason := Some PostOnlyCrossesBook\<rparr>) e, [])
          else if tif = TIF_FOK then
            if available_for_taker book (o_side o') (o_price o') + eps12 < o_size o' then
              (terminate REJECTED (o'\<lparr>o_reject_reason := Some FokInsufficientLiquidity\<rparr>) e, [])
            else
              let (o1, rb1, fs) = consume_levels cfg (e_now e) o' book (ledger_length e o')
              in (terminate FILLED o1 (commit_fills (o1, rb1, fs) e), fs)
          else if is_marketable (o_side o') (o_price o') (best_bid snap) (best_ask snap) then
            let (o1, rb1, fs) = consume_levels cfg (e_now e) o' book (ledger_length e o');
                e1 = commit_fills (o1, rb1, fs) e
            in if remaining_size o1 > 0 then
                 if tif = TIF_IOC \<or> tif = TIF_FAK then
                   (terminate CANCELLED (o1\<lparr>o_cancelled_at := o_received_at o1\<rparr>) e1, fs)
                 else (rest_order cfg PARTIAL o1 rb1 e1, fs)
               else (terminate FILLED o1 e1, fs)
          else if tif = TIF_IOC \<or> tif = TIF_FAK then
            (terminate CANCELLED (o'\<lparr>o_cancelled_at := o_received_at o'\<rparr>) e, [])
          else (rest_order cfg WORKING o' book e, []))"

definition try_match_resting :: "match_config \<Rightarrow> order \<Rightarrow> engine \<Rightarrow> engine \<times> fill list" where
  "try_match_resting cfg o' e =
     (case dict_get (e_books e) (o_token o') of
        None \<Rightarrow> (e, [])
      | Some book \<Rightarrow>
          if (case o_queue_ahead o' of None \<Rightarrow> False | Some qa \<Rightarrow> qa > eps9) then (e, [])
          else if remaining_size o' \<le> 0 then (e, [])
          else
            let (o1, rb1, fs) = match_resting cfg o' book (ledger_length e o');
                e1 = commit_fills (o1, rb1, fs) e
            in if remaining_size o1 \<le> eps12 \<and> o_state o1 \<noteq> FILLED
               then (remove_from_working o1 (terminate FILLED o1 e1), fs)
               else (e1, fs))"

text \<open>\<open>advance_to\<close>, in its four steps.\<close>

definition apply_due_cancels :: "timestamp \<Rightarrow> engine \<Rightarrow> engine" where
  "apply_due_cancels now e =
     foldl (\<lambda>s (oid, effective_at).
        if effective_at \<le> now
        then let s1 = apply_cancel oid effective_at s
             in s1\<lparr>e_pending_cancels := dict_pop (e_pending_cancels s1) oid\<rparr>
        else s) e (e_pending_cancels e)"

definition refresh_book :: "match_config \<Rightarrow> book_snapshot \<Rightarrow> engine \<Rightarrow> engine" where
  "refresh_book cfg snap e =
     (let new_book = fresh_book snap;
          e1 = e\<lparr>e_books := dict_set (e_books e) (s_token snap) new_book\<rparr>
      in case dict_get (e_books e) (s_token snap) of
           None \<Rightarrow> e1
         | Some old_book \<Rightarrow>
             foldl (\<lambda>s oid. case dict_get (e_orders s) oid of
                 None \<Rightarrow> s
               | Some o' \<Rightarrow> put_order (advance_queue (mc_trade_fraction cfg) old_book new_book o') s)
               e1 (dict_get_or (e_working e) (s_token snap) []))"

definition admit_due :: "match_config \<Rightarrow> string \<Rightarrow> timestamp \<Rightarrow> string \<Rightarrow> engine \<times> fill list \<Rightarrow> engine \<times> fill list" where
  "admit_due cfg token now oid acc =
     (let (s, produced) = acc in
      case dict_get (e_orders s) oid of
        None \<Rightarrow> acc
      | Some o' \<Rightarrow>
          if o_token o' \<noteq> token then acc
          else if o_state o' \<noteq> PENDING then acc
          else (case o_received_at o' of
              None \<Rightarrow> acc
            | Some t \<Rightarrow> if t > now then acc
                else let (s1, fs) = handle_admit cfg o' s in (s1, produced @ fs)))"

definition match_working :: "match_config \<Rightarrow> string \<Rightarrow> engine \<times> fill list \<Rightarrow> engine \<times> fill list" where
  "match_working cfg oid acc =
     (let (s, produced) = acc in
      case dict_get (e_orders s) oid of
        None \<Rightarrow> acc
      | Some o' \<Rightarrow> if is_terminal o' then acc
          else let (s1, fs) = try_match_resting cfg o' s in (s1, produced @ fs))"

definition advance_to :: "match_config \<Rightarrow> book_snapshot \<Rightarrow> engine \<Rightarrow> py_error + (fill list \<times> engine)" where
  "advance_to cfg snap e =
     (let now = s_observed_at snap; token = s_token snap in
      if (case e_now e of None \<Rightarrow> False | Some t \<Rightarrow> now < t) then raise (ValueError ''non-monotonic advance'')
      else
        let e1 = apply_due_cancels now (e\<lparr>e_now := Some now\<rparr>);
            e2 = refresh_book cfg snap e1;
            (e3, produced3) = foldl (\<lambda>acc oid. admit_due cfg token now oid acc) (e2, []) (map fst (e_orders e2));
            (e4, produced) = foldl (\<lambda>acc oid. match_working cfg oid acc) (e3, produced3)
               (dict_get_or (e_working e3) token [])
        in ok (produced, e4\<lparr>e_all_fills := e_all_fills e4 @ produced\<rparr>))"

definition working_orders :: "engine \<Rightarrow> string option \<Rightarrow> order list" where
  "working_orders e token =
     (case token of
        None \<Rightarrow> filter (\<lambda>o'. o_state o' \<in> {WORKING, PARTIAL}) (map snd (e_orders e))
      | Some t \<Rightarrow> List.map_filter (\<lambda>i. case dict_get (e_orders e) i of
            None \<Rightarrow> None
          | Some o' \<Rightarrow> if o_state o' \<in> {WORKING, PARTIAL} then Some o' else None)
          (dict_get_or (e_working e) t []))"

definition all_orders :: "engine \<Rightarrow> order list" where
  "all_orders e = map snd (e_orders e)"

definition all_fills :: "engine \<Rightarrow> fill list" where
  "all_fills e = e_all_fills e"

section \<open>The lifecycle, abstractly\<close>

definition evolves :: "order \<Rightarrow> order \<Rightarrow> bool" where
  "evolves a b \<longleftrightarrow> o_id b = o_id a \<and> o_token b = o_token a \<and> o_received_at b = o_received_at a \<and> order_ok b \<and> (\<exists>fs. o_fills b = o_fills a @ fs)"

inductive lifecycle :: "engine \<Rightarrow> engine \<Rightarrow> bool" where
  accept: "dict_get (e_orders e) (o_id n) = None \<Longrightarrow> order_ok n \<Longrightarrow> o_fills n = [] \<Longrightarrow> o_state n = PENDING \<Longrightarrow>
     lifecycle e (e\<lparr>e_orders := dict_set (e_orders e) (o_id n) n,
        e_active := dict_set (e_active e) (o_token n) (dict_get_or (e_active e) (o_token n) 0 + 1),
        e_fills_by_order := dict_set (e_fills_by_order e) (o_id n) []\<rparr>)"
| refuse: "dict_get (e_orders e) (o_id n) = None \<Longrightarrow> order_ok n \<Longrightarrow> o_fills n = [] \<Longrightarrow> o_state n = REJECTED \<Longrightarrow>
     lifecycle e (e\<lparr>e_orders := dict_set (e_orders e) (o_id n) n,
        e_fills_by_order := dict_set (e_fills_by_order e) (o_id n) []\<rparr>)"
| rest: "dict_get (e_orders e) i = Some a \<Longrightarrow> \<not> is_terminal a \<Longrightarrow> evolves a b \<Longrightarrow> o_state b \<in> {WORKING, PARTIAL} \<Longrightarrow>
     o_state a = PENDING \<or> o_state b = o_state a \<Longrightarrow>
     lifecycle e (e\<lparr>e_orders := dict_set (e_orders e) i b,
        e_working := wk_add (e_working e) (o_token a) i, e_books := bks,
        e_fills_by_order := dict_set (e_fills_by_order e) i (o_fills b)\<rparr>)"
| finish: "dict_get (e_orders e) i = Some a \<Longrightarrow> \<not> is_terminal a \<Longrightarrow> evolves a b \<Longrightarrow> is_terminal b \<Longrightarrow>
     o_state a = PENDING \<or> o_state b \<in> {FILLED, CANCELLED} \<Longrightarrow>
     lifecycle e (e\<lparr>e_orders := dict_set (e_orders e) i b,
        e_working := wk_remove (e_working e) (o_token a) i,
        e_active := dec_active (e_active e) (o_token a), e_books := bks,
        e_fills_by_order := dict_set (e_fills_by_order e) i (o_fills b)\<rparr>)"
| touch: "dict_get (e_orders e) i = Some a \<Longrightarrow> evolves a b \<Longrightarrow> o_state b = o_state a \<Longrightarrow>
     o_fills b = o_fills a \<Longrightarrow> (is_terminal a \<longrightarrow> b = a) \<Longrightarrow>
     lifecycle e (e\<lparr>e_orders := dict_set (e_orders e) i b\<rparr>)"
| env: "lifecycle e (e\<lparr>e_latency := lm, e_pending_cancels := pc, e_books := bks, e_now := n, e_all_fills := fs\<rparr>)"

inductive_cases lifecycleE: "lifecycle e e'"

definition active_total :: "string \<Rightarrow> (string, order) dict \<Rightarrow> int" where
  "active_total t d = dict_sum (\<lambda>o'. if o_token o' = t \<and> \<not> is_terminal o' then 1 else 0) d"

definition resting :: "engine \<Rightarrow> string \<Rightarrow> string \<Rightarrow> bool" where
  "resting e t i = (case dict_get (e_orders e) i of None \<Rightarrow> False
     | Some o' \<Rightarrow> o_token o' = t \<and> o_state o' \<in> {WORKING, PARTIAL})"

definition orders_inv :: "engine \<Rightarrow> bool" where
  "orders_inv e \<longleftrightarrow> dict_wf (e_orders e) \<and>
     (\<forall>i o'. dict_get (e_orders e) i = Some o' \<longrightarrow>
        o_id o' = i \<and> order_ok o' \<and> dict_get (e_fills_by_order e) i = Some (o_fills o'))"

definition active_inv :: "engine \<Rightarrow> bool" where
  "active_inv e \<longleftrightarrow> (\<forall>t. dict_get_or (e_active e) t 0 = active_total t (e_orders e))"

definition working_inv :: "engine \<Rightarrow> bool" where
  "working_inv e \<longleftrightarrow>
     (\<forall>t i. i \<in> set (dict_get_or (e_working e) t []) \<longleftrightarrow> resting e t i) \<and>
     (\<forall>t. distinct (dict_get_or (e_working e) t []))"

definition engine_inv :: "engine \<Rightarrow> bool" where
  "engine_inv e \<longleftrightarrow> orders_inv e \<and> active_inv e \<and> working_inv e"

lemma active_total_nonneg: "0 \<le> active_total t d"
  unfolding active_total_def dict_sum_def by (rule sum_list_nonneg) auto

lemma active_total_pos_iff:
  assumes "dict_wf d"
  shows "0 < active_total t d \<longleftrightarrow> (\<exists>i o'. dict_get d i = Some o' \<and> o_token o' = t \<and> \<not> is_terminal o')"
proof -
  have "0 < active_total t d \<longleftrightarrow> (\<exists>p\<in>set d. o_token (snd p) = t \<and> \<not> is_terminal (snd p))"
  proof (induction d)
    case (Cons p d)
    have "active_total t (p # d) = (if o_token (snd p) = t \<and> \<not> is_terminal (snd p) then 1 else 0) + active_total t d"
      by (simp add: active_total_def dict_sum_def)
    then show ?case using Cons active_total_nonneg[of t d] by auto
  qed (simp add: active_total_def)
  also have "\<dots> \<longleftrightarrow> (\<exists>i o'. dict_get d i = Some o' \<and> o_token o' = t \<and> \<not> is_terminal o')"
  proof
    assume "\<exists>p\<in>set d. o_token (snd p) = t \<and> \<not> is_terminal (snd p)"
    then obtain i o' where "(i, o') \<in> set d" "o_token o' = t" "\<not> is_terminal o'" by auto
    then show "\<exists>i o'. dict_get d i = Some o' \<and> o_token o' = t \<and> \<not> is_terminal o'"
      using dict_wf_get[OF assms] by blast
  next
    assume "\<exists>i o'. dict_get d i = Some o' \<and> o_token o' = t \<and> \<not> is_terminal o'"
    then obtain i o' where "(i, o') \<in> set d" "o_token o' = t" "\<not> is_terminal o'"
      by (blast dest: dict_get_mem)
    then show "\<exists>p\<in>set d. o_token (snd p) = t \<and> \<not> is_terminal (snd p)" by (intro bexI) auto
  qed
  finally show ?thesis .
qed

lemma dec_active_get:
  "dict_get_or (dec_active d t) t' 0 = (if t = t' then max 0 (dict_get_or d t 0 - 1) else dict_get_or d t' 0)"
  by (simp add: dec_active_def Let_def)

lemma wk_add_get:
  "dict_get_or (wk_add w t i) t' [] =
     (if t = t' then (let ids = dict_get_or w t [] in if i \<in> set ids then ids else ids @ [i])
      else dict_get_or w t' [])"
  by (simp add: wk_add_def Let_def)

lemma wk_remove_get:
  "dict_get_or (wk_remove w t i) t' [] =
     (if t = t' then remove1 i (dict_get_or w t []) else dict_get_or w t' [])"
  by (simp add: wk_remove_def Let_def remove1_idem)

lemma orders_inv_get:
  "orders_inv e \<Longrightarrow> dict_get (e_orders e) i = Some o' \<Longrightarrow>
   o_id o' = i \<and> order_ok o' \<and> dict_get (e_fills_by_order e) i = Some (o_fills o')"
  by (simp add: orders_inv_def)

lemma orders_inv_put:
  assumes "orders_inv e" "o_id b = i" "order_ok b"
    and "e_orders e' = dict_set (e_orders e) i b"
    and "e_fills_by_order e' = dict_set (e_fills_by_order e) i (o_fills b)"
  shows "orders_inv e'"
  using assms by (auto simp: orders_inv_def)

lemma active_inv_put:
  assumes "orders_inv e" "active_inv e" "dict_get (e_orders e) i = Some a" "o_token b = o_token a"
    and "is_terminal b = is_terminal a"
    and "e_orders e' = dict_set (e_orders e) i b" "e_active e' = e_active e"
  shows "active_inv e'"
  using assms by (simp add: active_inv_def orders_inv_def active_total_def dict_sum_set)

lemma active_inv_finish:
  assumes "orders_inv e" "active_inv e" "dict_get (e_orders e) i = Some a" "o_token b = o_token a"
    and "\<not> is_terminal a" "is_terminal b"
    and "e_orders e' = dict_set (e_orders e) i b" "e_active e' = dec_active (e_active e) (o_token a)"
  shows "active_inv e'"
proof -
  have wf: "dict_wf (e_orders e)" using assms(1) by (simp add: orders_inv_def)
  have "0 < active_total (o_token a) (e_orders e)"
    unfolding active_total_pos_iff[OF wf] using assms(3,5) by blast
  then have "dict_get_or (e_active e) (o_token a) 0 - 1 \<ge> 0"
    using assms(2) by (simp add: active_inv_def)
  then show ?thesis
    using assms wf by (auto simp: active_inv_def active_total_def dict_sum_set dec_active_get)
qed

lemma resting_put:
  assumes "e_orders e' = dict_set (e_orders e) i b"
  shows "resting e' t j = (if i = j then o_token b = t \<and> o_state b \<in> {WORKING, PARTIAL} else resting e t j)"
  using assms by (simp add: resting_def)

lemma working_inv_rest:
  assumes "working_inv e" "o_token b = o_token a" "o_state b \<in> {WORKING, PARTIAL}" "dict_get (e_orders e) i = Some a"
    and "e_orders e' = dict_set (e_orders e) i b" "e_working e' = wk_add (e_working e) (o_token a) i"
  shows "working_inv e'"
proof -
  have other: "resting e t i \<Longrightarrow> o_token a = t" for t using assms(4) by (simp add: resting_def)
  have mem: "\<And>t j. j \<in> set (dict_get_or (e_working e) t []) \<longleftrightarrow> resting e t j" and dist: "\<And>t. distinct (dict_get_or (e_working e) t [])"
    using assms(1) unfolding working_inv_def by blast+
  have "j \<in> set (dict_get_or (e_working e') t []) \<longleftrightarrow> resting e' t j" for t j
  proof (cases "j = i")
    case False
    then show ?thesis using mem[of j t]
      unfolding resting_put[OF assms(5)] assms(6) wk_add_get Let_def by auto
  next
    case True
    then show ?thesis using mem[of i t] assms(2,3) other[of t]
      unfolding resting_put[OF assms(5)] assms(6) wk_add_get Let_def by auto
  qed
  moreover have "distinct (dict_get_or (e_working e') t [])" for t
    unfolding assms(6) wk_add_get Let_def using dist by simp
  ultimately show ?thesis unfolding working_inv_def by blast
qed

lemma working_inv_finish:
  assumes "working_inv e" "o_token b = o_token a" "is_terminal b" "dict_get (e_orders e) i = Some a"
    and "e_orders e' = dict_set (e_orders e) i b" "e_working e' = wk_remove (e_working e) (o_token a) i"
  shows "working_inv e'"
proof -
  have other: "resting e t i \<Longrightarrow> o_token a = t" for t using assms(4) by (simp add: resting_def)
  have nst: "o_state b \<notin> {WORKING, PARTIAL}" using assms(3) by (auto simp: is_terminal_def)
  have mem: "\<And>t j. j \<in> set (dict_get_or (e_working e) t []) \<longleftrightarrow> resting e t j" and dist: "\<And>t. distinct (dict_get_or (e_working e) t [])"
    using assms(1) unfolding working_inv_def by blast+
  have "j \<in> set (dict_get_or (e_working e') t []) \<longleftrightarrow> resting e' t j" for t j
  proof (cases "j = i")
    case False
    then show ?thesis using mem[of j t]
      unfolding resting_put[OF assms(5)] assms(6) wk_remove_get by auto
  next
    case True
    then show ?thesis using mem[of i t] nst dist[of t] other[of t]
      unfolding resting_put[OF assms(5)] assms(6) wk_remove_get by (auto simp: set_remove1_eq)
  qed
  moreover have "distinct (dict_get_or (e_working e') t [])" for t
    unfolding assms(6) wk_remove_get using dist by simp
  ultimately show ?thesis unfolding working_inv_def by blast
qed

lemma working_inv_same:
  assumes "working_inv e" "\<And>t j. resting e' t j = resting e t j" "e_working e' = e_working e"
  shows "working_inv e'"
  using assms by (simp add: working_inv_def)

lemma active_inv_new:
  assumes "active_inv e" "dict_get (e_orders e) (o_id n) = None"
    and "e_orders e' = dict_set (e_orders e) (o_id n) n"
    and "e_active e' = (if is_terminal n then e_active e
           else dict_set (e_active e) (o_token n) (dict_get_or (e_active e) (o_token n) 0 + 1))"
  shows "active_inv e'"
  using assms(1) unfolding active_inv_def active_total_def assms(3,4) dict_sum_new[OF assms(2)] by auto

lemma working_inv_new:
  assumes "working_inv e" "dict_get (e_orders e) (o_id n) = None" "o_state n \<notin> {WORKING, PARTIAL}"
    and "e_orders e' = dict_set (e_orders e) (o_id n) n" "e_working e' = e_working e"
  shows "working_inv e'"
proof (rule working_inv_same[OF assms(1) _ assms(5)])
  show "resting e' t j = resting e t j" for t j
    using assms(2,3,4) by (auto simp: resting_def split: option.splits)
qed

lemma engine_inv_init: "engine_inv (init_engine lm)"
  by (simp add: engine_inv_def init_engine_def orders_inv_def active_inv_def working_inv_def resting_def active_total_def)

lemma lifecycle_inv: "lifecycle e e' \<Longrightarrow> engine_inv e \<Longrightarrow> engine_inv e'"
proof (induction rule: lifecycle.induct)
  case (accept e n)
  have i: "orders_inv e" "active_inv e" "working_inv e" using accept(5) by (simp_all add: engine_inv_def)
  have nt: "\<not> is_terminal n" using accept by (simp add: is_terminal_def)
  show ?case unfolding engine_inv_def
    by (intro conjI orders_inv_put[OF i(1) refl accept(2)] active_inv_new[OF i(2) accept(1)]
        working_inv_new[OF i(3) accept(1)]) (simp_all add: nt accept)
next
  case (refuse e n)
  have i: "orders_inv e" "active_inv e" "working_inv e" using refuse(5) by (simp_all add: engine_inv_def)
  have nt: "is_terminal n" using refuse by (simp add: is_terminal_def)
  show ?case unfolding engine_inv_def
    by (intro conjI orders_inv_put[OF i(1) refl refuse(2)] active_inv_new[OF i(2) refuse(1)]
        working_inv_new[OF i(3) refuse(1)]) (simp_all add: nt refuse)
next
  case (rest e i a b bks)
  have inv: "orders_inv e" "active_inv e" "working_inv e" using rest(6) by (simp_all add: engine_inv_def)
  have ids: "o_id b = i" "o_token b = o_token a" "order_ok b"
    using rest orders_inv_get[OF inv(1) rest(1)] by (auto simp: evolves_def)
  have "is_terminal b = is_terminal a" using rest by (auto simp: is_terminal_def)
  then show ?case unfolding engine_inv_def
    by (intro conjI orders_inv_put[OF inv(1) ids(1,3)] active_inv_put[OF inv(1,2) rest(1) ids(2)]
        working_inv_rest[OF inv(3) ids(2) rest(4) rest(1)]) simp_all
next
  case (finish e i a b bks)
  have inv: "orders_inv e" "active_inv e" "working_inv e" using finish(6) by (simp_all add: engine_inv_def)
  have ids: "o_id b = i" "o_token b = o_token a" "order_ok b"
    using finish orders_inv_get[OF inv(1) finish(1)] by (auto simp: evolves_def)
  show ?case unfolding engine_inv_def
    by (intro conjI orders_inv_put[OF inv(1) ids(1,3)] active_inv_finish[OF inv(1,2) finish(1) ids(2) finish(2,4)]
        working_inv_finish[OF inv(3) ids(2) finish(4) finish(1)]) simp_all
next
  case (touch e i a b)
  have inv: "orders_inv e" "active_inv e" "working_inv e" using touch(6) by (simp_all add: engine_inv_def)
  have ids: "o_id b = i" "o_token b = o_token a" "order_ok b"
    using touch orders_inv_get[OF inv(1) touch(1)] by (auto simp: evolves_def)
  have trm: "is_terminal b = is_terminal a" using touch by (simp add: is_terminal_def)
  have sync: "dict_set (e_fills_by_order e) i (o_fills b) = e_fills_by_order e"
    using orders_inv_get[OF inv(1) touch(1)] touch(4) by (simp add: dict_set_same)
  have res: "resting (e\<lparr>e_orders := dict_set (e_orders e) i b\<rparr>) t j = resting e t j" for t j
    using touch(1,3) ids by (cases "i = j") (simp_all add: resting_def)
  show ?case unfolding engine_inv_def
    by (intro conjI orders_inv_put[OF inv(1) ids(1,3)] active_inv_put[OF inv(1,2) touch(1) ids(2) trm]
        working_inv_same[OF inv(3) res]) (simp_all add: sync)
next
  case (env e lm pc bks n fs)
  then show ?case
    by (simp add: engine_inv_def orders_inv_def active_inv_def working_inv_def resting_def)
qed

fun legal :: "order_state \<Rightarrow> order_state \<Rightarrow> bool" where
  "legal PENDING s = True"
| "legal WORKING s = (s = WORKING \<or> s = FILLED \<or> s = CANCELLED)"
| "legal PARTIAL s = (s = PARTIAL \<or> s = FILLED \<or> s = CANCELLED)"
| "legal t s = (s = t)"

lemma legal_refl [simp]: "legal s s"
  by (cases s) auto

lemma legal_trans: "legal a b \<Longrightarrow> legal b c \<Longrightarrow> legal a c"
  by (cases a; cases b) auto

definition order_leads :: "order \<Rightarrow> order \<Rightarrow> bool" where
  "order_leads a b \<longleftrightarrow> o_id b = o_id a \<and> o_token b = o_token a \<and> o_received_at b = o_received_at a \<and> (\<exists>fs. o_fills b = o_fills a @ fs) \<and>
     legal (o_state a) (o_state b) \<and> (is_terminal a \<longrightarrow> b = a)"

lemma order_leads_refl [simp]: "order_leads a a"
  by (simp add: order_leads_def)

lemma order_leads_trans: "order_leads a b \<Longrightarrow> order_leads b c \<Longrightarrow> order_leads a c"
  unfolding order_leads_def by (metis append_assoc legal_trans)

lemma lifecycle_leads:
  assumes "lifecycle e e'" "dict_get (e_orders e) j = Some c"
  shows "\<exists>d. dict_get (e_orders e') j = Some d \<and> order_leads c d"
  using assms
proof (induction rule: lifecycle.induct)
  case (rest e i a b bks)
  have "legal (o_state a) (o_state b)" using rest(5) by (cases "o_state a") auto
  then show ?case using rest by (cases "i = j") (auto simp: order_leads_def evolves_def)
next
  case (finish e i a b bks)
  have "legal (o_state a) (o_state b)" using finish(2,5) by (cases "o_state a") (auto simp: is_terminal_def)
  then show ?case using finish by (cases "i = j") (auto simp: order_leads_def evolves_def)
next
  case (touch e i a b)
  then show ?case by (cases "i = j") (auto simp: order_leads_def evolves_def)
qed auto

lemma lifecycle_star_leads:
  assumes "lifecycle\<^sup>*\<^sup>* e e'" "dict_get (e_orders e) j = Some c"
  shows "\<exists>d. dict_get (e_orders e') j = Some d \<and> order_leads c d"
  using assms
proof (induction rule: rtranclp_induct)
  case (step y z)
  then show ?case using lifecycle_leads order_leads_trans by blast
qed auto

lemma lifecycle_star_inv: "lifecycle\<^sup>*\<^sup>* e e' \<Longrightarrow> engine_inv e \<Longrightarrow> engine_inv e'"
  by (induction rule: rtranclp_induct) (auto intro: lifecycle_inv)

section \<open>The engine implements the lifecycle\<close>

lemma engine_inv_parts:
  assumes "engine_inv e"
  shows "orders_inv e" "active_inv e" "working_inv e"
  using assms by (simp_all add: engine_inv_def)

lemma stored_order:
  assumes "engine_inv e" "dict_get (e_orders e) i = Some a"
  shows "o_id a = i" "order_ok a" "dict_get (e_fills_by_order e) i = Some (o_fills a)"
    "ledger_length e a = length (o_fills a)"
  using orders_inv_get[OF engine_inv_parts(1)[OF assms(1)] assms(2)]
  by (simp_all add: ledger_length_def dict_get_or_def)

lemma pending_not_working:
  assumes "engine_inv e" "dict_get (e_orders e) i = Some a" "o_state a = PENDING"
  shows "wk_remove (e_working e) t i = e_working e"
proof -
  have "\<not> resting e t i" using assms(2,3) by (simp add: resting_def)
  then have "i \<notin> set (dict_get_or (e_working e) t [])"
    using engine_inv_parts(3)[OF assms(1)] by (simp add: working_inv_def)
  then show ?thesis by (simp add: wk_remove_def Let_def)
qed

lemma resting_wk_add:
  assumes "engine_inv e" "dict_get (e_orders e) i = Some a" "o_state a \<in> {WORKING, PARTIAL}"
  shows "wk_add (e_working e) (o_token a) i = e_working e"
proof -
  have "resting e (o_token a) i" using assms(2,3) by (simp add: resting_def)
  then have mem: "i \<in> set (dict_get_or (e_working e) (o_token a) [])"
    using engine_inv_parts(3)[OF assms(1)] by (simp add: working_inv_def)
  then have "dict_get (e_working e) (o_token a) = Some (dict_get_or (e_working e) (o_token a) [])"
    by (cases "dict_get (e_working e) (o_token a)") (simp_all add: dict_get_or_def)
  then show ?thesis using mem by (simp add: wk_add_def Let_def dict_set_same)
qed

lemma sync_fills:
  assumes "engine_inv e" "dict_get (e_orders e) i = Some a"
  shows "dict_set (e_fills_by_order e) i (o_fills a) = e_fills_by_order e"
  using stored_order(3)[OF assms] by (rule dict_set_same)

text \<open>One rule for every operation that ends an order, one for every one that leaves it resting.\<close>

text \<open>The lifecycle steps between submissions: they add no order.\<close>

definition internal :: "engine \<Rightarrow> engine \<Rightarrow> bool" where
  "internal e e' \<longleftrightarrow> lifecycle e e' \<and> map fst (e_orders e') = map fst (e_orders e)"

lemma internal_star:
  assumes "internal\<^sup>*\<^sup>* e e'"
  shows "lifecycle\<^sup>*\<^sup>* e e'" "map fst (e_orders e') = map fst (e_orders e)"
  using assms by (induction rule: rtranclp_induct) (auto simp: internal_def intro: rtranclp.rtrancl_into_rtrancl)

lemma internal_star_inv: "internal\<^sup>*\<^sup>* e e' \<Longrightarrow> engine_inv e \<Longrightarrow> engine_inv e'"
  using internal_star(1) lifecycle_star_inv by blast

lemma internal_inv: "internal e e' \<Longrightarrow> engine_inv e \<Longrightarrow> engine_inv e'"
  unfolding internal_def using lifecycle_inv by blast

lemmas internal_star_leads = lifecycle_star_leads[OF internal_star(1)]

lemma dict_set_key_list:
  "dict_get d k = Some v \<Longrightarrow> map fst (dict_set d k w) = map fst d"
  by (induction d) (auto simp: dict_set_def dict_get_def split: if_splits)

lemma finishI:
  assumes "engine_inv e" "dict_get (e_orders e) i = Some a" "\<not> is_terminal a" "evolves a b" "is_terminal b"
    and "o_state a = PENDING \<or> o_state b \<in> {FILLED, CANCELLED}"
    and "e_orders e' = dict_set (e_orders e) i b"
    and "e_working e' = wk_remove (e_working e) (o_token a) i"
    and "e_active e' = dec_active (e_active e) (o_token a)"
    and "e_fills_by_order e' = dict_set (e_fills_by_order e) i (o_fills b)"
    and "e_latency e' = e_latency e" "e_pending_cancels e' = e_pending_cancels e" "e_now e' = e_now e"
      "e_all_fills e' = e_all_fills e"
  shows "internal e e'"
proof -
  have "e' = e\<lparr>e_orders := dict_set (e_orders e) i b,
        e_working := wk_remove (e_working e) (o_token a) i,
        e_active := dec_active (e_active e) (o_token a), e_books := e_books e',
        e_fills_by_order := dict_set (e_fills_by_order e) i (o_fills b)\<rparr>"
    using assms(7-14) by (intro engine.equality) simp_all
  then show ?thesis using lifecycle.finish[OF assms(2-6), of "e_books e'"]
    unfolding internal_def assms(7) dict_set_key_list[OF assms(2)] by simp
qed

lemma restI:
  assumes "engine_inv e" "dict_get (e_orders e) i = Some a" "\<not> is_terminal a" "evolves a b"
    "o_state b \<in> {WORKING, PARTIAL}" "o_state a = PENDING \<or> o_state b = o_state a"
    and "e_orders e' = dict_set (e_orders e) i b"
    and "e_working e' = wk_add (e_working e) (o_token a) i"
    and "e_active e' = e_active e"
    and "e_fills_by_order e' = dict_set (e_fills_by_order e) i (o_fills b)"
    and "e_latency e' = e_latency e" "e_pending_cancels e' = e_pending_cancels e" "e_now e' = e_now e"
      "e_all_fills e' = e_all_fills e"
  shows "internal e e'"
proof -
  have "e' = e\<lparr>e_orders := dict_set (e_orders e) i b,
        e_working := wk_add (e_working e) (o_token a) i, e_books := e_books e',
        e_fills_by_order := dict_set (e_fills_by_order e) i (o_fills b)\<rparr>"
    using assms(7-14) by (intro engine.equality) simp_all
  then show ?thesis using lifecycle.rest[OF assms(2-6), of "e_books e'"]
    unfolding internal_def assms(7) dict_set_key_list[OF assms(2)] by simp
qed

lemma put_order_fields [simp]:
  "e_orders (put_order b e) = dict_set (e_orders e) (o_id b) b" "e_working (put_order b e) = e_working e"
  "e_active (put_order b e) = e_active e" "e_fills_by_order (put_order b e) = e_fills_by_order e"
  "e_latency (put_order b e) = e_latency e" "e_pending_cancels (put_order b e) = e_pending_cancels e"
  "e_now (put_order b e) = e_now e" "e_all_fills (put_order b e) = e_all_fills e" "e_books (put_order b e) = e_books e"
  by (simp_all add: put_order_def)

lemma terminate_fields:
  assumes "\<not> is_terminal b"
  shows "e_orders (terminate st b e) = dict_set (e_orders e) (o_id b) (b\<lparr>o_state := st\<rparr>)"
    "e_working (terminate st b e) = e_working e" "e_active (terminate st b e) = dec_active (e_active e) (o_token b)"
    "e_fills_by_order (terminate st b e) = e_fills_by_order e" "e_latency (terminate st b e) = e_latency e"
    "e_pending_cancels (terminate st b e) = e_pending_cancels e" "e_now (terminate st b e) = e_now e"
    "e_all_fills (terminate st b e) = e_all_fills e" "e_books (terminate st b e) = e_books e"
  using assms by (simp_all add: terminate_def decrement_active_def)

lemma commit_fields [simp]:
  "e_orders (commit_fills (b, rb, fs) e) = dict_set (e_orders e) (o_id b) b"
  "e_working (commit_fills (b, rb, fs) e) = e_working e" "e_active (commit_fills (b, rb, fs) e) = e_active e"
  "e_fills_by_order (commit_fills (b, rb, fs) e) =
     dict_set (e_fills_by_order e) (o_id b) (dict_get_or (e_fills_by_order e) (o_id b) [] @ fs)"
  "e_latency (commit_fills (b, rb, fs) e) = e_latency e"
  "e_pending_cancels (commit_fills (b, rb, fs) e) = e_pending_cancels e"
  "e_now (commit_fills (b, rb, fs) e) = e_now e" "e_all_fills (commit_fills (b, rb, fs) e) = e_all_fills e"
  "e_books (commit_fills (b, rb, fs) e) = dict_set (e_books e) (o_token b) rb"
  by (simp_all add: commit_fills_def)

lemma order_ok_state [simp]:
  "order_ok (b\<lparr>o_state := st\<rparr>) = order_ok b" "order_ok (b\<lparr>o_reject_reason := r\<rparr>) = order_ok b"
  "order_ok (b\<lparr>o_cancelled_at := c\<rparr>) = order_ok b" "order_ok (b\<lparr>o_cancel_pending_at := c\<rparr>) = order_ok b"
  by (simp_all add: order_ok_def)

lemma terminal_state [simp]: "is_terminal (b\<lparr>o_state := st\<rparr>) = (st \<in> {FILLED, CANCELLED, REJECTED})"
  by (simp add: is_terminal_def)

lemma step_evolves:
  assumes "fill_step a rb (b, rb2, fs)"
  shows "evolves a b" "o_id b = o_id a" "o_token b = o_token a" "o_state b = o_state a" "o_fills b = o_fills a @ fs"
    "order_ok b" "is_terminal b = is_terminal a" "o_received_at b = o_received_at a"
  using assms order_core_fields(1,2,7,8)[of b a] is_terminal_core[of b a]
  by (auto simp: fill_step_def evolves_def)

lemma terminate_pending:
  assumes inv: "engine_inv e" and a: "dict_get (e_orders e) i = Some a" and pend: "o_state a = PENDING"
    and b: "o_id b = o_id a" "o_token b = o_token a" "order_ok b" "o_fills b = o_fills a" "\<not> is_terminal b"
      "o_received_at b = o_received_at a"
    and st: "st \<in> {FILLED, CANCELLED, REJECTED}"
  shows "internal e (terminate st b e)"
proof (rule finishI[OF inv a])
  have i: "o_id b = i" using stored_order(1)[OF inv a] b by simp
  show "\<not> is_terminal a" using pend by (simp add: is_terminal_def)
  show "evolves a (b\<lparr>o_state := st\<rparr>)" using b by (simp add: evolves_def)
  show "e_fills_by_order (terminate st b e) = dict_set (e_fills_by_order e) i (o_fills (b\<lparr>o_state := st\<rparr>))"
    using sync_fills[OF inv a] b by (simp add: terminate_fields)
  show "e_working (terminate st b e) = wk_remove (e_working e) (o_token a) i"
    using pending_not_working[OF inv a pend] b by (simp add: terminate_fields)
  show "e_orders (terminate st b e) = dict_set (e_orders e) i (b\<lparr>o_state := st\<rparr>)"
    using b i by (simp add: terminate_fields)
qed (use b pend st in \<open>auto simp: terminate_fields\<close>)

lemma commit_terminate_pending:
  assumes inv: "engine_inv e" and a: "dict_get (e_orders e) i = Some a" and pend: "o_state a = PENDING"
    and step: "fill_step a rb (b, rb2, fs)"
    and c: "c = b \<or> c = b\<lparr>o_cancelled_at := t\<rparr>" and st: "st \<in> {FILLED, CANCELLED, REJECTED}"
  shows "internal e (terminate st c (commit_fills (b, rb2, fs) e))"
proof (rule finishI[OF inv a])
  note b = step_evolves[OF step]
  have i: "o_id b = i" using stored_order(1)[OF inv a] b by simp
  have cf: "o_id c = i" "o_token c = o_token a" "o_fills c = o_fills b" "order_ok c" "o_received_at c = o_received_at a"
    using c b i by auto
  have nt: "\<not> is_terminal a" using pend by (simp add: is_terminal_def)
  then have nc: "\<not> is_terminal c" using c b(7) by (auto simp: is_terminal_def)
  show "\<not> is_terminal a" by (rule nt)
  show "evolves a (c\<lparr>o_state := st\<rparr>)" using cf b i stored_order(1)[OF inv a] by (simp add: evolves_def)
  show "e_fills_by_order (terminate st c (commit_fills (b, rb2, fs) e)) =
      dict_set (e_fills_by_order e) i (o_fills (c\<lparr>o_state := st\<rparr>))"
    using stored_order(3)[OF inv a] b(5) cf i nc by (simp add: terminate_fields dict_get_or_def)
  show "e_working (terminate st c (commit_fills (b, rb2, fs) e)) = wk_remove (e_working e) (o_token a) i"
    using pending_not_working[OF inv a pend] nc by (simp add: terminate_fields)
  show "e_orders (terminate st c (commit_fills (b, rb2, fs) e)) = dict_set (e_orders e) i (c\<lparr>o_state := st\<rparr>)"
    using cf i nc by (simp add: terminate_fields)
  show "e_active (terminate st c (commit_fills (b, rb2, fs) e)) = dec_active (e_active e) (o_token a)"
    using cf nc by (simp add: terminate_fields)
  show "is_terminal (c\<lparr>o_state := st\<rparr>)" using st by simp
  show "o_state a = PENDING \<or> o_state (c\<lparr>o_state := st\<rparr>) \<in> {FILLED, CANCELLED}" using pend by simp
qed (use c step_evolves(7)[OF step] pend in \<open>auto simp: terminate_fields is_terminal_def\<close>)

lemma rest_order_fields:
  "e_working (rest_order cfg st b rb e) = wk_add (e_working e) (o_token b) (o_id b)"
  "e_orders (rest_order cfg st b rb e) =
     dict_set (e_orders e) (o_id b) (snapshot_queue_position cfg (lm_submit (e_latency e)) (b\<lparr>o_state := st\<rparr>) rb)"
  "e_active (rest_order cfg st b rb e) = e_active e" "e_fills_by_order (rest_order cfg st b rb e) = e_fills_by_order e"
  "e_latency (rest_order cfg st b rb e) = e_latency e" "e_pending_cancels (rest_order cfg st b rb e) = e_pending_cancels e"
  "e_now (rest_order cfg st b rb e) = e_now e" "e_all_fills (rest_order cfg st b rb e) = e_all_fills e"
  "e_books (rest_order cfg st b rb e) = e_books e"
  using order_core_fields(1,2)[OF snapshot_queue_frame(1)[of cfg "lm_submit (e_latency e)" "b\<lparr>o_state := st\<rparr>" rb]]
  by (simp_all add: rest_order_def add_to_working_def Let_def)

lemma queued_evolves:
  assumes "evolves a b" "st \<in> {WORKING, PARTIAL}"
  shows "evolves a (snapshot_queue_position cfg pr (b\<lparr>o_state := st\<rparr>) rb)"
    "o_state (snapshot_queue_position cfg pr (b\<lparr>o_state := st\<rparr>) rb) = st"
    "o_fills (snapshot_queue_position cfg pr (b\<lparr>o_state := st\<rparr>) rb) = o_fills b"
  using assms order_core_fields(1,2,7,8)[OF snapshot_queue_frame(1)[of cfg pr "b\<lparr>o_state := st\<rparr>" rb]]
  by (simp_all add: evolves_def)

lemma rest_pending:
  assumes inv: "engine_inv e" and a: "dict_get (e_orders e) i = Some a" and pend: "o_state a = PENDING"
    and st: "st \<in> {WORKING, PARTIAL}"
  shows "internal e (rest_order cfg st a rb e)"
proof -
  have ev: "evolves a a" using stored_order(2)[OF inv a] by (simp add: evolves_def)
  note q = queued_evolves[OF ev st, of cfg "lm_submit (e_latency e)" rb]
  have "\<not> is_terminal a" using pend by (simp add: is_terminal_def)
  then show ?thesis
    by (rule restI[OF inv a _ q(1)])
       (use q st pend stored_order(1)[OF inv a] sync_fills[OF inv a] in \<open>simp_all add: rest_order_fields\<close>)
qed

lemma commit_rest_pending:
  assumes inv: "engine_inv e" and a: "dict_get (e_orders e) i = Some a" and pend: "o_state a = PENDING"
    and step: "fill_step a rb (b, rb2, fs)" and st: "st \<in> {WORKING, PARTIAL}"
  shows "internal e (rest_order cfg st b rb2 (commit_fills (b, rb2, fs) e))"
proof -
  note b = step_evolves[OF step]
  note q = queued_evolves[OF b(1) st, of cfg "lm_submit (e_latency e)" rb2]
  have "\<not> is_terminal a" using pend by (simp add: is_terminal_def)
  then show ?thesis
    by (rule restI[OF inv a _ q(1)])
       (use q b st pend stored_order(1,3)[OF inv a] in \<open>simp_all add: rest_order_fields dict_get_or_def\<close>)
qed

lemma handle_admit_lifecycle:
  assumes inv: "engine_inv e" and a: "dict_get (e_orders e) i = Some a" and pend: "o_state a = PENDING"
  shows "internal\<^sup>*\<^sup>* e (fst (handle_admit cfg a e))"
proof (cases "dict_get (e_books e) (o_token a)")
  case None
  then show ?thesis by (simp add: handle_admit_def)
next
  case (Some book)
  obtain b rb2 fs where c: "consume_levels cfg (e_now e) a book (ledger_length e a) = (b, rb2, fs)"
    using prod_cases3 by blast
  have step: "fill_step a book (b, rb2, fs)"
    using consume_levels_step[OF stored_order(2)[OF inv a], of "ledger_length e a" book cfg "e_now e"]
      stored_order(4)[OF inv a] c by simp
  have nt: "\<not> is_terminal a" using pend by (simp add: is_terminal_def)
  note ok = stored_order(2)[OF inv a]
  have t1: "internal e (terminate st (a\<lparr>o_reject_reason := r\<rparr>) e)" if "st = REJECTED" for st r
    by (rule terminate_pending[OF inv a pend]) (use that ok nt in \<open>auto simp: is_terminal_def\<close>)
  have t2: "internal e (terminate CANCELLED (a\<lparr>o_cancelled_at := t\<rparr>) e)" for t
    by (rule terminate_pending[OF inv a pend]) (use ok nt in \<open>auto simp: is_terminal_def\<close>)
  note t3 = commit_terminate_pending[OF inv a pend step]
  have t5: "internal e (terminate CANCELLED (b\<lparr>o_cancelled_at := o_received_at b\<rparr>) (commit_fills (b, rb2, fs) e))"
    by (rule t3[where t = "o_received_at b"]) auto
  note t4 = rest_pending[OF inv a pend] commit_rest_pending[OF inv a pend step]
  have "internal e (fst (handle_admit cfg a e))"
    unfolding handle_admit_def Some option.case Let_def c prod.case
    using t1[of REJECTED] t2 t3[of b] t4 t5
    by simp
  then show ?thesis by blast
qed

lemma try_match_lifecycle:
  assumes inv: "engine_inv e" and a: "dict_get (e_orders e) i = Some a" and wk: "o_state a \<in> {WORKING, PARTIAL}"
  shows "internal\<^sup>*\<^sup>* e (fst (try_match_resting cfg a e))"
proof (cases "dict_get (e_books e) (o_token a)")
  case None
  then show ?thesis by (simp add: try_match_resting_def)
next
  case (Some book)
  obtain b rb2 fs where c: "match_resting cfg a book (ledger_length e a) = (b, rb2, fs)"
    using prod_cases3 by blast
  have step: "fill_step a book (b, rb2, fs)"
    using match_resting_step[OF stored_order(2)[OF inv a], of "ledger_length e a" book cfg]
      stored_order(4)[OF inv a] c by simp
  note b = step_evolves[OF step]
  have i: "o_id a = i" and nt: "\<not> is_terminal a" "\<not> is_terminal b"
    using stored_order(1)[OF inv a] wk b by (auto simp: is_terminal_def)
  have keep: "internal e (commit_fills (b, rb2, fs) e)"
    by (rule restI[OF inv a nt(1) b(1)])
       (use b i wk stored_order(3)[OF inv a] resting_wk_add[OF inv a wk] in \<open>simp_all add: dict_get_or_def\<close>)
  have fin: "internal e (remove_from_working b (terminate FILLED b (commit_fills (b, rb2, fs) e)))"
    by (rule finishI[OF inv a nt(1), of "b\<lparr>o_state := FILLED\<rparr>"])
       (use b i nt stored_order(3)[OF inv a] in
         \<open>simp_all add: remove_from_working_def terminate_fields dict_get_or_def evolves_def\<close>)
  show ?thesis
    unfolding try_match_resting_def Some option.case Let_def c prod.case
    using keep fin by (auto simp: r_into_rtranclp)
qed

lemma apply_cancel_lifecycle:
  assumes inv: "engine_inv e"
  shows "internal\<^sup>*\<^sup>* e (apply_cancel i t e)"
proof (cases "dict_get (e_orders e) i")
  case None
  then show ?thesis by (simp add: apply_cancel_def)
next
  case (Some a)
  note ok = stored_order[OF inv Some]
  have "internal e (terminate CANCELLED (a\<lparr>o_cancelled_at := Some t\<rparr>) e)" if "o_state a = PENDING"
    by (rule terminate_pending[OF inv Some that]) (use ok that in \<open>auto simp: is_terminal_def\<close>)
  moreover have "internal e (remove_from_working a (terminate CANCELLED (a\<lparr>o_cancelled_at := Some t\<rparr>) e))"
    if "o_state a = PARTIAL \<or> o_state a = WORKING"
  proof -
    have nt: "\<not> is_terminal a" "\<not> is_terminal (a\<lparr>o_cancelled_at := Some t\<rparr>)" using that by (auto simp: is_terminal_def)
    show ?thesis
      by (rule finishI[OF inv Some nt(1), of "a\<lparr>o_cancelled_at := Some t, o_state := CANCELLED\<rparr>"])
         (use ok nt sync_fills[OF inv Some] in \<open>simp_all add: remove_from_working_def terminate_fields evolves_def\<close>)
  qed
  ultimately show ?thesis
    by (auto simp: apply_cancel_def Some r_into_rtranclp)
qed

lemma envI:
  assumes "e_orders e' = e_orders e" "e_working e' = e_working e" "e_active e' = e_active e"
    "e_fills_by_order e' = e_fills_by_order e"
  shows "internal e e'"
proof -
  have "e' = e\<lparr>e_latency := e_latency e', e_pending_cancels := e_pending_cancels e', e_books := e_books e',
      e_now := e_now e', e_all_fills := e_all_fills e'\<rparr>"
    using assms by (intro engine.equality) simp_all
  then show ?thesis using lifecycle.env[where e = e and lm = "e_latency e'" and pc = "e_pending_cancels e'" and bks = "e_books e'"
      and n = "e_now e'" and fs = "e_all_fills e'"]
    unfolding internal_def assms(1) by simp
qed

text \<open>Folds of lifecycle steps, with the invariant carried along.\<close>

lemma foldl_lifecycle:
  assumes "\<And>s x. engine_inv s \<Longrightarrow> internal\<^sup>*\<^sup>* s (f s x)" and "engine_inv e"
  shows "internal\<^sup>*\<^sup>* e (foldl f e xs)"
  using assms(2)
proof (induction xs arbitrary: e)
  case (Cons x xs)
  have "engine_inv (f e x)" using assms(1)[OF Cons.prems] Cons.prems internal_star_inv by blast
  then show ?case using Cons.IH[of "f e x"] assms(1)[OF Cons.prems, of x] by simp
qed simp

lemma foldl_lifecycle_fst:
  assumes "\<And>s x fs. engine_inv s \<Longrightarrow> internal\<^sup>*\<^sup>* s (fst (f (s, fs) x))" and "engine_inv e"
  shows "internal\<^sup>*\<^sup>* e (fst (foldl f (e, fs) xs))"
  using assms(2)
proof (induction xs arbitrary: e fs)
  case (Cons x xs)
  obtain s gs where s: "f (e, fs) x = (s, gs)" by fastforce
  have st: "internal\<^sup>*\<^sup>* e s" using assms(1)[OF Cons.prems, of fs x] s by simp
  then have "engine_inv s" using Cons.prems internal_star_inv by blast
  then show ?case using Cons.IH[of s gs] st s by simp
qed simp

lemma apply_due_cancels_lifecycle:
  assumes "engine_inv e" shows "internal\<^sup>*\<^sup>* e (apply_due_cancels now e)"
  unfolding apply_due_cancels_def
proof (rule foldl_lifecycle[OF _ assms])
  fix s :: engine and x :: "string \<times> timestamp"
  assume "engine_inv s"
  then have "internal\<^sup>*\<^sup>* s (apply_cancel (fst x) (snd x) s)" by (rule apply_cancel_lifecycle)
  moreover have "internal s' (s'\<lparr>e_pending_cancels := pc\<rparr>)" for s' pc by (rule envI) simp_all
  ultimately show "internal\<^sup>*\<^sup>* s (case x of (oid, effective_at) \<Rightarrow>
      if effective_at \<le> now then let s1 = apply_cancel oid effective_at s
        in s1\<lparr>e_pending_cancels := dict_pop (e_pending_cancels s1) oid\<rparr> else s)"
    by (auto simp: Let_def split: prod.splits intro: rtranclp.rtrancl_into_rtrancl)
qed

lemma touch_put:
  assumes "engine_inv e" "dict_get (e_orders e) i = Some a" "o_id b = o_id a" "o_token b = o_token a" "order_ok b"
    "o_fills b = o_fills a" "o_state b = o_state a" "o_received_at b = o_received_at a" "is_terminal a \<longrightarrow> b = a"
  shows "internal e (put_order b e)"
  using lifecycle.touch[OF assms(2), of b] assms stored_order(1)[OF assms(1,2)]
  by (simp add: internal_def evolves_def put_order_def dict_set_key_list)

lemma advance_queue_terminal: "is_terminal a \<Longrightarrow> advance_queue tf ob nb a = a"
  by (simp add: advance_queue_def)

lemma refresh_book_lifecycle:
  assumes inv: "engine_inv e" shows "internal\<^sup>*\<^sup>* e (refresh_book cfg snap e)"
proof -
  let ?e1 = "e\<lparr>e_books := dict_set (e_books e) (s_token snap) (fresh_book snap)\<rparr>"
  have s1: "internal e ?e1" by (rule envI) simp_all
  then have inv1: "engine_inv ?e1" using inv internal_inv by blast
  have "internal\<^sup>*\<^sup>* s (case dict_get (e_orders s) oid of None \<Rightarrow> s
      | Some o' \<Rightarrow> put_order (advance_queue (mc_trade_fraction cfg) old (fresh_book snap) o') s)"
    if "engine_inv s" for s oid old
  proof (cases "dict_get (e_orders s) oid")
    case (Some a)
    note core = advance_queue_frame(1)[of "mc_trade_fraction cfg" old "fresh_book snap" a]
    show ?thesis using touch_put[OF that Some] order_core_fields(1,2,7,8)[OF core] stored_order(2)[OF that Some]
      by (simp add: Some advance_queue_terminal r_into_rtranclp)
  qed simp
  then have "internal\<^sup>*\<^sup>* ?e1 (foldl (\<lambda>s oid. case dict_get (e_orders s) oid of None \<Rightarrow> s
      | Some o' \<Rightarrow> put_order (advance_queue (mc_trade_fraction cfg) old (fresh_book snap) o') s) ?e1 ids)" for old ids
    by (rule foldl_lifecycle[OF _ inv1])
  then show ?thesis using s1
    by (auto simp: refresh_book_def Let_def split: option.splits intro: converse_rtranclp_into_rtranclp)
qed

lemma admit_due_lifecycle:
  "engine_inv s \<Longrightarrow> internal\<^sup>*\<^sup>* s (fst (admit_due cfg token now oid (s, fs)))"
  using handle_admit_lifecycle[of s oid _ cfg]
  by (auto simp: admit_due_def Let_def split: option.splits prod.splits)

lemma legal_not_pending: "legal s t \<Longrightarrow> s \<noteq> PENDING \<Longrightarrow> t \<noteq> PENDING"
  by (cases s) auto

lemma match_working_lifecycle:
  assumes inv: "engine_inv s" and np: "\<And>a. dict_get (e_orders s) oid = Some a \<Longrightarrow> o_state a \<noteq> PENDING"
  shows "internal\<^sup>*\<^sup>* s (fst (match_working cfg oid (s, fs)))"
proof (cases "dict_get (e_orders s) oid")
  case (Some a)
  have "o_state a \<in> {WORKING, PARTIAL}" if "\<not> is_terminal a"
    using np[OF Some] that by (cases "o_state a") (auto simp: is_terminal_def)
  then show ?thesis using try_match_lifecycle[OF inv Some, of cfg]
    by (cases "is_terminal a") (auto simp: match_working_def Some Let_def split: prod.splits)
qed (simp add: match_working_def)

lemma match_all_lifecycle:
  assumes "engine_inv e" "\<And>oid a. oid \<in> set ids \<Longrightarrow> dict_get (e_orders e) oid = Some a \<Longrightarrow> o_state a \<noteq> PENDING"
    "\<And>oid. oid \<in> set ids \<Longrightarrow> dict_get (e_orders e) oid \<noteq> None"
  shows "internal\<^sup>*\<^sup>* e (fst (foldl (\<lambda>acc oid. match_working cfg oid acc) (e, fs) ids))"
  using assms
proof (induction ids arbitrary: e fs)
  case (Cons i ids)
  obtain s gs where s: "match_working cfg i (e, fs) = (s, gs)" by fastforce
  have st: "internal\<^sup>*\<^sup>* e s" using match_working_lifecycle[OF Cons.prems(1), of i cfg fs] Cons.prems(2)[of i] s by simp
  have "engine_inv s" using st Cons.prems(1) internal_star_inv by blast
  moreover have "o_state b \<noteq> PENDING" if m: "oid \<in> set ids" and b: "dict_get (e_orders s) oid = Some b" for oid b
  proof -
    obtain c where c: "dict_get (e_orders e) oid = Some c" using Cons.prems(3)[of oid] m by auto
    then have "o_state c \<noteq> PENDING" using Cons.prems(2)[of oid] m by simp
    then show ?thesis using internal_star_leads[OF st c] b legal_not_pending by (auto simp: order_leads_def)
  qed
  moreover have "dict_get (e_orders s) oid \<noteq> None" if m: "oid \<in> set ids" for oid
    using internal_star_leads[OF st] Cons.prems(3)[of oid] m by fastforce
  ultimately have "internal\<^sup>*\<^sup>* s (fst (foldl (\<lambda>acc oid. match_working cfg oid acc) (s, gs) ids))"
    by (rule Cons.IH)
  then show ?case using st s by simp
qed simp

text \<open>The stages of \<open>advance_to\<close>: after the book refresh, after admission, after re-matching.\<close>

lemma refresh_steps:
  assumes inv: "engine_inv e"
    and e2: "e2 = refresh_book cfg snap (apply_due_cancels (s_observed_at snap) (e\<lparr>e_now := Some (s_observed_at snap)\<rparr>))"
  shows "internal\<^sup>*\<^sup>* e e2"
proof -
  let ?e0 = "e\<lparr>e_now := Some (s_observed_at snap)\<rparr>"
  have s0: "internal e ?e0" by (rule envI) simp_all
  have i0: "engine_inv ?e0" using inv s0 internal_inv by blast
  note s1 = apply_due_cancels_lifecycle[OF i0, of "s_observed_at snap"]
  have "engine_inv (apply_due_cancels (s_observed_at snap) ?e0)" using s1 i0 internal_star_inv by blast
  note s2 = refresh_book_lifecycle[OF this, of cfg snap, folded e2]
  show ?thesis using s0 s1 s2 by (meson converse_rtranclp_into_rtranclp rtranclp_trans)
qed

lemma advance_to_steps:
  assumes inv: "engine_inv e"
    and e2: "e2 = refresh_book cfg snap (apply_due_cancels (s_observed_at snap) (e\<lparr>e_now := Some (s_observed_at snap)\<rparr>))"
    and e3: "foldl (\<lambda>acc oid. admit_due cfg (s_token snap) (s_observed_at snap) oid acc) (e2, []) (map fst (e_orders e2)) = (e3, p3)"
    and e4: "foldl (\<lambda>acc oid. match_working cfg oid acc) (e3, p3) (dict_get_or (e_working e3) (s_token snap) []) = (e4, p4)"
  shows "engine_inv e2" "internal\<^sup>*\<^sup>* e e3" "internal\<^sup>*\<^sup>* e3 e4"
proof -
  let ?now = "s_observed_at snap" and ?tok = "s_token snap"
  note s2 = refresh_steps[OF inv e2]
  show i2: "engine_inv e2" using s2 inv internal_star_inv by blast
  have s3: "internal\<^sup>*\<^sup>* e2 e3"
    using foldl_lifecycle_fst[where f = "\<lambda>acc oid. admit_due cfg ?tok ?now oid acc" and fs = "[]"
        and xs = "map fst (e_orders e2)", OF admit_due_lifecycle i2] e3 by simp
  have i3: "engine_inv e3" using s3 i2 internal_star_inv by blast
  have wk: "resting e3 ?tok oid" if "oid \<in> set (dict_get_or (e_working e3) ?tok [])" for oid
    using that engine_inv_parts(3)[OF i3] by (simp add: working_inv_def)
  show "internal\<^sup>*\<^sup>* e3 e4"
    using match_all_lifecycle[OF i3, of "dict_get_or (e_working e3) ?tok []" cfg p3] wk e4
    by (force simp: resting_def split: option.splits)
  show "internal\<^sup>*\<^sup>* e e3" using s2 s3 by (rule rtranclp_trans)
qed

lemma advance_to_parts:
  assumes "advance_to cfg snap e = Inr (produced, e')"
  obtains e2 e3 p3 e4 where
    "e2 = refresh_book cfg snap (apply_due_cancels (s_observed_at snap) (e\<lparr>e_now := Some (s_observed_at snap)\<rparr>))"
    "foldl (\<lambda>acc oid. admit_due cfg (s_token snap) (s_observed_at snap) oid acc) (e2, []) (map fst (e_orders e2)) = (e3, p3)"
    "foldl (\<lambda>acc oid. match_working cfg oid acc) (e3, p3) (dict_get_or (e_working e3) (s_token snap) []) = (e4, produced)"
    "e' = e4\<lparr>e_all_fills := e_all_fills e4 @ produced\<rparr>"
  using assms by (auto simp: advance_to_def Let_def case_prod_unfold prod_eq_iff split: if_splits)

lemma advance_to_lifecycle:
  assumes inv: "engine_inv e" and adv: "advance_to cfg snap e = Inr (produced, e')"
  shows "internal\<^sup>*\<^sup>* e e'"
proof -
  obtain e2 e3 p3 e4 where p:
    "e2 = refresh_book cfg snap (apply_due_cancels (s_observed_at snap) (e\<lparr>e_now := Some (s_observed_at snap)\<rparr>))"
    "foldl (\<lambda>acc oid. admit_due cfg (s_token snap) (s_observed_at snap) oid acc) (e2, []) (map fst (e_orders e2)) = (e3, p3)"
    "foldl (\<lambda>acc oid. match_working cfg oid acc) (e3, p3) (dict_get_or (e_working e3) (s_token snap) []) = (e4, produced)"
    "e' = e4\<lparr>e_all_fills := e_all_fills e4 @ produced\<rparr>"
    using advance_to_parts[OF adv] by blast
  have "internal e4 e'" unfolding p(4) by (rule envI) simp_all
  then show ?thesis using advance_to_steps(2,3)[OF inv p(1-3)]
    by (meson rtranclp.rtrancl_into_rtrancl rtranclp_trans)
qed

definition fresh_order :: "order \<Rightarrow> bool" where
  "fresh_order o' \<longleftrightarrow> o_filled o' = 0 \<and> o_avg_price o' = 0 \<and> o_fills o' = []"

lemma fresh_order_ok: "fresh_order o' \<Longrightarrow> order_ok o'"
  by (simp add: fresh_order_def order_ok_def)

lemma submit_lifecycle:
  assumes fresh: "fresh_order n" and sub: "submit cfg n e = Inr (n', e')"
  shows "lifecycle\<^sup>*\<^sup>* e e'"
proof -
  let ?d = "validate_submit (mc_rules cfg) (o_side n) (o_price n) (o_size n) (o_tif n) (o_post_only n)"
  have new: "dict_get (e_orders e) (o_id n) = None" using sub by (auto simp: submit_def split: if_splits)
  have fo: "o_filled n = 0" "o_avg_price n = 0" "o_fills n = []" using fresh by (simp_all add: fresh_order_def)
  show ?thesis
  proof (cases "d_ok ?d")
    case False
    then have n': "n' = n\<lparr>o_state := REJECTED, o_reject_reason := d_reject_reason ?d\<rparr>"
      and e': "e' = (put_order n' e)\<lparr>e_fills_by_order := dict_set (e_fills_by_order e) (o_id n) []\<rparr>"
      using sub new by (auto simp: submit_def Let_def)
    have "lifecycle e e'" unfolding e' put_order_def
      using lifecycle.refuse[of e n'] new fo by (simp add: n' order_ok_def)
    then show ?thesis by blast
  next
    case True
    obtain l lm where l: "sample_submit_ms (Some (o_submitted_at n)) (e_latency e) = (l, lm)" by fastforce
    let ?n = "n\<lparr>o_price := effective_price ?d (o_price n), o_size := effective_size ?d (o_size n),
        o_received_at := Some (o_submitted_at n + timedelta_ms l), o_state := PENDING\<rparr>"
    let ?m = "e\<lparr>e_orders := dict_set (e_orders e) (o_id ?n) ?n,
        e_active := dict_set (e_active e) (o_token ?n) (dict_get_or (e_active e) (o_token ?n) 0 + 1),
        e_fills_by_order := dict_set (e_fills_by_order e) (o_id ?n) []\<rparr>"
    have e': "e' = ?m\<lparr>e_latency := lm\<rparr>"
      using sub new True l by (auto simp: submit_def Let_def put_order_def)
    have "lifecycle e ?m" using new fo by (intro lifecycle.accept) (simp_all add: order_ok_def)
    moreover have "internal ?m e'" unfolding e' by (rule envI) simp_all
    then have "lifecycle ?m e'" by (simp only: internal_def)
    ultimately show ?thesis by (meson converse_rtranclp_into_rtranclp r_into_rtranclp)
  qed
qed

lemma cancel_lifecycle:
  assumes inv: "engine_inv e" and c: "cancel oid t e = (r, e')"
  shows "internal\<^sup>*\<^sup>* e e'"
proof (cases "dict_get (e_orders e) oid")
  case None
  then show ?thesis using c by (simp add: cancel_def)
next
  case (Some a)
  show ?thesis
  proof (cases "is_terminal a \<or> dict_get (e_pending_cancels e) oid \<noteq> None")
    case True
    then show ?thesis using c Some by (auto simp: cancel_def split: if_splits)
  next
    case False
    obtain l lm where l: "sample_cancel_ms (Some t) (e_latency e) = (l, lm)" by fastforce
    let ?b = "a\<lparr>o_cancel_pending_at := Some (t + timedelta_ms l)\<rparr>"
    have "internal e (put_order ?b e)"
      by (rule touch_put[OF inv Some]) (use False stored_order(2)[OF inv Some] in simp_all)
    moreover have "internal (put_order ?b e) e'"
      by (rule envI) (use c Some False l in \<open>auto simp: cancel_def Let_def put_order_def\<close>)
    ultimately show ?thesis by (meson converse_rtranclp_into_rtranclp r_into_rtranclp)
  qed
qed

end
