(* ===== verification/Taker.thy ===== *)
theory Taker
  imports Matching
begin

text \<open>
  The taker side of the matching engine: what \<open>_consume_levels\<close> fills is the reference walk
  over the residual ladder, from which the properties of \<open>_handle_admit\<close> for every
  time-in-force follow.
\<close>

section \<open>The residual ladder\<close>

definition residual_ladder :: "residual_book \<Rightarrow> string \<Rightarrow> price_level list" where
  "residual_ladder rb sd =
     map mk_level (if sd = ''SELL'' then remaining_bids rb else remaining_asks rb)"

lemma remaining_prices:
  "map fst (remaining_bids rb) = map lvl_price (bids (rb_snapshot rb))"
  "map fst (remaining_asks rb) = map lvl_price (asks (rb_snapshot rb))"
  by (simp_all add: remaining_bids_def remaining_asks_def remaining_levels_def comp_def)

lemma remaining_nonneg:
  "(p, q) \<in> set (remaining_bids rb) \<Longrightarrow> 0 \<le> q" "(p, q) \<in> set (remaining_asks rb) \<Longrightarrow> 0 \<le> q"
  by (auto simp: remaining_bids_def remaining_asks_def remaining_levels_def)

lemma ladder_prices:
  "map lvl_price (map mk_level xs) = map fst xs"
  by (induction xs) (auto simp: mk_level_def)

lemma residual_ladders:
  assumes "wf_snapshot (rb_snapshot rb)"
  shows "bid_ladder.ladder (residual_ladder rb ''SELL'')" "ask_ladder.ladder (residual_ladder rb ''BUY'')"
proof -
  have "sorted_wrt (\<lambda>p p'. p' \<le> p) (map fst (remaining_bids rb))" "sorted_wrt (\<le>) (map fst (remaining_asks rb))"
    using assms unfolding remaining_prices by (simp_all add: wf_snapshot_def)
  then show "bid_ladder.ladder (residual_ladder rb ''SELL'')" "ask_ladder.ladder (residual_ladder rb ''BUY'')"
    unfolding residual_ladder_def bid_ladder.ladder_def ask_ladder.ladder_def ladder_prices
    using remaining_nonneg by (fastforce simp: ladder_prices mk_level_def)+
qed

lemma level_out_crosses:
  "level_out ''SELL'' L = sell_crosses (Some L)" "level_out ''BUY'' L = buy_crosses (Some L)"
  by (simp_all add: fun_eq_iff level_out_def sell_crosses_def buy_crosses_def)

lemma available_is_accessible:
  "available_for_taker rb ''SELL'' p = bid_ladder.accessible (Some p) (residual_ladder rb ''SELL'')"
  "available_for_taker rb ''BUY'' p = ask_ladder.accessible (Some p) (residual_ladder rb ''BUY'')"
proof -
  have gen: "sum_list (map snd (filter (\<lambda>(p, q). P p) xs)) =
      sum_list (map lvl_size (filter (\<lambda>l. P (lvl_price l)) (map mk_level xs)))"
    for P and xs :: "(pyfloat \<times> pyfloat) list"
    by (induction xs) (auto simp: mk_level_def)
  have s: "(\<lambda>l. \<not> sell_crosses (Some p) (lvl_price l)) = (\<lambda>l. lvl_price l \<ge> p - eps12)"
    and b: "(\<lambda>l. \<not> buy_crosses (Some p) (lvl_price l)) = (\<lambda>l. lvl_price l \<le> p + eps12)"
    by (auto simp: sell_crosses_def buy_crosses_def)
  show "available_for_taker rb ''SELL'' p = bid_ladder.accessible (Some p) (residual_ladder rb ''SELL'')"
    unfolding bid_ladder.accessible_def s residual_ladder_def
    using gen[of "\<lambda>x. p - eps12 \<le> x"] by (simp add: available_for_taker_def)
  show "available_for_taker rb ''BUY'' p = ask_ladder.accessible (Some p) (residual_ladder rb ''BUY'')"
    unfolding ask_ladder.accessible_def b residual_ladder_def
    using gen[of "\<lambda>x. x \<le> p + eps12"] by (simp add: available_for_taker_def)
qed

section \<open>The taker walk\<close>

text \<open>Once a level is out of reach, the walk over the levels behind it fills nothing.\<close>

lemma walk_all_out:
  "\<forall>l\<in>set ls. c (lvl_price l) \<Longrightarrow> walk_loop c r ls = []"
  by (cases ls) auto

lemma consume_loop_all_out:
  "\<forall>(p, q)\<in>set ls. level_out sd (o_price o') p \<Longrightarrow> consume_loop cfg now ib sd ls r o' rb idx = (o', rb, [])"
  by (induction ls) auto

definition monotone_out :: "string \<Rightarrow> pyfloat \<Rightarrow> (pyfloat \<times> pyfloat) list \<Rightarrow> bool" where
  "monotone_out sd L ls \<longleftrightarrow> sorted_wrt (\<lambda>x y. level_out sd L (fst x) \<longrightarrow> level_out sd L (fst y)) ls"

lemma consume_loop_walks:
  "monotone_out sd (o_price o') ls \<Longrightarrow>
   map (\<lambda>f. (f_price f, f_size f)) (snd (snd (consume_loop cfg now ib sd ls r o' rb idx))) =
   map (\<lambda>(p, q). (adjusted_price sd (ib / 10000) p, q))
     (walk_loop (level_out sd (o_price o')) r (map mk_level ls))"
proof (induction cfg now ib sd ls r o' rb idx rule: consume_loop.induct)
  case (2 cfg now ib sd price qty ls r o' rb idx)
  let ?ls = "map mk_level ls" and ?out = "level_out sd (o_price o')"
  have mono: "monotone_out sd (o_price o') ls" using 2(3) by (simp add: monotone_out_def)
  have tail: "\<forall>(p, q)\<in>set ls. ?out p" if "?out price" using 2(3) that by (auto simp: monotone_out_def)
  consider "r \<le> 0" | "0 < r" "qty \<le> 0" "?out price" | "0 < r" "qty \<le> 0" "\<not> ?out price"
    | "0 < r" "0 < qty" "?out price" | "0 < r" "0 < qty" "\<not> ?out price" by linarith
  then show ?case
  proof cases
    case 2
    then show ?thesis using tail consume_loop_all_out[of ls sd o' cfg now ib r rb idx] by (simp add: mk_level_def)
  next
    case 3
    then show ?thesis using 2(1) mono by (simp add: mk_level_def Let_def)
  next
    case 5
    let ?f = "taker_fill cfg now ib sd o' rb price (min qty r) idx"
    have "monotone_out sd (o_price (book_fill o' ?f)) ls" using mono by simp
    note IH = 2(2)[OF _ _ _ refl refl this]
    have "\<not> min qty r \<le> 0" using 5 by simp
    then show ?thesis using 5 IH by (simp add: mk_level_def Let_def case_prod_unfold del: min_less_iff_conj min_le_iff_disj)
  qed (simp_all add: mk_level_def)
qed simp


lemma monotone_remaining:
  assumes "wf_snapshot (rb_snapshot rb)"
  shows "monotone_out ''SELL'' L (remaining_bids rb)" "monotone_out ''BUY'' L (remaining_asks rb)"
proof -
  have "sorted_wrt (\<lambda>p p'. p' \<le> p) (map fst (remaining_bids rb))" "sorted_wrt (\<le>) (map fst (remaining_asks rb))"
    using assms unfolding remaining_prices by (simp_all add: wf_snapshot_def)
  then show "monotone_out ''SELL'' L (remaining_bids rb)" "monotone_out ''BUY'' L (remaining_asks rb)"
    unfolding sorted_wrt_map monotone_out_def
    by (auto elim!: sorted_wrt_mono_rel[rotated] simp: level_out_def)
qed

definition taker_impact_bps :: "match_config \<Rightarrow> order \<Rightarrow> residual_book \<Rightarrow> pyfloat" where
  "taker_impact_bps cfg o' rb =
     (let sd = py_upper (o_side o') in
      adverse_bps (mc_impact cfg) (remaining_size o')
        (visible_depth sd (o_price o') (if sd = ''SELL'' then remaining_bids rb else remaining_asks rb)))"

lemma consume_levels_walks:
  assumes wf: "wf_snapshot (rb_snapshot rb)" and sd: "py_upper (o_side o') \<in> {''SELL'', ''BUY''}"
  shows "map (\<lambda>f. (f_price f, f_size f)) (snd (snd (consume_levels cfg now o' rb idx))) =
    map (\<lambda>(p, q). (adjusted_price (py_upper (o_side o')) (taker_impact_bps cfg o' rb / 10000) p, q))
      (walk_loop (level_out (py_upper (o_side o')) (o_price o')) (remaining_size o')
        (residual_ladder rb (py_upper (o_side o'))))"
proof (cases "remaining_size o' \<le> 0")
  case True
  then show ?thesis by (simp add: consume_levels_def Let_def walk_loop_done)
next
  case False
  then show ?thesis
    using sd monotone_remaining[OF wf, of "o_price o'"]
    unfolding consume_levels_def Let_def residual_ladder_def taker_impact_bps_def if_not_P[OF False]
    by (elim insertE emptyE) (simp_all add: consume_loop_walks)
qed

lemma consume_levels_total:
  assumes wf: "wf_snapshot (rb_snapshot rb)" and sd: "py_upper (o_side o') \<in> {''SELL'', ''BUY''}"
  shows "sum_list (map f_size (snd (snd (consume_levels cfg now o' rb idx)))) =
    min (remaining_size o') (available_for_taker rb (py_upper (o_side o')) (o_price o'))"
proof -
  have nn: "0 \<le> remaining_size o'" by (simp add: remaining_size_def)
  let ?fs = "snd (snd (consume_levels cfg now o' rb idx))"
  have "map f_size ?fs = map snd (map (\<lambda>f. (f_price f, f_size f)) ?fs)" by simp
  also have "\<dots> = map snd (walk_loop (level_out (py_upper (o_side o')) (o_price o')) (remaining_size o')
        (residual_ladder rb (py_upper (o_side o'))))"
    unfolding consume_levels_walks[OF assms] by (simp add: comp_def case_prod_unfold)
  finally show ?thesis
    using sd bid_ladder.walk_total[OF residual_ladders(1)[OF wf] nn, of "Some (o_price o')"]
      ask_ladder.walk_total[OF residual_ladders(2)[OF wf] nn, of "Some (o_price o')"]
    by (elim insertE emptyE) (simp_all add: level_out_crosses available_is_accessible)
qed

lemma fill_step_filled:
  assumes "fill_step a rb (b, rb2, fs)" "order_ok a"
  shows "o_filled b = o_filled a + sum_list (map f_size fs)"
  using assms order_okD(3)[of a] order_okD(3)[of b] by (simp add: fill_step_def)

lemma fresh_residual_ladder:
  assumes "wf_snapshot s"
  shows "residual_ladder (fresh_book s) ''SELL'' = bids s" "residual_ladder (fresh_book s) ''BUY'' = asks s"
proof -
  have "map mk_level (remaining_levels [] ls) = ls" if "list_all (\<lambda>l. 0 \<le> lvl_size l) ls" for ls
    using that by (induction ls) (simp_all add: remaining_levels_def mk_level_def)
  then show "residual_ladder (fresh_book s) ''SELL'' = bids s" "residual_ladder (fresh_book s) ''BUY'' = asks s"
    using assms by (simp_all add: residual_ladder_def remaining_bids_def remaining_asks_def fresh_book_def wf_snapshot_def)
qed

section \<open>Properties of admission\<close>

lemma is_terminal_core_state: "is_terminal (b\<lparr>o_state := st\<rparr>) \<longleftrightarrow> st \<in> {FILLED, CANCELLED, REJECTED}"
  by (simp add: is_terminal_def)

text \<open>The order an admission leaves in the table.\<close>

definition admitted :: "match_config \<Rightarrow> order \<Rightarrow> engine \<Rightarrow> order" where
  "admitted cfg o' e = (case dict_get (e_orders (fst (handle_admit cfg o' e))) (o_id o') of
     Some b \<Rightarrow> b | None \<Rightarrow> o')"

lemma terminate_get:
  assumes "\<not> is_terminal b" "o_id b = i"
  shows "dict_get (e_orders (terminate st b e)) i = Some (b\<lparr>o_state := st\<rparr>)"
  using assms by (simp add: terminate_fields)

lemma rest_order_get:
  assumes "o_id b = i"
  shows "dict_get (e_orders (rest_order cfg st b rb e)) i =
    Some (snapshot_queue_position cfg (lm_submit (e_latency e)) (b\<lparr>o_state := st\<rparr>) rb)"
  using assms order_core_fields(1)[OF snapshot_queue_frame(1), of cfg "lm_submit (e_latency e)" "b\<lparr>o_state := st\<rparr>" rb]
  by (simp add: rest_order_def Let_def add_to_working_def put_order_def)

text \<open>
  C26: A fill-or-kill order is atomic: admitted against a well-formed book it is either rejected
  without a fill, leaving every book as it was, or filled for its whole size (up to the code's
  tolerance of 1e-12).
\<close>

theorem fok_atomic:
  assumes book: "dict_get (e_books e) (o_token o') = Some rb" and wf: "wf_snapshot (rb_snapshot rb)"
    and side: "py_upper (o_side o') \<in> {''SELL'', ''BUY''}" and tif: "tif_or_gtc (o_tif o') = TIF_FOK"
    and fresh: "fresh_order o'" and pend: "o_state o' = PENDING" and size: "0 < o_size o'"
    and led: "dict_get (e_fills_by_order e) (o_id o') = Some []"
  shows "(o_state (admitted cfg o' e) = REJECTED \<and> snd (handle_admit cfg o' e) = [] \<and>
           o_filled (admitted cfg o' e) = 0 \<and> e_books (fst (handle_admit cfg o' e)) = e_books e)
       \<or> (o_state (admitted cfg o' e) = FILLED \<and> o_size o' - eps12 \<le> o_filled (admitted cfg o' e) \<and>
           o_filled (admitted cfg o' e) \<le> o_size o' \<and>
           o_filled (admitted cfg o' e) = sum_list (map f_size (snd (handle_admit cfg o' e))))"
proof -
  have nt: "\<not> is_terminal (o'\<lparr>o_reject_reason := x\<rparr>)" for x using pend by (simp add: is_terminal_def)
  have z: "o_filled o' = 0" using fresh by (simp add: fresh_order_def)
  let ?cross = "o_post_only o' \<and> crosses_book (o_side o') (o_price o') (best_bid (rb_snapshot rb)) (best_ask (rb_snapshot rb))"
  let ?short = "available_for_taker rb (o_side o') (o_price o') + eps12 < o_size o'"
  show ?thesis
  proof (cases "?cross \<or> ?short")
    case True
    have "\<exists>r. handle_admit cfg o' e = (terminate REJECTED (o'\<lparr>o_reject_reason := r\<rparr>) e, [])"
      using True by (auto simp: handle_admit_def book tif Let_def)
    then obtain r where r: "handle_admit cfg o' e = (terminate REJECTED (o'\<lparr>o_reject_reason := r\<rparr>) e, [])" ..
    have "e_books (terminate REJECTED (o'\<lparr>o_reject_reason := r\<rparr>) e) = e_books e"
      using terminate_fields[OF nt[of r]] by simp
    then show ?thesis using terminate_get[OF nt, of _ "o_id o'"] z by (simp add: admitted_def r)
  next
    case False
    obtain b rb2 fs where c: "consume_levels cfg (e_now e) o' rb (ledger_length e o') = (b, rb2, fs)"
      using prod_cases3 by blast
    have "ledger_length e o' = length (o_fills o')" using led fresh
      by (simp add: ledger_length_def dict_get_or_def fresh_order_def)
    then have st: "fill_step o' rb (b, rb2, fs)"
      using consume_levels_step[OF fresh_order_ok[OF fresh], of "ledger_length e o'" rb cfg "e_now e"] c by simp
    note ev = step_evolves[OF st]
    have adm: "handle_admit cfg o' e = (terminate FILLED b (commit_fills (b, rb2, fs) e), fs)"
      using False by (auto simp: handle_admit_def book tif Let_def c)
    have "\<not> is_terminal b" using ev pend by (simp add: is_terminal_def)
    then have get: "admitted cfg o' e = b\<lparr>o_state := FILLED\<rparr>"
      using terminate_get[of b "o_id o'" FILLED] ev by (simp add: admitted_def adm)
    have "sum_list (map f_size fs) = min (o_size o') (available_for_taker rb (py_upper (o_side o')) (o_price o'))"
      using consume_levels_total[OF wf side, of cfg "e_now e" "ledger_length e o'"] c z size
      by (simp add: remaining_size_def)
    moreover have "available_for_taker rb (py_upper (o_side o')) = available_for_taker rb (o_side o')"
      using side by (auto simp: fun_eq_iff available_for_taker_def)
    ultimately show ?thesis using False fill_step_filled[OF st fresh_order_ok[OF fresh]] z get adm
      by (auto simp: min_def eps12_def)
  qed
qed

definition sample_config :: match_config where
  "sample_config = mk_config polymarket_rules default_fee_model default_impact_model None 1"

definition sample_engine :: "string list \<Rightarrow> engine" where
  "sample_engine oids = (init_engine (deterministic (\<lambda>_. 0) 1 1))
     \<lparr>e_books := [(''t'', fresh_book (sample_book ''t'' 0))], e_fills_by_order := map (\<lambda>i. (i, [])) oids\<rparr>"

definition sample_order :: "string \<Rightarrow> bool \<Rightarrow> order" where
  "sample_order tif po = new_order ''a'' ''t'' ''BUY'' (53 / 100) 25 tif po 0"

lemma sample_engine_simps [simp]:
  "dict_get (e_books (sample_engine oids)) ''t'' = Some (fresh_book (sample_book ''t'' 0))"
  "dict_get (e_fills_by_order (sample_engine [''a''])) ''a'' = Some []"
  by (simp_all add: sample_engine_def init_engine_def dict_get_def)

lemma sample_order_simps [simp]:
  "o_id (sample_order tif po) = ''a''" "o_token (sample_order tif po) = ''t''" "o_side (sample_order tif po) = ''BUY''"
  "o_price (sample_order tif po) = 53 / 100" "o_size (sample_order tif po) = 25" "o_tif (sample_order tif po) = tif"
  "o_post_only (sample_order tif po) = po" "o_state (sample_order tif po) = PENDING" "fresh_order (sample_order tif po)"
  "o_filled (sample_order tif po) = 0"
  by (simp_all add: sample_order_def new_order_def fresh_order_def)

lemma sample_book_fresh_wf: "wf_snapshot (rb_snapshot (fresh_book (sample_book t a)))"
  by (simp add: fresh_book_def sample_book_wf)

lemma sample_tifs:
  "tif_or_gtc ''FOK'' = TIF_FOK" "tif_or_gtc ''IOC'' = TIF_IOC" "tif_or_gtc ''GTC'' = TIF_GTC"
  by code_simp+

theorem fok_atomic_witness:
  "let o' = sample_order ''FOK'' False; e = sample_engine [''a''] in
   o_state (admitted sample_config o' e) = REJECTED \<or>
   (o_state (admitted sample_config o' e) = FILLED \<and> 25 - eps12 \<le> o_filled (admitted sample_config o' e))"
  unfolding Let_def
  using fok_atomic[of "sample_engine [''a'']" "sample_order ''FOK'' False", OF _ sample_book_fresh_wf[of "''t''" 0], of sample_config]
  by (auto simp: sample_tifs)

text \<open>A step that ends an order in a terminal state, without touching the working lists.\<close>

definition ends_terminal :: "order \<Rightarrow> engine \<Rightarrow> engine \<times> fill list \<Rightarrow> bool" where
  "ends_terminal o' e p \<longleftrightarrow> (\<exists>st s x fs'. p = (terminate st x s, fs') \<and> \<not> is_terminal x \<and> o_id x = o_id o' \<and>
      st \<in> {FILLED, CANCELLED, REJECTED} \<and> e_working s = e_working e)"

lemma ends_terminalI:
  "\<not> is_terminal x \<Longrightarrow> o_id x = o_id o' \<Longrightarrow> st \<in> {FILLED, CANCELLED, REJECTED} \<Longrightarrow> e_working s = e_working e \<Longrightarrow>
   ends_terminal o' e (terminate st x s, fs')"
  unfolding ends_terminal_def by blast

text \<open>
  An immediate-or-cancel or fill-and-kill order never rests: once the venue admits it, it is in
  a terminal state, and the working lists are as they were.
\<close>

theorem ioc_never_rests:
  assumes book: "dict_get (e_books e) (o_token o') = Some rb"
    and tif: "tif_or_gtc (o_tif o') \<in> {TIF_IOC, TIF_FAK}"
    and ok: "order_ok o'" and led: "dict_get (e_fills_by_order e) (o_id o') = Some (o_fills o')" and pend: "o_state o' = PENDING"
  shows "is_terminal (admitted cfg o' e) \<and> e_working (fst (handle_admit cfg o' e)) = e_working e"
proof -
  have nf: "tif_or_gtc (o_tif o') \<noteq> TIF_FOK" using tif by (auto simp: TIF_IOC_def TIF_FAK_def TIF_FOK_def)
  obtain b rb2 fs where c: "consume_levels cfg (e_now e) o' rb (ledger_length e o') = (b, rb2, fs)"
    using prod_cases3 by blast
  have "ledger_length e o' = length (o_fills o')" using led by (simp add: ledger_length_def dict_get_or_def)
  then have st: "fill_step o' rb (b, rb2, fs)"
    using consume_levels_step[OF ok, of "ledger_length e o'" rb cfg "e_now e"] c by simp
  note ev = step_evolves[OF st]
  have nt: "\<not> is_terminal (o'\<lparr>o_reject_reason := r\<rparr>)" "\<not> is_terminal (o'\<lparr>o_cancelled_at := q\<rparr>)"
      "\<not> is_terminal b" "\<not> is_terminal (b\<lparr>o_cancelled_at := q\<rparr>)" for r q
    using ev pend by (simp_all add: is_terminal_def)
  have "ends_terminal o' e (handle_admit cfg o' e)"
    unfolding handle_admit_def book option.case Let_def c prod.case if_not_P[OF nf]
    using tif ev nt by (auto intro!: ends_terminalI)
  then obtain st s x fs' where h: "handle_admit cfg o' e = (terminate st x s, fs')" "\<not> is_terminal x" "o_id x = o_id o'"
      "st \<in> {FILLED, CANCELLED, REJECTED}" "e_working s = e_working e"
    unfolding ends_terminal_def by blast
  show ?thesis using terminate_get[OF h(2,3), of st s] terminate_fields(2)[OF h(2), of st s] h
    by (simp add: admitted_def)
qed

theorem ioc_never_rests_witness:
  "is_terminal (admitted sample_config (sample_order ''IOC'' False) (sample_engine [''a'']))"
  using ioc_never_rests[of "sample_engine [''a'']" "sample_order ''IOC'' False" _ sample_config]
  by (simp add: sample_tifs fresh_order_ok) (simp add: sample_order_def new_order_def)

text \<open>
  A post-only order never takes liquidity: on admission it produces no fill and consumes
  nothing from any book, whatever the book looks like.
\<close>

theorem post_only_never_takes:
  assumes po: "o_post_only o'" and tif: "tif_or_gtc (o_tif o') \<noteq> TIF_FOK" and pend: "o_state o' = PENDING"
  shows "snd (handle_admit cfg o' e) = [] \<and> e_books (fst (handle_admit cfg o' e)) = e_books e"
proof (cases "dict_get (e_books e) (o_token o')")
  case None
  then show ?thesis by (simp add: handle_admit_def)
next
  case (Some rb)
  have nt: "\<not> is_terminal (o'\<lparr>o_reject_reason := r\<rparr>)" "\<not> is_terminal (o'\<lparr>o_cancelled_at := q\<rparr>)" for r q
    using pend by (simp_all add: is_terminal_def)
  have "e_books (rest_order cfg WORKING o' rb e) = e_books e"
    by (simp add: rest_order_def Let_def add_to_working_def)
  then show ?thesis
    using po tif terminate_fields(9)[OF nt(1)] terminate_fields(9)[OF nt(2)]
    by (auto simp: handle_admit_def Some Let_def polymarket.crosses_marketable)
qed

theorem post_only_never_takes_witness:
  "snd (handle_admit sample_config (sample_order ''GTC'' True) (sample_engine [''a''])) = []"
  using post_only_never_takes[of "sample_order ''GTC'' True" sample_config "sample_engine [''a'']"]
  by (simp add: sample_tifs TIF_GTC_def TIF_FOK_def)

text \<open>
  C27: On a fresh book the engine's taker walk is the reference walk of the replay module: the same
  levels and sizes, each price moved by the one impact of the whole order; in total it fills the
  smaller of what the order still wants and what is accessible.
\<close>

theorem taker_walk_refines_reference:
  assumes wf: "wf_snapshot s" and side: "py_upper (o_side o') \<in> {''SELL'', ''BUY''}"
  shows "map (\<lambda>f. (f_price f, f_size f)) (snd (snd (consume_levels cfg now o' (fresh_book s) idx))) =
      map (\<lambda>(p, q). (adjusted_price (py_upper (o_side o')) (taker_impact_bps cfg o' (fresh_book s) / 10000) p, q))
        (walk_for_taker s (o_side o') (remaining_size o') (Some (o_price o')))
    \<and> sum_list (map f_size (snd (snd (consume_levels cfg now o' (fresh_book s) idx)))) =
      min (remaining_size o') (total_size_at_or_better s (py_upper (o_side o')) (o_price o'))"
proof -
  have fwf: "wf_snapshot (rb_snapshot (fresh_book s))" using wf by (simp add: fresh_book_def)
  have nn: "max 0 (remaining_size o') = remaining_size o'" by (simp add: remaining_size_def)
  have "walk_loop (level_out (py_upper (o_side o')) (o_price o')) (remaining_size o')
      (residual_ladder (fresh_book s) (py_upper (o_side o'))) =
      walk_for_taker s (o_side o') (remaining_size o') (Some (o_price o'))"
    using side nn walk_loop_done[of "remaining_size o'"] by (elim insertE emptyE)
      (simp_all add: walk_for_taker_def fresh_residual_ladder[OF wf] level_out_crosses Let_def)
  moreover have "available_for_taker (fresh_book s) (py_upper (o_side o')) (o_price o') =
      total_size_at_or_better s (py_upper (o_side o')) (o_price o')"
    using side by (elim insertE emptyE)
      (simp_all add: available_is_accessible fresh_residual_ladder[OF wf] accessible_total_size)
  ultimately show ?thesis using consume_levels_walks[OF fwf side] consume_levels_total[OF fwf side] by simp
qed

theorem taker_walk_refines_reference_witness:
  "sum_list (map f_size (snd (snd (consume_levels sample_config None (sample_order ''IOC'' False)
     (fresh_book (sample_book ''t'' 0)) 0)))) = 25"
proof -
  have "total_size_at_or_better (sample_book ''t'' 0) ''BUY'' (53 / 100) = 30"
    by (simp add: total_size_at_or_better_def mk_level_def eps12_def)
  then show ?thesis
    using taker_walk_refines_reference[OF sample_book_wf[of "''t''" 0], of "sample_order ''IOC'' False" sample_config None 0]
    by (simp add: remaining_size_def)
qed

section \<open>Displayed liquidity is never sold twice to takers\<close>

definition side_levels :: "residual_book \<Rightarrow> string \<Rightarrow> price_level list" where
  "side_levels rb sd = (if sd = ''SELL'' then bids (rb_snapshot rb) else asks (rb_snapshot rb))"

definition side_consumed :: "residual_book \<Rightarrow> string \<Rightarrow> (pyfloat, pyfloat) dict" where
  "side_consumed rb sd = (if sd = ''SELL'' then consumed_bids rb else consumed_asks rb)"

definition not_oversold :: "residual_book \<Rightarrow> string \<Rightarrow> bool" where
  "not_oversold rb sd \<longleftrightarrow>
     (\<forall>l\<in>set (side_levels rb sd). dict_get_or (side_consumed rb sd) (lvl_price l) 0 \<le> lvl_size l)"

lemma consume_side:
  assumes "sd \<in> {''SELL'', ''BUY''}" "sd' \<in> {''SELL'', ''BUY''}"
  shows "dict_get_or (side_consumed (rb_consume rb sd p q) sd') p' 0 =
    dict_get_or (side_consumed rb sd') p' 0 + (if sd = sd' \<and> p = p' then q else 0)"
    "side_levels (rb_consume rb sd p q) sd' = side_levels rb sd'"
  using assms by (auto simp: side_consumed_def side_levels_def rb_consume_def Let_def)

lemma consume_loop_not_oversold:
  assumes "sd \<in> {''SELL'', ''BUY''}" "sd' \<in> {''SELL'', ''BUY''}"
  shows "distinct (map fst ls) \<Longrightarrow> not_oversold rb sd' \<Longrightarrow>
    (\<And>p q l. (p, q) \<in> set ls \<Longrightarrow> l \<in> set (side_levels rb sd) \<Longrightarrow> lvl_price l = p \<Longrightarrow>
       dict_get_or (side_consumed rb sd) p 0 + q \<le> lvl_size l) \<Longrightarrow>
    not_oversold (fst (snd (consume_loop cfg now ib sd ls r o' rb idx))) sd'"
  using assms
proof (induction cfg now ib sd ls r o' rb idx rule: consume_loop.induct)
  case (2 cfg now ib sd price qty ls r o' rb idx)
  show ?case
  proof (cases "r \<le> 0 \<or> qty \<le> 0 \<or> level_out sd (o_price o') price")
    case True
    then show ?thesis using 2 by auto
  next
    case False
    let ?rb = "rb_consume rb sd price (min qty r)"
    let ?f = "taker_fill cfg now ib sd o' rb price (min qty r) idx"
    have d: "price \<notin> fst ` set ls" "distinct (map fst ls)" using 2(3) by auto
    have ok: "not_oversold ?rb sd'"
      unfolding not_oversold_def consume_side[OF 2(6,7)]
    proof
      fix l assume l: "l \<in> set (side_levels rb sd')"
      have "dict_get_or (side_consumed rb sd') (lvl_price l) 0 + min qty r \<le> lvl_size l"
        if eq: "sd = sd' \<and> price = lvl_price l"
      proof -
        have "l \<in> set (side_levels rb sd)" "lvl_price l = price" using l eq by simp_all
        then have "dict_get_or (side_consumed rb sd) price 0 + qty \<le> lvl_size l" by (rule 2(5)[OF list.set_intros(1)])
        then have "dict_get_or (side_consumed rb sd) price 0 + min qty r \<le> lvl_size l" by linarith
        then show ?thesis using eq by simp
      qed
      moreover have "dict_get_or (side_consumed rb sd') (lvl_price l) 0 \<le> lvl_size l" using 2(4) l by (simp add: not_oversold_def)
      ultimately show "dict_get_or (side_consumed rb sd') (lvl_price l) 0 +
          (if sd = sd' \<and> price = lvl_price l then min qty r else 0) \<le> lvl_size l" by auto
    qed
    have "not_oversold (fst (snd (consume_loop cfg now ib sd ls (r - min qty r) (book_fill o' ?f) ?rb (Suc idx)))) sd'"
    proof (rule 2(2)[OF _ _ _ refl refl d(2) ok _ 2(6,7)])
      fix p q l assume m: "(p, q) \<in> set ls" "l \<in> set (side_levels ?rb sd)" "lvl_price l = p"
      have "price \<noteq> p" using d(1) m(1) by (metis fst_conv imageI)
      then show "dict_get_or (side_consumed ?rb sd) p 0 + q \<le> lvl_size l"
        using 2(5)[of p q l] m unfolding consume_side[OF 2(6,6)] by simp
    qed (use False in auto)
    then show ?thesis using False by (simp add: Let_def case_prod_unfold)
  qed
qed simp

text \<open>
  Taker fills never sell displayed size twice: on a snapshot with distinct prices per side, if
  no level is consumed beyond its displayed size before a taker walk, none is after it, on either side.
\<close>

theorem taker_never_oversells:
  assumes side: "py_upper (o_side o') \<in> {''SELL'', ''BUY''}"
    and dist: "distinct (map lvl_price (bids (rb_snapshot rb)))" "distinct (map lvl_price (asks (rb_snapshot rb)))"
    and pre: "not_oversold rb ''SELL''" "not_oversold rb ''BUY''"
  shows "not_oversold (fst (snd (consume_levels cfg now o' rb idx))) ''SELL'' \<and>
         not_oversold (fst (snd (consume_levels cfg now o' rb idx))) ''BUY''"
proof (cases "remaining_size o' \<le> 0")
  case True
  then show ?thesis using pre by (simp add: consume_levels_def Let_def)
next
  case False
  let ?sd = "py_upper (o_side o')"
  let ?ls = "if ?sd = ''SELL'' then remaining_bids rb else remaining_asks rb"
  have d: "distinct (map fst ?ls)" using dist by (simp add: remaining_prices)
  have room: "dict_get_or (side_consumed rb ?sd) p 0 + q \<le> lvl_size l"
    if m: "(p, q) \<in> set ?ls" and l: "l \<in> set (side_levels rb ?sd)" "lvl_price l = p" for p q l
  proof -
    have lv: "distinct (map lvl_price (side_levels rb ?sd))" using dist by (simp add: side_levels_def)
    have "?ls = remaining_levels (side_consumed rb ?sd) (side_levels rb ?sd)"
      by (simp add: side_levels_def side_consumed_def remaining_bids_def remaining_asks_def)
    with m obtain l' where l': "l' \<in> set (side_levels rb ?sd)" "lvl_price l' = p"
        "q = max 0 (lvl_size l' - dict_get_or (side_consumed rb ?sd) p 0)"
      by (auto simp: remaining_levels_def)
    then have "l' = l" using l lv by (auto simp: distinct_map inj_on_def)
    moreover have "not_oversold rb ?sd" using pre side by auto
    ultimately show ?thesis using l' l by (auto simp: not_oversold_def)
  qed
  have "not_oversold (fst (snd (consume_levels cfg now o' rb idx))) sd'" if "sd' \<in> {''SELL'', ''BUY''}" for sd'
    unfolding consume_levels_def Let_def if_not_P[OF False]
    by (rule consume_loop_not_oversold[OF side that d]) (use pre that room in auto)
  then show ?thesis by simp
qed

theorem taker_never_oversells_witness:
  "not_oversold (fst (snd (consume_levels sample_config None (sample_order ''IOC'' False)
     (fresh_book (sample_book ''t'' 0)) 0))) ''BUY''"
  using taker_never_oversells[of "sample_order ''IOC'' False" "fresh_book (sample_book ''t'' 0)" sample_config None 0]
  by (simp add: fresh_book_def not_oversold_def side_levels_def side_consumed_def mk_level_def dict_get_or_def)

end
