(* ===== verification/Lifecycle.thy ===== *)
theory Lifecycle
  imports Taker
begin

text \<open>
  Runs of the matching engine: any sequence of submissions, cancel requests and snapshots, in any
  order. The contract \<open>guarded_system\<close> is interpreted on the engine's step function, so
  that what each operation keeps is kept by every run.
\<close>

datatype engine_event =
    Submit string string string pyfloat pyfloat string bool timestamp
  | Cancel string timestamp
  | Advance book_snapshot

fun engine_step :: "match_config \<Rightarrow> engine \<Rightarrow> engine_event \<Rightarrow> py_error + engine" where
  "engine_step cfg e (Submit oid token side price sz tif post_only t) =
     (case submit cfg (new_order oid token side price sz tif post_only t) e of
        Inl x \<Rightarrow> Inl x | Inr (o', e') \<Rightarrow> Inr e')"
| "engine_step cfg e (Cancel oid t) = Inr (snd (cancel oid t e))"
| "engine_step cfg e (Advance snap) = (case advance_to cfg snap e of Inl x \<Rightarrow> Inl x | Inr (fs, e') \<Rightarrow> Inr e')"

fun_cases engine_step_raises: "engine_step cfg e ev = Inl x"

lemma new_order_fresh: "fresh_order (new_order oid token side price sz tif po t)"
  by (simp add: new_order_def fresh_order_def)

lemma engine_step_lifecycle:
  assumes inv: "engine_inv e" and st: "engine_step cfg e ev = Inr e'"
  shows "lifecycle\<^sup>*\<^sup>* e e'"
proof (cases ev)
  case (Submit oid token side price sz tif po t)
  then obtain n where "submit cfg (new_order oid token side price sz tif po t) e = Inr (n, e')"
    using st by (auto split: sum.splits)
  then show ?thesis by (rule submit_lifecycle[OF new_order_fresh])
next
  case (Cancel oid t)
  then have "cancel oid t e = (fst (cancel oid t e), e')" using st by (simp add: prod_eq_iff)
  then show ?thesis by (rule internal_star(1)[OF cancel_lifecycle[OF inv]])
next
  case (Advance snap)
  then obtain fs where "advance_to cfg snap e = Inr (fs, e')" using st by (auto split: sum.splits)
  then show ?thesis by (rule internal_star(1)[OF advance_to_lifecycle[OF inv]])
qed

definition orders_lead :: "engine \<Rightarrow> engine \<Rightarrow> bool" where
  "orders_lead e e' \<longleftrightarrow>
     (\<forall>i a. dict_get (e_orders e) i = Some a \<longrightarrow> (\<exists>b. dict_get (e_orders e') i = Some b \<and> order_leads a b))"

interpretation matching: guarded_system "engine_step cfg" engine_inv orders_lead for cfg
proof unfold_locales
  fix s t e assume "engine_inv s" "engine_step cfg s e = Inr t"
  then have st: "lifecycle\<^sup>*\<^sup>* s t" by (rule engine_step_lifecycle)
  then show "engine_inv t" using \<open>engine_inv s\<close> by (rule lifecycle_star_inv)
  show "orders_lead s t" unfolding orders_lead_def using lifecycle_star_leads[OF st] by blast
next
  show "orders_lead s s" for s by (simp add: orders_lead_def)
  show "orders_lead s t \<Longrightarrow> orders_lead t u \<Longrightarrow> orders_lead s u" for s t u
    unfolding orders_lead_def using order_leads_trans by meson
qed

definition engine_run :: "match_config \<Rightarrow> latency_model \<Rightarrow> engine_event list \<Rightarrow> py_error + engine" where
  "engine_run cfg lm evs = run_steps (engine_step cfg) (init_engine lm) evs"

lemma engine_run_inv: "engine_run cfg lm evs = Inr e \<Longrightarrow> engine_inv e"
  unfolding engine_run_def using matching.run_inv engine_inv_init by blast

section \<open>The clock\<close>

lemma now_frames [frame_simps]:
  "e_now (put_order b e) = e_now e" "e_now (terminate st b e) = e_now e"
  "e_now (add_to_working b e) = e_now e" "e_now (remove_from_working b e) = e_now e"
  "e_now (commit_fills (b, rb, fs) e) = e_now e" "e_now (rest_order cfg st b rb e) = e_now e"
  by (simp_all add: terminate_def decrement_active_def add_to_working_def remove_from_working_def rest_order_def Let_def)

lemma handle_admit_now [frame_simps]: "e_now (fst (handle_admit cfg a e)) = e_now e"
  unfolding handle_admit_def Let_def by (simp add: frame_simps case_prod_unfold commit_fills_def split: option.splits)

lemma try_match_now [frame_simps]: "e_now (fst (try_match_resting cfg a e)) = e_now e"
  unfolding try_match_resting_def Let_def by (simp add: frame_simps case_prod_unfold commit_fills_def split: option.splits)

lemma apply_cancel_now [frame_simps]: "e_now (apply_cancel i t e) = e_now e"
  by (simp add: apply_cancel_def frame_simps split: option.splits)

lemma admit_due_now [frame_simps]: "e_now (fst (admit_due cfg tok now i acc)) = e_now (fst acc)"
  by (simp add: admit_due_def frame_simps case_prod_unfold Let_def split: option.splits)

lemma match_working_now [frame_simps]: "e_now (fst (match_working cfg i acc)) = e_now (fst acc)"
  by (simp add: match_working_def frame_simps case_prod_unfold Let_def split: option.splits)

lemma foldl_frame: "(\<And>s x. g (f s x) = g s) \<Longrightarrow> g (foldl f s xs) = g s"
  by (induction xs arbitrary: s) simp_all

lemma apply_due_cancels_now [frame_simps]: "e_now (apply_due_cancels now e) = e_now e"
  unfolding apply_due_cancels_def
  by (rule foldl_frame) (simp add: frame_simps case_prod_unfold Let_def)

lemma refresh_book_now [frame_simps]: "e_now (refresh_book cfg snap e) = e_now e"
proof (cases "dict_get (e_books e) (s_token snap)")
  case (Some old)
  show ?thesis unfolding refresh_book_def Let_def Some option.case
    by (subst foldl_frame[where g = e_now]) (simp_all add: frame_simps split: option.splits)
qed (simp add: refresh_book_def Let_def)

lemma folds_now [frame_simps]:
  "e_now (fst (foldl (\<lambda>acc oid. match_working cfg oid acc) p xs)) = e_now (fst p)"
  "e_now (fst (foldl (\<lambda>acc oid. admit_due cfg tok now oid acc) p xs)) = e_now (fst p)"
  by (rule foldl_frame[where g = "\<lambda>p. e_now (fst p)"], simp add: frame_simps)+

lemma advance_to_now:
  assumes "advance_to cfg snap e = Inr (fs, e')"
  shows "e_now e' = Some (s_observed_at snap)"
  using assms by (auto simp: advance_to_def Let_def frame_simps case_prod_unfold split: if_splits)

lemma advance_to_raises:
  "(\<exists>x. advance_to cfg snap e = Inl x) \<longleftrightarrow> (\<exists>t. e_now e = Some t \<and> s_observed_at snap < t)"
  by (auto simp: advance_to_def Let_def case_prod_unfold split: option.splits)

lemma cancel_now: "e_now (snd (cancel oid t e)) = e_now e"
  by (simp add: cancel_def Let_def case_prod_unfold split: option.splits)

lemma submit_frame:
  assumes "submit cfg n e = Inr (n', e')"
  shows "e_now e' = e_now e" "fst ` set (e_orders e') = insert (o_id n) (fst ` set (e_orders e))"
proof -
  have "e_now e' = e_now e \<and> (\<exists>b. e_orders e' = dict_set (e_orders e) (o_id n) b)"
    using assms by (auto simp: submit_def Let_def case_prod_unfold split: if_splits)
  then show "e_now e' = e_now e" "fst ` set (e_orders e') = insert (o_id n) (fst ` set (e_orders e))"
    by (elim conjE exE, simp only: dict_set_keys)+
qed

lemma submit_raises: "(\<exists>x. submit cfg n e = Inl x) \<longleftrightarrow> o_id n \<in> fst ` set (e_orders e)"
  by (auto simp: submit_def Let_def case_prod_unfold dict_get_def map_of_eq_None_iff)

section \<open>Which runs raise\<close>

fun submitted_ids :: "engine_event list \<Rightarrow> string list" where
  "submitted_ids [] = []"
| "submitted_ids (Submit oid _ _ _ _ _ _ _ # evs) = oid # submitted_ids evs"
| "submitted_ids (_ # evs) = submitted_ids evs"

fun advance_times :: "engine_event list \<Rightarrow> timestamp list" where
  "advance_times [] = []"
| "advance_times (Advance snap # evs) = s_observed_at snap # advance_times evs"
| "advance_times (_ # evs) = advance_times evs"

definition not_before :: "timestamp option \<Rightarrow> timestamp list \<Rightarrow> bool" where
  "not_before now ts \<longleftrightarrow> (\<forall>n. now = Some n \<longrightarrow> (\<forall>t\<in>set ts. n \<le> t))"

lemma new_order_id [simp]: "o_id (new_order oid token side price sz tif po t) = oid"
  by (simp add: new_order_def)

lemma run_succeeds_iff:
  "engine_inv e \<Longrightarrow> (\<exists>e'. run_steps (engine_step cfg) e evs = Inr e') \<longleftrightarrow>
     distinct (submitted_ids evs) \<and> set (submitted_ids evs) \<inter> fst ` set (e_orders e) = {} \<and>
     sorted (advance_times evs) \<and> not_before (e_now e) (advance_times evs)"
proof (induction evs arbitrary: e)
  case Nil
  then show ?case by (simp add: not_before_def)
next
  case (Cons ev evs)
  have step: "(\<exists>e'. run_steps (engine_step cfg) e (ev # evs) = Inr e') \<longleftrightarrow>
      (\<exists>s. engine_step cfg e ev = Inr s \<and> (\<exists>e'. run_steps (engine_step cfg) s evs = Inr e'))"
    by (auto split: sum.splits)
  have IH: "(\<exists>e'. run_steps (engine_step cfg) e (ev # evs) = Inr e') \<longleftrightarrow>
      distinct (submitted_ids evs) \<and> set (submitted_ids evs) \<inter> fst ` set (e_orders s) = {} \<and>
      sorted (advance_times evs) \<and> not_before (e_now s) (advance_times evs)" if st: "engine_step cfg e ev = Inr s" for s
    using Cons.IH[OF matching.step_inv[OF Cons.prems st]] unfolding step st by simp
  show ?case
  proof (cases ev)
    case (Submit oid token side price sz tif po t)
    let ?n = "new_order oid token side price sz tif po t"
    show ?thesis
    proof (cases "submit cfg ?n e")
      case (Inl x)
      then have "oid \<in> fst ` set (e_orders e)" using submit_raises[of cfg ?n e] by auto
      then show ?thesis using Inl unfolding step by (simp add: Submit)
    next
      case (Inr p)
      obtain n' s where p: "p = (n', s)" by fastforce
      have st: "engine_step cfg e ev = Inr s" using Inr p Submit by simp
      note fr = submit_frame[OF Inr[unfolded p]]
      have "oid \<notin> fst ` set (e_orders e)" using submit_raises[of cfg ?n e] Inr by auto
      then show ?thesis unfolding IH[OF st] fr by (auto simp: Submit)
    qed
  next
    case (Cancel oid t)
    let ?s = "snd (cancel oid t e)"
    have st: "engine_step cfg e ev = Inr ?s" using Cancel by simp
    have "cancel oid t e = (fst (cancel oid t e), ?s)" by simp
    from internal_star(2)[OF cancel_lifecycle[OF Cons.prems this]]
    have "fst ` set (e_orders ?s) = fst ` set (e_orders e)" by (metis list.set_map)
    then show ?thesis unfolding IH[OF st] cancel_now by (simp add: Cancel)
  next
    case (Advance snap)
    show ?thesis
    proof (cases "advance_to cfg snap e")
      case (Inl x)
      then obtain t where "e_now e = Some t" "s_observed_at snap < t" using advance_to_raises[of cfg snap e] by auto
      then show ?thesis using Inl unfolding step by (auto simp: Advance not_before_def)
    next
      case (Inr p)
      obtain fs s where p: "p = (fs, s)" by fastforce
      have st: "engine_step cfg e ev = Inr s" using Inr p Advance by simp
      have "fst ` set (e_orders s) = fst ` set (e_orders e)"
        using internal_star(2)[OF advance_to_lifecycle[OF Cons.prems Inr[unfolded p]]] by (metis list.set_map)
      moreover have "not_before (e_now e) [s_observed_at snap]"
        using Inr advance_to_raises[of cfg snap e] by (auto simp: not_before_def not_less)
      ultimately show ?thesis unfolding IH[OF st] advance_to_now[OF Inr[unfolded p]]
        by (auto simp: Advance not_before_def)
    qed
  qed
qed

section \<open>Every due order is admitted\<close>

definition due :: "string \<Rightarrow> timestamp \<Rightarrow> order \<Rightarrow> bool" where
  "due tok now b \<longleftrightarrow> o_token b = tok \<and> o_state b = PENDING \<and> (\<exists>t. o_received_at b = Some t \<and> t \<le> now)"

definition replaces :: "engine \<Rightarrow> string \<Rightarrow> string \<Rightarrow> engine \<Rightarrow> bool" where
  "replaces e tok i e' \<longleftrightarrow> (\<exists>b. o_state b \<noteq> PENDING \<and>
     (\<forall>j. dict_get (e_orders e') j = (if i = j then Some b else dict_get (e_orders e) j))) \<and>
     (dict_get (e_books e') tok \<noteq> None)"

lemma replaces_terminate:
  assumes "\<not> is_terminal b" "o_id b = i" "st \<noteq> PENDING" "dict_get (e_books s) tok \<noteq> None"
    "\<And>j. i \<noteq> j \<Longrightarrow> dict_get (e_orders s) j = dict_get (e_orders e) j"
  shows "replaces e tok i (terminate st b s)"
  using assms unfolding replaces_def terminate_fields[OF assms(1)]
  by (intro conjI exI[of _ "b\<lparr>o_state := st\<rparr>"]) auto

lemma replaces_rest:
  assumes "o_id b = i" "st \<noteq> PENDING" "dict_get (e_books s) tok \<noteq> None"
    "\<And>j. i \<noteq> j \<Longrightarrow> dict_get (e_orders s) j = dict_get (e_orders e) j"
  shows "replaces e tok i (rest_order cfg st b rb s)"
proof -
  let ?q = "snapshot_queue_position cfg (lm_submit (e_latency s)) (b\<lparr>o_state := st\<rparr>) rb"
  note core = order_core_fields[OF snapshot_queue_frame(1)[of cfg "lm_submit (e_latency s)" "b\<lparr>o_state := st\<rparr>" rb]]
  have "e_orders (rest_order cfg st b rb s) = dict_set (e_orders s) i ?q" "e_books (rest_order cfg st b rb s) = e_books s"
    using core(1) assms(1) by (simp_all add: rest_order_def Let_def add_to_working_def)
  then show ?thesis using assms core(7) unfolding replaces_def by (intro conjI exI[of _ ?q]) auto
qed

lemma handle_admit_replaces:
  assumes inv: "engine_inv e" and a: "dict_get (e_orders e) i = Some a" "o_state a = PENDING"
    and bk: "dict_get (e_books e) (o_token a) = Some rb"
  shows "replaces e (o_token a) i (fst (handle_admit cfg a e))"
proof -
  note so = stored_order[OF inv a(1)]
  obtain b rb2 fs where c: "consume_levels cfg (e_now e) a rb (ledger_length e a) = (b, rb2, fs)"
    using prod_cases3 by blast
  have "ledger_length e a = length (o_fills a)" using so by (simp add: ledger_length_def dict_get_or_def)
  then have st: "fill_step a rb (b, rb2, fs)"
    using consume_levels_step[OF so(2), of "ledger_length e a" rb cfg "e_now e"] c by simp
  note ev = step_evolves[OF st]
  let ?c = "commit_fills (b, rb2, fs) e"
  have nt: "\<not> is_terminal (a\<lparr>o_reject_reason := r\<rparr>)" "\<not> is_terminal (a\<lparr>o_cancelled_at := q\<rparr>)"
      "\<not> is_terminal b" "\<not> is_terminal (b\<lparr>o_cancelled_at := q\<rparr>)" for r q
    using ev a(2) by (simp_all add: is_terminal_def)
  have cf: "dict_get (e_books ?c) (o_token a) \<noteq> None" "\<And>j. i \<noteq> j \<Longrightarrow> dict_get (e_orders ?c) j = dict_get (e_orders e) j"
    using ev so by simp_all
  have ifI: "(q \<Longrightarrow> P x) \<Longrightarrow> (\<not> q \<Longrightarrow> P y) \<Longrightarrow> P (if q then x else y)" for q P and x y :: engine by simp
  show ?thesis
    unfolding handle_admit_def bk option.case Let_def c prod.case if_distrib[of fst] fst_conv
    using nt(3) by (intro ifI[of _ "replaces e (o_token a) i"] replaces_terminate replaces_rest) (simp_all add: bk so ev nt cf)
qed

lemma replaces_get:
  assumes "replaces e tok i e'"
  shows "j \<noteq> i \<Longrightarrow> dict_get (e_orders e') j = dict_get (e_orders e) j"
    "dict_get (e_orders e') i = Some b \<Longrightarrow> o_state b \<noteq> PENDING" "dict_get (e_books e') tok \<noteq> None"
  using assms by (auto simp: replaces_def)

lemma admit_due_settles:
  assumes inv: "engine_inv e" and bk: "dict_get (e_books e) tok \<noteq> None"
  shows "dict_get (e_books (fst (admit_due cfg tok now i (e, fs)))) tok \<noteq> None"
    "j \<noteq> i \<Longrightarrow> dict_get (e_orders (fst (admit_due cfg tok now i (e, fs)))) j = dict_get (e_orders e) j"
    "dict_get (e_orders (fst (admit_due cfg tok now i (e, fs)))) i = Some b \<Longrightarrow> \<not> due tok now b"
proof -
  let ?r = "fst (admit_due cfg tok now i (e, fs))"
  have "?r = e \<and> (\<forall>b. dict_get (e_orders e) i = Some b \<longrightarrow> \<not> due tok now b) \<or> replaces e tok i ?r"
  proof (cases "\<exists>a. dict_get (e_orders e) i = Some a \<and> due tok now a")
    case True
    then obtain a t where a: "dict_get (e_orders e) i = Some a" "o_token a = tok" "o_state a = PENDING"
        "o_received_at a = Some t" "t \<le> now" by (auto simp: due_def)
    then have "?r = fst (handle_admit cfg a e)" by (simp add: admit_due_def Let_def case_prod_unfold)
    then show ?thesis using handle_admit_replaces[OF inv a(1,3)] a(2) bk by auto
  next
    case False
    then show ?thesis by (auto simp: admit_due_def due_def Let_def split: option.splits)
  qed
  then show "dict_get (e_books ?r) tok \<noteq> None" "j \<noteq> i \<Longrightarrow> dict_get (e_orders ?r) j = dict_get (e_orders e) j"
    "dict_get (e_orders ?r) i = Some b \<Longrightarrow> \<not> due tok now b"
    using bk replaces_get by (auto simp: due_def)
qed

lemma admit_all_settles:
  assumes "engine_inv e" "dict_get (e_books e) tok \<noteq> None"
    "dict_get (e_orders (fst (foldl (\<lambda>acc oid. admit_due cfg tok now oid acc) (e, fs) ids))) j = Some b"
    "j \<in> set ids \<or> (\<forall>a. dict_get (e_orders e) j = Some a \<longrightarrow> \<not> due tok now a)"
  shows "\<not> due tok now b"
  using assms
proof (induction ids arbitrary: e fs)
  case (Cons i ids)
  obtain s gs where s: "admit_due cfg tok now i (e, fs) = (s, gs)" by fastforce
  note st = admit_due_settles[OF Cons.prems(1,2), where cfg = cfg and now = now and i = i and fs = fs, unfolded s fst_conv]
  have "internal\<^sup>*\<^sup>* e s" using admit_due_lifecycle[OF Cons.prems(1), of cfg tok now i fs] s by simp
  then have "engine_inv s" using Cons.prems(1) internal_star_inv by blast
  moreover have "j \<in> set ids \<or> (\<forall>a. dict_get (e_orders s) j = Some a \<longrightarrow> \<not> due tok now a)"
    using Cons.prems(4) st(2)[of j] st(3) by (cases "j = i") auto
  ultimately show ?case using Cons.IH[of s gs] st(1) Cons.prems(3) s by simp
qed simp

lemma put_order_books: "e_books (foldl (\<lambda>s oid. case dict_get (e_orders s) oid of None \<Rightarrow> s | Some o' \<Rightarrow> put_order (g o') s) e xs) = e_books e"
  by (rule foldl_frame[where g = e_books]) (simp split: option.splits)

lemma refresh_book_book: "dict_get (e_books (refresh_book cfg snap e)) (s_token snap) = Some (fresh_book snap)"
  by (simp add: refresh_book_def Let_def put_order_books split: option.splits)

lemma dict_get_keys: "map fst d = map fst d' \<Longrightarrow> dict_get d k = Some v \<Longrightarrow> \<exists>w. dict_get d' k = Some w"
  using dict_get_None_iff[of d k] dict_get_None_iff[of d' k] by (metis list.set_map not_None_eq)

lemma internal_back:
  assumes "internal\<^sup>*\<^sup>* e e'" "dict_get (e_orders e') i = Some b"
  obtains a where "dict_get (e_orders e) i = Some a" "order_leads a b"
proof -
  obtain a where a: "dict_get (e_orders e) i = Some a"
    using dict_get_keys[OF internal_star(2)[OF assms(1)] assms(2)] by blast
  then show thesis using internal_star_leads[OF assms(1) a] assms(2) that by simp
qed

section \<open>Properties\<close>

definition sample_latency :: latency_model where
  "sample_latency = deterministic (\<lambda>_. 0) 1 1"

definition sample_events :: "engine_event list" where
  "sample_events =
     [Submit ''a'' ''t'' ''BUY'' (53 / 100) 25 ''GTC'' False 0, Cancel ''a'' 10,
      Advance (sample_book ''t'' 5), Advance (sample_book ''t'' 3000000)]"

lemma sample_run: "\<exists>e. engine_run sample_config sample_latency sample_events = Inr e"
  unfolding engine_run_def run_succeeds_iff[OF engine_inv_init]
  by (simp add: sample_events_def not_before_def init_engine_def)

text \<open>
  C2: In every state a run of the engine reaches, the order table, the per-order fill ledger, the
  active counters and the working lists agree: each order's filled size is the sum of its numbered
  fills and at most its size, its average price is the size-weighted one, the counter of a token is
  the number of its live orders, and the working list of a token holds exactly its resting orders.
\<close>

theorem engine_run_invariant:
  assumes "engine_run cfg lm evs = Inr e"
  shows "orders_inv e \<and> active_inv e \<and> working_inv e"
  using engine_inv_parts[OF engine_run_inv[OF assms]] by blast

theorem engine_run_invariant_witness:
  "\<exists>e. engine_run sample_config sample_latency sample_events = Inr e \<and> orders_inv e \<and> active_inv e \<and> working_inv e"
  using engine_run_invariant sample_run by blast

text \<open>
  Exactly which runs raise: a run from the initial engine succeeds if and only if no order id is
  submitted twice and snapshots arrive in non-decreasing time; no other event sequence can fail.
\<close>

theorem engine_run_total:
  "(\<exists>e. engine_run cfg lm evs = Inr e) \<longleftrightarrow> distinct (submitted_ids evs) \<and> sorted (advance_times evs)"
  unfolding engine_run_def run_succeeds_iff[OF engine_inv_init]
  by (simp add: init_engine_def not_before_def)



text \<open>
  C20: The fast path of the replay loop is sound and complete: in every reachable state
  \<open>has_active_orders_for_token\<close> answers true exactly when some order on the token is not terminal.
\<close>

theorem fast_path_exact:
  assumes "engine_run cfg lm evs = Inr e"
  shows "has_active_orders_for_token e token \<longleftrightarrow>
     (\<exists>i a. dict_get (e_orders e) i = Some a \<and> o_token a = token \<and> \<not> is_terminal a)"
proof -
  note inv = engine_inv_parts[OF engine_run_inv[OF assms]]
  then have "dict_wf (e_orders e)" by (simp add: orders_inv_def)
  from active_total_pos_iff[OF this] show ?thesis
    using inv(2) by (simp add: has_active_orders_for_token_def active_inv_def)
qed

theorem fast_path_exact_witness:
  "\<exists>e. engine_run sample_config sample_latency sample_events = Inr e \<and>
    (has_active_orders_for_token e ''t'' \<longleftrightarrow>
      (\<exists>i a. dict_get (e_orders e) i = Some a \<and> o_token a = ''t'' \<and> \<not> is_terminal a))"
  using fast_path_exact sample_run by blast

text \<open>
  C38: A snapshot leaves no due order waiting: after the engine advances on a snapshot of a token, no
  order on that token whose venue-receipt time has come is still pending.
\<close>

theorem advance_admits_all_due:
  assumes run: "engine_run cfg lm evs = Inr e" and adv: "advance_to cfg snap e = Inr (fs, e')"
    and b: "dict_get (e_orders e') i = Some b" and tok: "o_token b = s_token snap"
    and rcv: "o_received_at b = Some t" "t \<le> s_observed_at snap"
  shows "o_state b \<noteq> PENDING"
proof -
  let ?now = "s_observed_at snap"
  obtain e2 e3 p3 e4 where p: "e2 = refresh_book cfg snap (apply_due_cancels ?now (e\<lparr>e_now := Some ?now\<rparr>))"
      "foldl (\<lambda>acc oid. admit_due cfg (s_token snap) ?now oid acc) (e2, []) (map fst (e_orders e2)) = (e3, p3)"
      "foldl (\<lambda>acc oid. match_working cfg oid acc) (e3, p3) (dict_get_or (e_working e3) (s_token snap) []) = (e4, fs)"
      "e' = e4\<lparr>e_all_fills := e_all_fills e4 @ fs\<rparr>"
    using advance_to_parts[OF adv] by blast
  note steps = advance_to_steps[OF engine_run_inv[OF run] p(1,2,3)]
  have "dict_get (e_orders e4) i = Some b" using b p(4) by simp
  then obtain c where c: "dict_get (e_orders e3) i = Some c" "order_leads c b"
    by (rule internal_back[OF steps(3)])
  have key: "i \<in> set (map fst (e_orders e2)) \<or> (\<forall>a. dict_get (e_orders e2) i = Some a \<longrightarrow> \<not> due (s_token snap) ?now a)"
    using dict_get_None_iff[of "e_orders e2" i] by (simp only: set_map) auto
  have bk: "dict_get (e_books e2) (s_token snap) \<noteq> None" unfolding p(1) by (simp add: refresh_book_book)
  have "\<not> due (s_token snap) ?now c"
    by (rule admit_all_settles[where cfg = cfg and fs = "[]", OF steps(1) bk _ key]) (simp only: p(2) fst_conv c(1))
  then show ?thesis using c(2) tok rcv legal_not_pending[of "o_state c" "o_state b"]
    by (auto simp: due_def order_leads_def)
qed

theorem advance_admits_all_due_witness:
  "\<exists>e fs e'. engine_run sample_config sample_latency (take 1 sample_events) = Inr e \<and>
     advance_to sample_config (sample_book ''t'' 3000000) e = Inr (fs, e') \<and>
     (\<forall>i b t. dict_get (e_orders e') i = Some b \<and> o_token b = ''t'' \<and> o_received_at b = Some t \<and> t \<le> 3000000
        \<longrightarrow> o_state b \<noteq> PENDING)"
proof -
  have "\<exists>e. engine_run sample_config sample_latency (take 1 sample_events) = Inr e"
    unfolding engine_run_def run_succeeds_iff[OF engine_inv_init]
    by (simp add: sample_events_def not_before_def init_engine_def)
  then obtain e where e: "engine_run sample_config sample_latency (take 1 sample_events) = Inr e" ..
  have "e_now e = None"
    using e submit_frame(1) by (auto simp: engine_run_def sample_events_def init_engine_def split: sum.splits)
  then have "\<not> (\<exists>x. advance_to sample_config (sample_book ''t'' 3000000) e = Inl x)"
    unfolding advance_to_raises by simp
  then obtain fs e' where "advance_to sample_config (sample_book ''t'' 3000000) e = Inr (fs, e')"
    by (cases "advance_to sample_config (sample_book ''t'' 3000000) e") auto
  then show ?thesis using advance_admits_all_due[OF e] e by fastforce
qed

end
