(* ===== verification/Resting.thy ===== *)
theory Resting
  imports Lifecycle
begin

text \<open>
  The maker side of the matching engine: the queue gate of \<open>_try_match_resting\<close>, the price
  and amount of resting fills, the probability cap of the survival model and the decay of the queue
  position between snapshots.
\<close>

section \<open>Amounts\<close>

lemma resting_loop_total:
  "(\<And>p q. (p, q) \<in> set ls \<Longrightarrow> 0 \<le> q) \<Longrightarrow>
   sum_list (map f_size (snd (snd (resting_loop cfg sd snap ls r o' rb idx)))) \<le>
   sum_list (map snd (filter (\<lambda>(p, q). \<not> level_out sd (o_price o') p) ls))"
proof (induction cfg sd snap ls r o' rb idx rule: resting_loop.induct)
  case (2 cfg sd snap price qty ls r o' rb idx)
  obtain tk nts o1 where c: "fill_probability_capped_take cfg o' snap (min qty r) = (tk, nts, o1)"
    using prod_cases3 by blast
  note o1 = capped_take[OF c]
  have q: "0 \<le> qty" "\<And>p q. (p, q) \<in> set ls \<Longrightarrow> 0 \<le> q" using 2(3) by auto
  have nn: "0 \<le> sum_list (map snd (filter (\<lambda>(p, q). \<not> level_out sd (o_price o') p) xs))"
    if "\<And>p q. (p, q) \<in> set xs \<Longrightarrow> 0 \<le> q" for xs :: "(pyfloat \<times> pyfloat) list"
    using that by (intro sum_list_nonneg_real) auto
  show ?case
  proof (cases "r \<le> 0 \<or> level_out sd (o_price o') price")
    case True
    then have "snd (snd (resting_loop cfg sd snap ((price, qty) # ls) r o' rb idx)) = []" by auto
    then show ?thesis using nn[of "(price, qty) # ls"] q by fastforce
  next
    case False
    show ?thesis
    proof (cases "tk \<le> 0")
      case True
      have "sum_list (map f_size (snd (snd (resting_loop cfg sd snap ls r o1 rb idx))))
          \<le> sum_list (map snd (filter (\<lambda>(p, q). \<not> level_out sd (o_price o1) p) ls))"
        using False True q by (intro 2(1)[OF _ _ c[symmetric] refl refl]) auto
      then show ?thesis using False True c o1 q(1) by simp
    next
      case pos: False
      obtain o2 rb2 f where rec: "record_resting_fill cfg o1 rb snap tk (o_price o1) nts idx = (o2, rb2, f)"
        using prod_cases3 by blast
      then have f: "f_size f = tk" "o_price o2 = o_price o1" by (auto simp: record_resting_fill_def Let_def)
      have "sum_list (map f_size (snd (snd (resting_loop cfg sd snap ls (r - tk) o2 rb2 (Suc idx)))))
          \<le> sum_list (map snd (filter (\<lambda>(p, q). \<not> level_out sd (o_price o2) p) ls))"
        using False pos q by (intro 2(2)[OF _ _ c[symmetric] refl refl _ rec[symmetric] refl refl]) auto
      then show ?thesis using False pos c o1 rec f by (simp add: case_prod_unfold Let_def)
    qed
  qed
qed simp

lemma match_resting_total:
  assumes "py_upper (o_side o') \<in> {''SELL'', ''BUY''}"
  shows "sum_list (map f_size (snd (snd (match_resting cfg o' rb idx)))) \<le>
    available_for_taker rb (o_side o') (o_price o')"
proof -
  have out: "(\<lambda>(p, q :: pyfloat). \<not> level_out ''SELL'' (o_price o') p) = (\<lambda>(p, q). p \<ge> o_price o' - eps12)"
    "(\<lambda>(p, q :: pyfloat). \<not> level_out ''BUY'' (o_price o') p) = (\<lambda>(p, q). p \<le> o_price o' + eps12)"
    by (auto simp: level_out_def fun_eq_iff)
  have nn: "0 \<le> sum_list (map snd (filter P xs))" if "\<And>p q. (p, q) \<in> set xs \<Longrightarrow> 0 \<le> q"
    for P and xs :: "(pyfloat \<times> pyfloat) list" using that by (intro sum_list_nonneg_real) auto
  have b: "sum_list (map f_size (snd (snd (resting_loop cfg ''SELL'' snap (remaining_bids rb) r o' rb idx)))) \<le>
      sum_list (map snd (filter (\<lambda>(p, q). p \<ge> o_price o' - eps12) (remaining_bids rb)))"
    and a: "sum_list (map f_size (snd (snd (resting_loop cfg ''BUY'' snap (remaining_asks rb) r o' rb idx)))) \<le>
      sum_list (map snd (filter (\<lambda>(p, q). p \<le> o_price o' + eps12) (remaining_asks rb)))" for snap r
    using resting_loop_total[of "remaining_bids rb" cfg "''SELL''" snap r o' rb idx]
      resting_loop_total[of "remaining_asks rb" cfg "''BUY''" snap r o' rb idx] remaining_nonneg
    unfolding out by blast+
  show ?thesis using assms a b nn[OF remaining_nonneg(1)] nn[OF remaining_nonneg(2)]
    by (elim insertE emptyE) (auto simp: match_resting_def available_for_taker_def Let_def)
qed

lemma match_resting_price:
  "list_all (\<lambda>f. f_price f = o_price o') (snd (snd (match_resting cfg o' rb idx)))"
  by (simp add: match_resting_def Let_def resting_loop_price)

section \<open>Properties\<close>

text \<open>
  A resting order makes, it never takes: while volume is queued ahead of it nothing fills; once at
  the front, each fill is for a positive size at exactly its own limit price, and in total at most what the
  order still wants and at most the opposing size that has reached its price.
\<close>

theorem resting_fills:
  assumes inv: "engine_inv e" and a: "dict_get (e_orders e) i = Some a"
    and bk: "dict_get (e_books e) (o_token a) = Some rb" and side: "py_upper (o_side a) \<in> {''SELL'', ''BUY''}"
  shows "(\<forall>qa. o_queue_ahead a = Some qa \<and> eps9 < qa \<longrightarrow> try_match_resting cfg a e = (e, []))
    \<and> (\<forall>f\<in>set (snd (try_match_resting cfg a e)). f_price f = o_price a \<and> 0 < f_size f)
    \<and> sum_list (map f_size (snd (try_match_resting cfg a e)))
        \<le> min (remaining_size a) (available_for_taker rb (o_side a) (o_price a))"
proof -
  note so = stored_order[OF inv a]
  have nn: "0 \<le> remaining_size a" "0 \<le> available_for_taker rb (o_side a) (o_price a)"
    using remaining_nonneg by (auto simp: remaining_size_def available_for_taker_def Let_def intro!: sum_list_nonneg_real)
  obtain b rb2 fs where m: "match_resting cfg a rb (ledger_length e a) = (b, rb2, fs)" using prod_cases3 by blast
  have "ledger_length e a = length (o_fills a)" using so by (simp add: ledger_length_def dict_get_or_def)
  then have st: "fill_step a rb (b, rb2, fs)"
    using match_resting_step[OF so(2), of "ledger_length e a" rb cfg] m by simp
  have ok: "order_ok b" and of: "o_fills b = o_fills a @ fs" and sz: "o_size b = o_size a"
    using st order_core_fields(5)[of b a] by (auto simp: fill_step_def)
  have tot: "sum_list (map f_size fs) \<le> remaining_size a"
    using fill_step_filled[OF st so(2)] order_okD(1,2)[OF ok] order_okD(1,2)[OF so(2)] sz by (simp add: remaining_size_def)
  have each: "f_price f = o_price a \<and> 0 < f_size f" if "f \<in> set fs" for f
    using match_resting_price[of a cfg rb "ledger_length e a"] order_okD(5)[OF ok] of that m by (simp add: list_all_iff)
  have av: "sum_list (map f_size fs) \<le> available_for_taker rb (o_side a) (o_price a)"
    using match_resting_total[OF side, of cfg rb "ledger_length e a"] m by simp
  have P: "(\<forall>f\<in>set xs. f_price f = o_price a \<and> 0 < f_size f) \<and>
      sum_list (map f_size xs) \<le> min (remaining_size a) (available_for_taker rb (o_side a) (o_price a))"
    if "xs = [] \<or> xs = fs" for xs using that each tot nn av by auto
  have disj: "snd (try_match_resting cfg a e) = [] \<or> snd (try_match_resting cfg a e) = fs"
    by (auto simp: try_match_resting_def bk m Let_def split: option.splits)
  have "\<forall>qa. o_queue_ahead a = Some qa \<and> eps9 < qa \<longrightarrow> try_match_resting cfg a e = (e, [])"
    by (simp add: try_match_resting_def bk)
  then show ?thesis using P[OF disj] by blast
qed

text \<open>
  The queue position only improves: between two snapshots the volume ahead of a working order never
  grows and never becomes negative, it stays as it is when no disappeared depth is attributed to trades, and
  in no case does more than the depth that disappeared at or better than its price leave the queue.
\<close>

theorem queue_position_decays:
  assumes qa: "o_queue_ahead a = Some qa" "0 \<le> qa" and fr: "0 \<le> fraction" "fraction \<le> 1"
  shows "\<exists>qa'. o_queue_ahead (advance_queue fraction ob nb a) = Some qa' \<and> 0 \<le> qa' \<and> qa' \<le> qa \<and>
     (fraction = 0 \<longrightarrow> qa' = qa) \<and>
     qa - qa' \<le> eligible_depth (py_upper (o_side a) = ''BUY'') (o_price a)
        (level_pairs (if py_upper (o_side a) = ''BUY'' then bids (rb_snapshot ob) else asks (rb_snapshot ob)))"
proof -
  have ed: "0 \<le> eligible_depth b p xs" for b p xs
    unfolding eligible_depth_def by (rule sum_list_nonneg_real) auto
  show ?thesis
  proof (cases "is_terminal a \<or> qa \<le> 0")
    case True
    then show ?thesis using qa ed by (auto simp: advance_queue_def)
  next
    case False
    let ?buy = "py_upper (o_side a) = ''BUY''"
    let ?old = "eligible_depth ?buy (o_price a) (level_pairs (if ?buy then bids (rb_snapshot ob) else asks (rb_snapshot ob)))"
    let ?new = "eligible_depth ?buy (o_price a) (level_pairs (if ?buy then bids (rb_snapshot nb) else asks (rb_snapshot nb)))"
    let ?own = "eligible_depth ?buy (o_price a) (if ?buy then consumed_bids ob else consumed_asks ob)"
    let ?x = "max 0 (?old - ?new - ?own)"
    have "0 \<le> ?old" "0 \<le> ?new" "0 \<le> ?own" by (rule ed)+
    then have "0 \<le> ?x" "?x \<le> ?old" by linarith+
    then have x: "0 \<le> ?x * fraction" "?x * fraction \<le> ?old"
      using fr mult_left_le[of fraction ?x] by auto
    have "o_queue_ahead (advance_queue fraction ob nb a) = Some (max 0 (qa - ?x * fraction))"
      using False qa unfolding advance_queue_def Let_def by simp
    then show ?thesis using x qa by auto
  qed
qed

theorem queue_position_decays_witness:
  "\<exists>qa'. o_queue_ahead (advance_queue (1 / 2) (fresh_book (sample_book ''t'' 0)) (fresh_book (sample_book ''t'' 1))
       ((sample_order ''GTC'' False)\<lparr>o_queue_ahead := Some 12\<rparr>)) = Some qa' \<and> 0 \<le> qa' \<and> qa' \<le> 12"
  using queue_position_decays[of "(sample_order ''GTC'' False)\<lparr>o_queue_ahead := Some 12\<rparr>" 12 "1 / 2"
      "fresh_book (sample_book ''t'' 0)" "fresh_book (sample_book ''t'' 1)"]
  by auto

theorem resting_fills_witness:
  "let a = (sample_order ''GTC'' False)\<lparr>o_state := WORKING\<rparr>;
       e = (sample_engine [''a''])\<lparr>e_orders := [(''a'', a)], e_working := [(''t'', [''a''])], e_active := [(''t'', 1)]\<rparr>
   in (\<forall>f\<in>set (snd (try_match_resting sample_config a e)). f_price f = 53 / 100)"
proof -
  let ?a = "(sample_order ''GTC'' False)\<lparr>o_state := WORKING\<rparr>"
  let ?e = "(sample_engine [''a''])\<lparr>e_orders := [(''a'', ?a)], e_working := [(''t'', [''a''])], e_active := [(''t'', 1)]\<rparr>"
  have ok: "order_ok ?a" using fresh_order_ok[of "sample_order ''GTC'' False"] by simp
  have get: "dict_get (e_orders ?e) i = (if i = ''a'' then Some ?a else None)" for i by (simp add: dict_get_def)
  have fl: "o_fills ?a = []" by (simp add: sample_order_def new_order_def)
  have fb: "dict_get (e_fills_by_order ?e) ''a'' = Some []" by simp
  have "orders_inv ?e" using ok fb fl unfolding orders_inv_def get by (auto simp: dict_wf_def)
  moreover have "active_inv ?e"
    by (simp add: active_inv_def active_total_def dict_sum_def dict_get_or_def dict_get_def is_terminal_def)
  moreover have "working_inv ?e"
    unfolding working_inv_def resting_def get by (auto simp: dict_get_or_def dict_get_def)
  ultimately have "engine_inv ?e" by (simp add: engine_inv_def)
  then show ?thesis
    using resting_fills[of ?e "''a''" ?a "fresh_book (sample_book ''t'' 0)" sample_config]
    by (simp add: get dict_get_def sample_engine_def)
qed

text \<open>
  C34: Resting fills are not protected against double counting: consumption is recorded at the
  maker's own price instead of at the level that supplied the size, so two resting buys at 0.50 both fill in
  full against the one ask of 100 shares at 0.40, for 200 shares in total.
\<close>

definition thin_book :: book_snapshot where
  "thin_book = (sample_book ''t'' 0)\<lparr>s_asks_raw := Some [(40 / 100, 100)]\<rparr>"

definition resting_buy :: "string \<Rightarrow> order" where
  "resting_buy oid =
     (new_order oid ''t'' ''BUY'' (1 / 2) 100 ''GTC'' False 0)\<lparr>o_state := WORKING, o_queue_ahead := Some 0\<rparr>"

theorem resting_fills_double_count:
  "let (a, rb1, fs1) = match_resting sample_config (resting_buy ''a'') (fresh_book thin_book) 0;
       (b, rb2, fs2) = match_resting sample_config (resting_buy ''b'') rb1 0
   in sum_list (map f_size fs1) = 100 \<and> sum_list (map f_size fs2) = 100 \<and>
      available_for_taker (fresh_book thin_book) ''BUY'' (1 / 2) = 100"
proof -
  have asks: "asks thin_book = [mk_level (40 / 100, 100)]" by (simp add: thin_book_def sample_book_def asks_def)
  have cap: "fill_probability_capped_take sample_config o' snap c = (c, [], o')" for o' snap c
    by (simp add: fill_probability_capped_take_def sample_config_def mk_config_def)
  show ?thesis
    by (simp add: match_resting_def resting_buy_def new_order_def remaining_size_def remaining_asks_def
        remaining_levels_def asks fresh_book_def mk_level_def level_out_def cap record_resting_fill_def
        rb_consume_def book_fill_def available_for_taker_def dict_get_or_def dict_get_def dict_set_def Let_def eps12_def)
qed

end
