(* ===== verification/Portfolio.thy ===== *)
theory Portfolio
  imports Orders "HOL-Library.List_Lexorder" "HOL-Library.Char_ord"
begin

text \<open>
  The portfolio of \<open>services/backtest/portfolio.py\<close>: positions, the pre-trade gate, fill
  application, marking, the equity and exposure reports, the drawdown and the rolling correlations.

  The abstract specification is the accounting identity: cash, positions and realised profit of a
  portfolio are related by one equation, kept by every fill and every mark, from which the equity
  follows.
\<close>

section \<open>Positions\<close>

record position =
  p_token :: string
  p_side :: string
  p_slug :: "string option"
  p_entry :: pyfloat
  p_size :: pyfloat
  p_basis :: pyfloat
  p_realized :: pyfloat
  p_fees :: pyfloat
  p_mark :: "pyfloat option"
  p_mark_at :: "timestamp option"
  p_opened_at :: "timestamp option"
  p_closed_at :: "timestamp option"
  p_fill_count :: int

definition new_position :: "string \<Rightarrow> string \<Rightarrow> string option \<Rightarrow> position" where
  "new_position token side slug =
     \<lparr>p_token = token, p_side = side, p_slug = slug, p_entry = 0, p_size = 0, p_basis = 0, p_realized = 0,
      p_fees = 0, p_mark = None, p_mark_at = None, p_opened_at = None, p_closed_at = None, p_fill_count = 0\<rparr>"

definition apply_open_fill :: "fill \<Rightarrow> position \<Rightarrow> position" where
  "apply_open_fill f p =
     (let new_size = p_size p + f_size f in
      p\<lparr>p_entry := (if new_size > 0 then (p_entry p * p_size p + f_price f * f_size f) / new_size else f_price f),
        p_size := new_size,
        p_basis := p_basis p + notional_usd f,
        p_fees := p_fees p + f_fee_usd f,
        p_fill_count := p_fill_count p + 1,
        p_opened_at := (case p_opened_at p of None \<Rightarrow> Some (f_occurred_at f) | Some t \<Rightarrow> Some t)\<rparr>)"

definition apply_close_fill :: "fill \<Rightarrow> position \<Rightarrow> position" where
  "apply_close_fill f p =
     (if p_size p \<le> 0 then p
      else let tk = min (f_size f) (p_size p);
               proportion = tk / p_size p;
               cost_chunk = p_basis p * proportion;
               proceeds = f_price f * tk;
               pnl = (if p_side p = ''BUY'' then proceeds - cost_chunk else cost_chunk - proceeds) - f_fee_usd f
           in p\<lparr>p_realized := p_realized p + pnl,
                p_fees := p_fees p + f_fee_usd f,
                p_size := p_size p - tk,
                p_basis := p_basis p - cost_chunk,
                p_fill_count := p_fill_count p + 1,
                p_closed_at := (if p_size p - tk \<le> eps12 then Some (f_occurred_at f) else p_closed_at p)\<rparr>)"

definition mark_position :: "pyfloat \<Rightarrow> timestamp \<Rightarrow> position \<Rightarrow> position" where
  "mark_position price t p = p\<lparr>p_mark := Some price, p_mark_at := Some t\<rparr>"

definition unrealized_pnl :: "position \<Rightarrow> pyfloat" where
  "unrealized_pnl p =
     (case p_mark p of None \<Rightarrow> 0
      | Some mk \<Rightarrow> if p_size p \<le> 0 then 0
          else if p_side p = ''BUY'' then p_size p * (mk - p_entry p) else p_size p * (p_entry p - mk))"

definition total_pnl :: "position \<Rightarrow> pyfloat" where
  "total_pnl p = p_realized p + unrealized_pnl p"

section \<open>Rolling correlation\<close>

record return_series =
  rs_window :: nat
  rs_prices :: "pyfloat list"
  rs_returns :: "pyfloat list"

text \<open>Appending to a bounded deque drops from the left.\<close>

definition deque_append :: "nat \<Rightarrow> 'a list \<Rightarrow> 'a \<Rightarrow> 'a list" where
  "deque_append maxlen xs x = (let ys = xs @ [x] in drop (length ys - maxlen) ys)"

definition new_series :: "int \<Rightarrow> return_series" where
  "new_series window = \<lparr>rs_window = nat (max 8 window), rs_prices = [], rs_returns = []\<rparr>"

definition push :: "pyfloat \<Rightarrow> return_series \<Rightarrow> return_series" where
  "push price s =
     (if price \<le> 0 then s
      else s\<lparr>rs_returns := (if rs_prices s \<noteq> [] \<and> last (rs_prices s) > 0
               then deque_append (rs_window s) (rs_returns s) (ln (price / last (rs_prices s)))
               else rs_returns s),
             rs_prices := deque_append (rs_window s + 1) (rs_prices s) price\<rparr>)"

definition lastn :: "nat \<Rightarrow> 'a list \<Rightarrow> 'a list" where
  "lastn n xs = drop (length xs - n) xs"

definition pearson :: "pyfloat list \<Rightarrow> pyfloat list \<Rightarrow> pyfloat option" where
  "pearson a b =
     (let n = min (length a) (length b) in
      if n < 4 then None
      else let xs = lastn n a; ys = lastn n b;
               mx = sum_list xs / real n; my = sum_list ys / real n;
               num = sum_list (map (\<lambda>(x, y). (x - mx) * (y - my)) (zip xs ys));
               sx = sqrt (sum_list (map (\<lambda>x. (x - mx)\<^sup>2) xs));
               sy = sqrt (sum_list (map (\<lambda>y. (y - my)\<^sup>2) ys))
           in if sx \<le> 0 \<or> sy \<le> 0 then None else Some (num / (sx * sy)))"

section \<open>The portfolio\<close>

type_synonym position_key = "string \<times> string \<times> string option"

record portfolio_config =
  initial_capital_usd :: pyfloat
  max_gross_exposure_usd :: "pyfloat option"
  max_per_market_notional_usd :: "pyfloat option"
  max_per_strategy_notional_usd :: "pyfloat option"
  max_open_positions :: "nat option"
  correlation_window_size :: int
  enable_correlation :: bool
  pc_fee_model :: "fee_model option"

definition default_portfolio_config :: portfolio_config where
  "default_portfolio_config =
     \<lparr>initial_capital_usd = 10000, max_gross_exposure_usd = None, max_per_market_notional_usd = None,
      max_per_strategy_notional_usd = None, max_open_positions = None, correlation_window_size = 240,
      enable_correlation = True, pc_fee_model = None\<rparr>"

record portfolio =
  cash_usd :: pyfloat
  peak_equity_usd :: pyfloat
  positions :: "(position_key, position) dict"
  closed_positions :: "position list"
  equity_history :: "(timestamp \<times> pyfloat) list"
  cash_history :: "(timestamp \<times> pyfloat) list"
  pf_series :: "(string, return_series) dict"
  resolution_fees_paid :: pyfloat

definition init_portfolio :: "portfolio_config \<Rightarrow> portfolio" where
  "init_portfolio cfg =
     \<lparr>cash_usd = initial_capital_usd cfg, peak_equity_usd = initial_capital_usd cfg, positions = [],
      closed_positions = [], equity_history = [], cash_history = [], pf_series = [], resolution_fees_paid = 0\<rparr>"

text \<open>\<open>last_mark_price or entry_price\<close>: a mark of zero counts as missing here, but not in the equity.\<close>

definition mark_or_entry :: "position \<Rightarrow> pyfloat" where
  "mark_or_entry p = (case p_mark p of None \<Rightarrow> p_entry p | Some mk \<Rightarrow> if mk = 0 then p_entry p else mk)"

definition exposure :: "position \<Rightarrow> pyfloat" where
  "exposure p = p_size p * mark_or_entry p"

definition gross_exposure_usd :: "portfolio \<Rightarrow> pyfloat" where
  "gross_exposure_usd pf = sum_list (map exposure (map snd (positions pf)))"

definition market_exposure :: "portfolio \<Rightarrow> string \<Rightarrow> pyfloat" where
  "market_exposure pf token = sum_list (map (exposure \<circ> snd) (filter (\<lambda>(k, p). fst k = token) (positions pf)))"

definition strategy_exposure :: "portfolio \<Rightarrow> string \<Rightarrow> pyfloat" where
  "strategy_exposure pf slug =
     sum_list (map exposure (filter (\<lambda>p. p_slug p = Some slug) (map snd (positions pf))))"

datatype block_reason =
    InsufficientCash pyfloat pyfloat
  | GrossExposureCap pyfloat pyfloat
  | PerMarketCap pyfloat pyfloat
  | PerStrategyCap pyfloat pyfloat
  | MaxOpenPositions

definition over_cap :: "pyfloat option \<Rightarrow> pyfloat \<Rightarrow> bool" where
  "over_cap cap x = (case cap of None \<Rightarrow> False | Some c \<Rightarrow> x > c + eps9)"

definition can_submit ::
    "portfolio_config \<Rightarrow> portfolio \<Rightarrow> string \<Rightarrow> string \<Rightarrow> pyfloat \<Rightarrow> pyfloat \<Rightarrow> string option \<Rightarrow> bool \<times> block_reason option" where
  "can_submit cfg pf token side price sz slug =
     (let sd = py_upper side; notional = max 0 (price * sz);
          slug_set = (slug \<noteq> None \<and> slug \<noteq> Some []) in
      if sd = ''BUY'' \<and> cash_usd pf + eps9 < notional then (False, Some (InsufficientCash (cash_usd pf) notional))
      else if over_cap (max_gross_exposure_usd cfg) (gross_exposure_usd pf + notional) then
        (False, Some (GrossExposureCap (gross_exposure_usd pf + notional) (the (max_gross_exposure_usd cfg))))
      else if over_cap (max_per_market_notional_usd cfg) (market_exposure pf token + notional) then
        (False, Some (PerMarketCap (market_exposure pf token + notional) (the (max_per_market_notional_usd cfg))))
      else if slug_set \<and> over_cap (max_per_strategy_notional_usd cfg) (strategy_exposure pf (the slug) + notional) then
        (False, Some (PerStrategyCap (strategy_exposure pf (the slug) + notional) (the (max_per_strategy_notional_usd cfg))))
      else if (case max_open_positions cfg of None \<Rightarrow> False
               | Some n \<Rightarrow> length (positions pf) \<ge> n \<and> dict_get (positions pf) (token, sd, slug) = None) then
        (False, Some MaxOpenPositions)
      else (True, None))"

definition cash_from_close :: "position \<Rightarrow> fill \<Rightarrow> pyfloat \<Rightarrow> pyfloat" where
  "cash_from_close p f cash =
     (if p_side p = ''BUY'' then cash + (notional_usd f - f_fee_usd f) else cash - (notional_usd f + f_fee_usd f))"

text \<open>The resolution fee on the incremental gain of a closing fill.\<close>

definition gain_fee :: "portfolio_config \<Rightarrow> pyfloat \<Rightarrow> pyfloat" where
  "gain_fee cfg gained =
     (case pc_fee_model cfg of None \<Rightarrow> 0
      | Some fm \<Rightarrow> if gained > 0 then max 0 (resolution_fee fm gained) else 0)"

definition charge_gain :: "pyfloat \<Rightarrow> position \<Rightarrow> position" where
  "charge_gain fee p = (if fee > 0 then p\<lparr>p_fees := p_fees p + fee, p_realized := p_realized p - fee\<rparr> else p)"

definition opposing_side :: "string \<Rightarrow> string" where
  "opposing_side sd = (if sd = ''BUY'' then ''SELL'' else ''BUY'')"

definition close_fill :: "portfolio_config \<Rightarrow> position_key \<Rightarrow> position \<Rightarrow> fill \<Rightarrow> portfolio \<Rightarrow> portfolio" where
  "close_fill cfg opp_key pos f pf =
     (let p1 = apply_close_fill f pos;
          fee = gain_fee cfg (p_realized p1 - p_realized pos);
          p2 = charge_gain fee p1;
          pf1 = pf\<lparr>cash_usd := cash_from_close p1 f (cash_usd pf) - fee,
                   resolution_fees_paid := resolution_fees_paid pf + fee\<rparr>
      in if p_size p2 \<le> eps12
         then pf1\<lparr>closed_positions := closed_positions pf @ [p2], positions := dict_pop (positions pf) opp_key\<rparr>
         else pf1\<lparr>positions := dict_set (positions pf) opp_key p2\<rparr>)"

definition open_fill :: "fill \<Rightarrow> string \<Rightarrow> string option \<Rightarrow> portfolio \<Rightarrow> portfolio" where
  "open_fill f sd slug pf =
     (let key = (f_token f, sd, slug);
          pos = (case dict_get (positions pf) key of None \<Rightarrow> new_position (f_token f) sd slug | Some p \<Rightarrow> p)
      in pf\<lparr>positions := dict_set (positions pf) key (apply_open_fill f pos),
            cash_usd := (if sd = ''BUY'' then cash_usd pf - (notional_usd f + f_fee_usd f)
                         else cash_usd pf + (notional_usd f - f_fee_usd f))\<rparr>)"

definition apply_fill :: "portfolio_config \<Rightarrow> fill \<Rightarrow> string option \<Rightarrow> portfolio \<Rightarrow> portfolio" where
  "apply_fill cfg f slug pf =
     (let sd = py_upper (f_side f); opp_key = (f_token f, opposing_side sd, slug) in
      case dict_get (positions pf) opp_key of
        Some pos \<Rightarrow> close_fill cfg opp_key pos f pf
      | None \<Rightarrow> open_fill f sd slug pf)"

definition position_value :: "position \<Rightarrow> pyfloat" where
  "position_value p =
     (if p_size p \<le> 0 then 0
      else let value = p_size p * (case p_mark p of Some mk \<Rightarrow> mk | None \<Rightarrow> p_entry p)
           in if p_side p = ''BUY'' then value else - value)"

definition equity_usd :: "portfolio \<Rightarrow> pyfloat" where
  "equity_usd pf = foldl (\<lambda>total p. total + position_value p) (cash_usd pf) (map snd (positions pf))"

definition mark :: "portfolio_config \<Rightarrow> string \<Rightarrow> pyfloat \<Rightarrow> timestamp \<Rightarrow> portfolio \<Rightarrow> portfolio" where
  "mark cfg token price t pf =
     (let pf1 = pf\<lparr>positions := map (\<lambda>(k, p). (k, if fst k = token then mark_position price t p else p)) (positions pf)\<rparr>;
          pf2 = (if enable_correlation cfg then
                   let series = (case dict_get (pf_series pf) token of None \<Rightarrow> new_series (correlation_window_size cfg) | Some s \<Rightarrow> s)
                   in pf1\<lparr>pf_series := dict_set (pf_series pf) token (push price series)\<rparr>
                 else pf1);
          equity = equity_usd pf2
      in pf2\<lparr>peak_equity_usd := max (peak_equity_usd pf2) equity,
             equity_history := equity_history pf2 @ [(t, equity)],
             cash_history := cash_history pf2 @ [(t, cash_usd pf2)]\<rparr>)"

definition realized_pnl_usd :: "portfolio \<Rightarrow> pyfloat" where
  "realized_pnl_usd pf =
     sum_list (map p_realized (closed_positions pf)) + sum_list (map p_realized (map snd (positions pf)))"

definition unrealized_pnl_usd :: "portfolio \<Rightarrow> pyfloat" where
  "unrealized_pnl_usd pf = sum_list (map unrealized_pnl (map snd (positions pf)))"

definition total_pnl_usd :: "portfolio \<Rightarrow> pyfloat" where
  "total_pnl_usd pf = realized_pnl_usd pf + unrealized_pnl_usd pf"

definition fees_paid_usd :: "portfolio \<Rightarrow> pyfloat" where
  "fees_paid_usd pf = sum_list (map p_fees (closed_positions pf)) + sum_list (map p_fees (map snd (positions pf)))"

definition per_fill_fees_paid_usd :: "portfolio \<Rightarrow> pyfloat" where
  "per_fill_fees_paid_usd pf = max 0 (fees_paid_usd pf - resolution_fees_paid pf)"

fun drawdown_loop :: "pyfloat option \<Rightarrow> pyfloat \<Rightarrow> pyfloat list \<Rightarrow> pyfloat" where
  "drawdown_loop pk worst [] = worst"
| "drawdown_loop pk worst (eq # eqs) =
     (let pk' = (case pk of None \<Rightarrow> eq | Some x \<Rightarrow> max x eq)
      in drawdown_loop (Some pk') (max worst (pk' - eq)) eqs)"

definition max_drawdown_usd :: "portfolio \<Rightarrow> pyfloat" where
  "max_drawdown_usd pf = drawdown_loop None 0 (map snd (equity_history pf))"

fun token_pairs :: "string list \<Rightarrow> (string \<times> string) list" where
  "token_pairs [] = []"
| "token_pairs (t # ts) = map (Pair t) ts @ token_pairs ts"

definition series_returns :: "portfolio \<Rightarrow> string \<Rightarrow> pyfloat list" where
  "series_returns pf t = (case dict_get (pf_series pf) t of None \<Rightarrow> [] | Some s \<Rightarrow> rs_returns s)"

definition correlation_matrix :: "portfolio_config \<Rightarrow> portfolio \<Rightarrow> (string \<times> string, pyfloat) dict" where
  "correlation_matrix cfg pf =
     (if \<not> enable_correlation cfg then []
      else List.map_filter (\<lambda>(ta, tb). map_option (Pair (ta, tb)) (pearson (series_returns pf ta) (series_returns pf tb)))
             (token_pairs (sort (map fst (pf_series pf)))))"

definition open_position_count :: "portfolio \<Rightarrow> nat" where
  "open_position_count pf = length (positions pf)"

definition closed_position_count :: "portfolio \<Rightarrow> nat" where
  "closed_position_count pf = length (closed_positions pf)"


section \<open>The accounting identity\<close>

definition signed_basis :: "position \<Rightarrow> pyfloat" where
  "signed_basis p = (if p_side p = ''BUY'' then p_basis p else - p_basis p)"

definition position_ok :: "position \<Rightarrow> bool" where
  "position_ok p \<longleftrightarrow> 0 \<le> p_size p \<and> p_basis p = p_entry p * p_size p"

definition positions_ok :: "portfolio \<Rightarrow> bool" where
  "positions_ok pf \<longleftrightarrow> dict_wf (positions pf) \<and>
     (\<forall>k p. dict_get (positions pf) k = Some p \<longrightarrow> k = (p_token p, p_side p, p_slug p) \<and> position_ok p)"

definition closed_basis :: "portfolio \<Rightarrow> pyfloat" where
  "closed_basis pf = sum_list (map signed_basis (closed_positions pf))"

text \<open>
  The books balance when cash is the initial capital plus realised profit, less what the positions cost
  and less the fees of the opening fills, which \<open>realized_pnl_usd\<close> leaves out.
\<close>

definition books_balance :: "pyfloat \<Rightarrow> pyfloat \<Rightarrow> portfolio \<Rightarrow> bool" where
  "books_balance initial entry_fees pf \<longleftrightarrow>
     cash_usd pf = initial + realized_pnl_usd pf - dict_sum signed_basis (positions pf) - closed_basis pf - entry_fees"

lemma realized_dict_sum:
  "realized_pnl_usd pf = sum_list (map p_realized (closed_positions pf)) + dict_sum p_realized (positions pf)"
  by (simp add: realized_pnl_usd_def dict_sum_def comp_def)

lemma open_fill_position:
  assumes "position_ok p" "0 < f_size f"
  shows "position_ok (apply_open_fill f p)" "p_size (apply_open_fill f p) = p_size p + f_size f"
    "signed_basis (apply_open_fill f p) = signed_basis p + (if p_side p = ''BUY'' then notional_usd f else - notional_usd f)"
    "p_realized (apply_open_fill f p) = p_realized p" "p_token (apply_open_fill f p) = p_token p"
    "p_side (apply_open_fill f p) = p_side p" "p_slug (apply_open_fill f p) = p_slug p"
    "p_fees (apply_open_fill f p) = p_fees p + f_fee_usd f" "p_mark (apply_open_fill f p) = p_mark p"
  using assms by (simp_all add: apply_open_fill_def position_ok_def signed_basis_def notional_usd_def Let_def)

lemma close_fill_position:
  assumes "position_ok p" "0 < f_size f" "f_size f \<le> p_size p"
  shows "position_ok (apply_close_fill f p)" "p_size (apply_close_fill f p) = p_size p - f_size f"
    "p_token (apply_close_fill f p) = p_token p" "p_side (apply_close_fill f p) = p_side p"
    "p_slug (apply_close_fill f p) = p_slug p" "p_entry (apply_close_fill f p) = p_entry p"
    "p_realized (apply_close_fill f p) - signed_basis (apply_close_fill f p) = p_realized p - signed_basis p
       + (if p_side p = ''BUY'' then notional_usd f else - notional_usd f) - f_fee_usd f"
proof -
  have pos: "0 < p_size p" and mn: "min (f_size f) (p_size p) = f_size f" using assms by simp_all
  have b: "p_basis p = p_entry p * p_size p" using assms(1) by (simp add: position_ok_def)
  have chunk: "p_basis p * (f_size f / p_size p) = p_entry p * f_size f" using pos by (simp add: b)
  note d = apply_close_fill_def[of f p, unfolded Let_def mn chunk]
  show "position_ok (apply_close_fill f p)" "p_size (apply_close_fill f p) = p_size p - f_size f"
    "p_token (apply_close_fill f p) = p_token p" "p_side (apply_close_fill f p) = p_side p"
    "p_slug (apply_close_fill f p) = p_slug p" "p_entry (apply_close_fill f p) = p_entry p"
    using pos assms(3) b by (simp_all add: d position_ok_def algebra_simps)
  show "p_realized (apply_close_fill f p) - signed_basis (apply_close_fill f p) = p_realized p - signed_basis p
       + (if p_side p = ''BUY'' then notional_usd f else - notional_usd f) - f_fee_usd f"
    using pos by (simp add: d signed_basis_def notional_usd_def algebra_simps)
qed

lemma charge_gain_fields [simp]:
  "p_size (charge_gain fee p) = p_size p" "p_side (charge_gain fee p) = p_side p" "p_token (charge_gain fee p) = p_token p"
  "p_slug (charge_gain fee p) = p_slug p" "signed_basis (charge_gain fee p) = signed_basis p"
  "position_ok (charge_gain fee p) = position_ok p" "p_mark (charge_gain fee p) = p_mark p" "p_entry (charge_gain fee p) = p_entry p"
  by (simp_all add: charge_gain_def signed_basis_def position_ok_def)

lemma gain_fee_nonneg: "0 \<le> gain_fee cfg g"
  by (simp add: gain_fee_def split: option.splits)

lemma charge_gain_realized: "0 \<le> fee \<Longrightarrow> p_realized (charge_gain fee p) = p_realized p - fee"
  by (simp add: charge_gain_def)

lemma positions_okD:
  "positions_ok pf \<Longrightarrow> dict_get (positions pf) k = Some p \<Longrightarrow> k = (p_token p, p_side p, p_slug p) \<and> position_ok p"
  unfolding positions_ok_def by blast

lemma close_fill_keeps:
  assumes ok: "positions_ok pf" and bal: "books_balance c0 ef pf"
    and k: "dict_get (positions pf) k = Some p" and f: "0 < f_size f" "f_size f \<le> p_size p"
  shows "positions_ok (close_fill cfg k p f pf)" "books_balance c0 ef (close_fill cfg k p f pf)"
proof -
  note kp = positions_okD[OF ok k]
  have wf: "dict_wf (positions pf)" using ok by (simp add: positions_ok_def)
  note cl = close_fill_position[OF conjunct2[OF kp] f]
  let ?p1 = "apply_close_fill f p" let ?fee = "gain_fee cfg (p_realized ?p1 - p_realized p)" let ?p2 = "charge_gain ?fee ?p1"
  have real: "p_realized ?p2 = p_realized ?p1 - ?fee" by (rule charge_gain_realized[OF gain_fee_nonneg])
  show "positions_ok (close_fill cfg k p f pf)"
    using ok kp cl(1-5) by (auto simp: positions_ok_def close_fill_def Let_def)
  have cash: "cash_from_close ?p1 f (cash_usd pf) =
      cash_usd pf + (if p_side p = ''BUY'' then notional_usd f else - notional_usd f) - f_fee_usd f"
    using cl(4) by (simp add: cash_from_close_def)
  show "books_balance c0 ef (close_fill cfg k p f pf)"
    using bal k wf real cl(7) cash
    by (simp add: books_balance_def realized_dict_sum close_fill_def Let_def closed_basis_def dict_sum_pop dict_sum_set)
qed

lemma open_fill_keeps:
  assumes ok: "positions_ok pf" and bal: "books_balance c0 ef pf" and f: "0 < f_size f"
  shows "positions_ok (open_fill f sd slug pf)" "books_balance c0 (ef + f_fee_usd f) (open_fill f sd slug pf)"
proof -
  let ?k = "(f_token f, sd, slug)"
  let ?p = "case dict_get (positions pf) ?k of None \<Rightarrow> new_position (f_token f) sd slug | Some p \<Rightarrow> p"
  have p: "?k = (p_token ?p, p_side ?p, p_slug ?p) \<and> position_ok ?p"
    using positions_okD[OF ok, of ?k] by (auto simp: new_position_def position_ok_def split: option.splits)
  note op = open_fill_position[OF conjunct2[OF p] f]
  have wf: "dict_wf (positions pf)" using ok by (simp add: positions_ok_def)
  show "positions_ok (open_fill f sd slug pf)"
    using ok p op unfolding positions_ok_def open_fill_def Let_def by auto
  have sums: "dict_sum signed_basis (dict_set (positions pf) ?k (apply_open_fill f ?p)) =
       dict_sum signed_basis (positions pf) + (if sd = ''BUY'' then notional_usd f else - notional_usd f)"
    "dict_sum p_realized (dict_set (positions pf) ?k (apply_open_fill f ?p)) = dict_sum p_realized (positions pf)"
    using wf op p by (auto simp: dict_sum_set dict_sum_new new_position_def signed_basis_def split: option.splits)
  show "books_balance c0 (ef + f_fee_usd f) (open_fill f sd slug pf)"
    using bal unfolding books_balance_def realized_dict_sum open_fill_def Let_def closed_basis_def
    by (simp add: sums)
qed

lemma position_value_split: "position_ok p \<Longrightarrow> position_value p = signed_basis p + unrealized_pnl p"
  by (auto simp: position_ok_def position_value_def signed_basis_def unrealized_pnl_def Let_def algebra_simps split: option.splits)

lemma foldl_plus: "foldl (\<lambda>t p. t + g p) c xs = c + sum_list (map g xs)" for c :: real
  by (induction xs arbitrary: c) (simp_all add: add.assoc)

lemma equity_sum: "equity_usd pf = cash_usd pf + dict_sum position_value (positions pf)"
  by (simp add: equity_usd_def foldl_plus dict_sum_def comp_def)

lemma dict_sum_cong: "(\<And>k v. (k, v) \<in> set d \<Longrightarrow> w v = w' v) \<Longrightarrow> dict_sum w d = dict_sum w' d"
  unfolding dict_sum_def by (rule arg_cong[where f = sum_list]) auto

lemma equity_identity:
  assumes "positions_ok pf" "books_balance c0 ef pf"
  shows "equity_usd pf = c0 + total_pnl_usd pf - closed_basis pf - ef"
proof -
  have wf: "dict_wf (positions pf)" using assms(1) by (simp add: positions_ok_def)
  have "position_ok p" if "(k, p) \<in> set (positions pf)" for k p
    using dict_wf_get[OF wf that] positions_okD[OF assms(1)] by blast
  then have "dict_sum position_value (positions pf) = dict_sum (\<lambda>p. signed_basis p + unrealized_pnl p) (positions pf)"
    by (intro dict_sum_cong position_value_split) blast
  also have "\<dots> = dict_sum signed_basis (positions pf) + unrealized_pnl_usd pf"
    by (simp add: dict_sum_def unrealized_pnl_usd_def sum_list_addf comp_def)
  finally show ?thesis using assms(2) by (simp add: equity_sum books_balance_def total_pnl_usd_def)
qed

section \<open>Marking\<close>

lemma mark_fields:
  "cash_usd (mark cfg tok pr t pf) = cash_usd pf"
  "closed_positions (mark cfg tok pr t pf) = closed_positions pf"
  "positions (mark cfg tok pr t pf) = map (\<lambda>(k, p). (k, if fst k = tok then mark_position pr t p else p)) (positions pf)"
  "equity_history (mark cfg tok pr t pf) = equity_history pf @ [(t, equity_usd (mark cfg tok pr t pf))]"
  "peak_equity_usd (mark cfg tok pr t pf) = max (peak_equity_usd pf) (equity_usd (mark cfg tok pr t pf))"
  "resolution_fees_paid (mark cfg tok pr t pf) = resolution_fees_paid pf"
  by (simp_all add: mark_def Let_def equity_usd_def)

lemma mark_position_fields [simp]:
  "p_token (mark_position pr t p) = p_token p" "p_side (mark_position pr t p) = p_side p" "p_slug (mark_position pr t p) = p_slug p"
  "p_realized (mark_position pr t p) = p_realized p" "signed_basis (mark_position pr t p) = signed_basis p"
  "position_ok (mark_position pr t p) = position_ok p" "p_size (mark_position pr t p) = p_size p" "p_entry (mark_position pr t p) = p_entry p"
  by (simp_all add: mark_position_def signed_basis_def position_ok_def)

lemma dict_get_map: "dict_get (map (\<lambda>(k, v). (k, g k v)) d) k = map_option (g k) (dict_get d k)"
  by (induction d) (auto simp: dict_get_def)

lemma dict_wf_map: "dict_wf (map (\<lambda>(k, v). (k, g k v)) d) = dict_wf d"
  by (simp add: dict_wf_def comp_def case_prod_unfold)

lemma mark_keeps:
  assumes "positions_ok pf" "books_balance c0 ef pf"
  shows "positions_ok (mark cfg tok pr t pf)" "books_balance c0 ef (mark cfg tok pr t pf)"
proof -
  show "positions_ok (mark cfg tok pr t pf)"
    unfolding positions_ok_def mark_fields dict_get_map dict_wf_map
  proof (intro conjI allI impI)
    show "dict_wf (positions pf)" using assms(1) by (simp add: positions_ok_def)
    fix k p assume "map_option (\<lambda>p. if fst k = tok then mark_position pr t p else p) (dict_get (positions pf) k) = Some p"
    then obtain q where q: "dict_get (positions pf) k = Some q" "p = (if fst k = tok then mark_position pr t q else q)" by auto
    show "k = (p_token p, p_side p, p_slug p)" "position_ok p"
      using positions_okD[OF assms(1) q(1)] unfolding q(2) by auto
  qed
  have sums: "dict_sum w (map (\<lambda>(k, p). (k, if fst k = tok then mark_position pr t p else p)) d) = dict_sum w d"
    if "\<And>p. w (mark_position pr t p) = w p" for w :: "position \<Rightarrow> pyfloat" and d
    unfolding dict_sum_def using that by (induction d) auto
  show "books_balance c0 ef (mark cfg tok pr t pf)"
    using assms(2) unfolding books_balance_def realized_dict_sum mark_fields closed_basis_def by (simp add: sums)
qed

section \<open>Runs\<close>

datatype pf_event = FillEvent fill "string option" | MarkEvent string pyfloat timestamp

fun pf_step :: "portfolio_config \<Rightarrow> portfolio \<Rightarrow> pf_event \<Rightarrow> portfolio" where
  "pf_step cfg pf (FillEvent f slug) = apply_fill cfg f slug pf"
| "pf_step cfg pf (MarkEvent token price t) = mark cfg token price t pf"

definition pf_run :: "portfolio_config \<Rightarrow> pf_event list \<Rightarrow> portfolio" where
  "pf_run cfg evs = foldl (pf_step cfg) (init_portfolio cfg) evs"

text \<open>A fill fits when it is for a positive size and does not close more than there is.\<close>

definition closing :: "portfolio \<Rightarrow> fill \<Rightarrow> string option \<Rightarrow> position option" where
  "closing pf f slug = dict_get (positions pf) (f_token f, opposing_side (py_upper (f_side f)), slug)"

fun fits :: "portfolio \<Rightarrow> pf_event \<Rightarrow> bool" where
  "fits pf (FillEvent f slug) = (0 < f_size f \<and> (case closing pf f slug of None \<Rightarrow> True | Some p \<Rightarrow> f_size f \<le> p_size p))"
| "fits pf (MarkEvent token price t) = True"

fun all_fit :: "portfolio_config \<Rightarrow> portfolio \<Rightarrow> pf_event list \<Rightarrow> bool" where
  "all_fit cfg pf [] = True"
| "all_fit cfg pf (ev # evs) = (fits pf ev \<and> all_fit cfg (pf_step cfg pf ev) evs)"

text \<open>The fees of the opening fills of a run.\<close>

fun entry_fee :: "portfolio \<Rightarrow> pf_event \<Rightarrow> pyfloat" where
  "entry_fee pf (FillEvent f slug) = (if closing pf f slug = None then f_fee_usd f else 0)"
| "entry_fee pf (MarkEvent token price t) = 0"

fun entry_fees :: "portfolio_config \<Rightarrow> portfolio \<Rightarrow> pf_event list \<Rightarrow> pyfloat" where
  "entry_fees cfg pf [] = 0"
| "entry_fees cfg pf (ev # evs) = entry_fee pf ev + entry_fees cfg (pf_step cfg pf ev) evs"

lemma pf_step_keeps:
  assumes "positions_ok pf" "books_balance c0 ef pf" "fits pf ev"
  shows "positions_ok (pf_step cfg pf ev) \<and> books_balance c0 (ef + entry_fee pf ev) (pf_step cfg pf ev)"
proof (cases ev)
  case (FillEvent f slug)
  show ?thesis
  proof (cases "closing pf f slug")
    case None
    then show ?thesis using assms open_fill_keeps[OF assms(1,2), of f]
      by (simp add: FillEvent apply_fill_def Let_def closing_def)
  next
    case (Some p)
    then show ?thesis using assms close_fill_keeps[OF assms(1,2), of _ p f cfg]
      by (simp add: FillEvent apply_fill_def Let_def closing_def)
  qed
qed (use mark_keeps[OF assms(1,2)] in simp)

lemma pf_fold_keeps:
  "positions_ok pf \<Longrightarrow> books_balance c0 ef pf \<Longrightarrow> all_fit cfg pf evs \<Longrightarrow>
   positions_ok (foldl (pf_step cfg) pf evs) \<and>
   books_balance c0 (ef + entry_fees cfg pf evs) (foldl (pf_step cfg) pf evs)"
proof (induction evs arbitrary: pf ef)
  case (Cons ev evs)
  then show ?case using pf_step_keeps[of pf c0 ef ev cfg] Cons.IH[of "pf_step cfg pf ev" "ef + entry_fee pf ev"]
    by (simp add: add.assoc)
qed simp

lemma init_keeps: "positions_ok (init_portfolio cfg)" "books_balance (initial_capital_usd cfg) 0 (init_portfolio cfg)"
  by (simp_all add: positions_ok_def books_balance_def init_portfolio_def realized_pnl_usd_def closed_basis_def)

section \<open>Drawdown\<close>

definition next_peak :: "pyfloat option \<Rightarrow> pyfloat \<Rightarrow> pyfloat" where
  "next_peak pk e = (case pk of None \<Rightarrow> e | Some x \<Rightarrow> max x e)"

lemma drawdown_Cons:
  "drawdown_loop pk worst (e # eqs) = drawdown_loop (Some (next_peak pk e)) (max worst (next_peak pk e - e)) eqs"
  by (simp add: next_peak_def Let_def)

lemma next_peak_ge: "e \<le> next_peak pk e" "pk = Some x \<Longrightarrow> x \<le> next_peak pk e"
  by (auto simp: next_peak_def split: option.splits)

lemma next_peak_source: "next_peak pk e = e \<or> pk = Some (next_peak pk e)"
  by (auto simp: next_peak_def max_def split: option.splits)

lemma drawdown_ge_worst: "worst \<le> drawdown_loop pk worst eqs"
proof (induction eqs arbitrary: pk worst)
  case (Cons e eqs)
  then show ?case unfolding drawdown_Cons using Cons[of "max worst (next_peak pk e - e)" "Some (next_peak pk e)"] by linarith
qed simp

lemma drawdown_ge_peak:
  "j < length eqs \<Longrightarrow> x - eqs ! j \<le> drawdown_loop (Some x) worst eqs"
proof (induction eqs arbitrary: x worst j)
  case (Cons e eqs)
  let ?pk = "next_peak (Some x) e"
  note g = drawdown_ge_worst[of "max worst (?pk - e)" "Some ?pk" eqs] next_peak_ge(2)[of "Some x" x e, OF refl]
  show ?case
  proof (cases j)
    case 0
    then show ?thesis unfolding drawdown_Cons using g by simp
  next
    case (Suc j')
    then show ?thesis unfolding drawdown_Cons using g(2) Cons.IH[of j' ?pk "max worst (?pk - e)"] Cons.prems by simp
  qed
qed simp

lemma drawdown_ge:
  "i \<le> j \<Longrightarrow> j < length eqs \<Longrightarrow> eqs ! i - eqs ! j \<le> drawdown_loop pk worst eqs"
proof (induction eqs arbitrary: pk worst i j)
  case (Cons e eqs)
  let ?pk = "next_peak pk e" let ?w = "max worst (?pk - e)"
  note g = drawdown_ge_worst[of ?w "Some ?pk" eqs] next_peak_ge(1)[of e pk]
  show ?case
  proof (cases j)
    case 0
    then show ?thesis unfolding drawdown_Cons using g Cons.prems by simp
  next
    case (Suc j')
    show ?thesis
    proof (cases i)
      case 0
      then show ?thesis unfolding drawdown_Cons using Suc g drawdown_ge_peak[of j' eqs ?pk ?w] Cons.prems by simp
    next
      case (Suc i')
      then show ?thesis unfolding drawdown_Cons using \<open>j = Suc j'\<close> Cons.IH[of i' j' "Some ?pk" ?w] Cons.prems by simp
    qed
  qed
qed simp

lemma drawdown_attained:
  "drawdown_loop pk worst eqs = worst \<or> (\<exists>x j. pk = Some x \<and> j < length eqs \<and> drawdown_loop pk worst eqs = x - eqs ! j) \<or>
   (\<exists>i j. i \<le> j \<and> j < length eqs \<and> drawdown_loop pk worst eqs = eqs ! i - eqs ! j)"
proof (induction eqs arbitrary: pk worst)
  case (Cons e eqs)
  let ?pk = "next_peak pk e" let ?w = "max worst (?pk - e)"
  define r where "r = drawdown_loop (Some ?pk) ?w eqs"
  have w: "?w = worst \<or> ?w = ?pk - e" by (simp add: max_def)
  from Cons[of "Some ?pk" ?w] consider "r = worst" | j where "j < length (e # eqs)" "r = ?pk - (e # eqs) ! j"
    | i j where "i \<le> j" "j < length eqs" "r = eqs ! i - eqs ! j"
    unfolding r_def[symmetric] using w by (metis Suc_less_eq length_Cons nth_Cons_0 nth_Cons_Suc option.inject zero_less_Suc)
  then show ?case unfolding drawdown_Cons r_def[symmetric]
  proof cases
    case (2 j)
    from next_peak_source[of pk e] show "r = worst \<or> (\<exists>x j. pk = Some x \<and> j < length (e # eqs) \<and> r = x - (e # eqs) ! j) \<or>
        (\<exists>i j. i \<le> j \<and> j < length (e # eqs) \<and> r = (e # eqs) ! i - (e # eqs) ! j)"
    proof
      assume "?pk = e"
      then have "r = (e # eqs) ! 0 - (e # eqs) ! j" using 2 by simp
      then show ?thesis using 2(1) le0 by blast
    qed (use 2 in blast)
  next
    case (3 i j)
    then have "r = (e # eqs) ! Suc i - (e # eqs) ! Suc j" "Suc i \<le> Suc j" "Suc j < length (e # eqs)" by simp_all
    then show "r = worst \<or> (\<exists>x j. pk = Some x \<and> j < length (e # eqs) \<and> r = x - (e # eqs) ! j) \<or>
        (\<exists>i j. i \<le> j \<and> j < length (e # eqs) \<and> r = (e # eqs) ! i - (e # eqs) ! j)" by blast
  qed blast
qed simp

section \<open>Properties\<close>


definition sample_fill :: "string \<Rightarrow> pyfloat \<Rightarrow> pyfloat \<Rightarrow> pyfloat \<Rightarrow> fill" where
  "sample_fill sd price sz fee =
     \<lparr>f_order_id = ''a'', f_token = ''t'', f_side = sd, f_price = price, f_size = sz, f_fee_usd = fee,
      f_occurred_at = 0, f_index = 0, f_sequence = None, f_notes = []\<rparr>"

definition sample_pf_events :: "pf_event list" where
  "sample_pf_events =
     [FillEvent (sample_fill ''BUY'' (1 / 2) 100 1) None, MarkEvent ''t'' (6 / 10) 5,
      FillEvent (sample_fill ''SELL'' (6 / 10) 40 1) None]"

lemma sample_pf_fit: "all_fit default_portfolio_config (init_portfolio default_portfolio_config) sample_pf_events"
  by (simp add: sample_pf_events_def sample_fill_def closing_def init_portfolio_def default_portfolio_config_def
      apply_fill_def open_fill_def opposing_side_def apply_open_fill_def new_position_def Let_def notional_usd_def
      dict_get_def dict_set_def mark_def mark_position_def)


text \<open>
  The maximum drawdown is the largest fall of the equity history from a value to a later one, and
  zero when it never falls.
\<close>

theorem max_drawdown_correct:
  fixes pf :: portfolio
  defines "eqs \<equiv> map snd (equity_history pf)"
  shows "0 \<le> max_drawdown_usd pf \<and> (\<forall>i j. i \<le> j \<and> j < length eqs \<longrightarrow> eqs ! i - eqs ! j \<le> max_drawdown_usd pf) \<and>
    (max_drawdown_usd pf = 0 \<or> (\<exists>i j. i \<le> j \<and> j < length eqs \<and> max_drawdown_usd pf = eqs ! i - eqs ! j))"
  using drawdown_ge_worst[of 0 None eqs] drawdown_ge[of _ _ eqs None 0] drawdown_attained[of None 0 eqs]
  unfolding max_drawdown_usd_def eqs_def by simp

theorem max_drawdown_correct_witness:
  "6 \<le> max_drawdown_usd ((init_portfolio default_portfolio_config)\<lparr>equity_history := [(0, 10), (1, 4), (2, 6)]\<rparr>)"
proof -
  let ?pf = "(init_portfolio default_portfolio_config)\<lparr>equity_history := [(0, 10), (1, 4), (2, 6)]\<rparr>"
  have "0 \<le> (1::nat) \<and> 1 < length (map snd (equity_history ?pf)) \<longrightarrow>
      map snd (equity_history ?pf) ! 0 - map snd (equity_history ?pf) ! 1 \<le> max_drawdown_usd ?pf"
    using max_drawdown_correct[of ?pf] by blast
  then show ?thesis by simp
qed

lemma can_submit_ok:
  assumes "can_submit cfg pf token side price sz slug = (True, None)"
  shows "py_upper side = ''BUY'' \<Longrightarrow> max 0 (price * sz) \<le> cash_usd pf + eps9"
    "max_gross_exposure_usd cfg = Some c \<Longrightarrow> gross_exposure_usd pf + max 0 (price * sz) \<le> c + eps9"
    "max_per_market_notional_usd cfg = Some c \<Longrightarrow> market_exposure pf token + max 0 (price * sz) \<le> c + eps9"
    "max_per_strategy_notional_usd cfg = Some c \<Longrightarrow> slug = Some s \<Longrightarrow> s \<noteq> [] \<Longrightarrow>
       strategy_exposure pf s + max 0 (price * sz) \<le> c + eps9"
    "max_open_positions cfg = Some n \<Longrightarrow> dict_get (positions pf) (token, py_upper side, slug) = None \<Longrightarrow> length (positions pf) < n"
  using assms by (auto simp: can_submit_def over_cap_def Let_def not_less split: if_splits option.splits)

lemma open_new_fill:
  fixes f :: fill and sd :: string and slug :: "string option"
  defines "p \<equiv> apply_open_fill f (new_position (f_token f) sd slug)"
  assumes new: "dict_get (positions pf) (f_token f, sd, slug) = None" and f: "0 < f_size f"
  shows "positions (open_fill f sd slug pf) = positions pf @ [((f_token f, sd, slug), p)]"
    "exposure p = notional_usd f" "p_slug p = slug"
  using f by (simp_all add: open_fill_def Let_def new dict_set_new[OF new] p_def exposure_def mark_or_entry_def
      apply_open_fill_def new_position_def notional_usd_def)


definition capped_config :: portfolio_config where
  "capped_config = default_portfolio_config\<lparr>max_gross_exposure_usd := Some 100, max_open_positions := Some 3\<rparr>"


text \<open>
  An oversized close creates money: the position closes only for its own size, but cash is credited with
  the whole fill, so selling 30 shares against a long of 10 at its own entry price lifts equity by the
  notional of the 20 shares that were never held.
\<close>

theorem oversized_close_creates_cash:
  "let cfg = default_portfolio_config;
       held = pf_run cfg [FillEvent (sample_fill ''BUY'' (1 / 2) 10 0) None];
       sold = pf_run cfg [FillEvent (sample_fill ''BUY'' (1 / 2) 10 0) None, FillEvent (sample_fill ''SELL'' (1 / 2) 30 0) None]
   in equity_usd held = 10000 \<and> equity_usd sold = 10010 \<and> open_position_count sold = 0 \<and> total_pnl_usd sold = 0"
  by (simp add: pf_run_def sample_fill_def init_portfolio_def default_portfolio_config_def apply_fill_def
      open_fill_def close_fill_def opposing_side_def apply_open_fill_def apply_close_fill_def new_position_def Let_def
      notional_usd_def dict_get_def dict_set_def dict_pop_def cash_from_close_def gain_fee_def charge_gain_def
      equity_usd_def position_value_def eps12_def open_position_count_def total_pnl_usd_def realized_pnl_usd_def unrealized_pnl_usd_def)

section \<open>Correlations\<close>

definition pair_sum :: "(pyfloat \<Rightarrow> pyfloat \<Rightarrow> pyfloat) \<Rightarrow> (pyfloat \<times> pyfloat) list \<Rightarrow> pyfloat" where
  "pair_sum g zs = sum_list (map (\<lambda>(x, y). g x y) zs)"

lemma pair_sum_square:
  "pair_sum (\<lambda>x y. (a * y - c * x)\<^sup>2) zs =
     a\<^sup>2 * pair_sum (\<lambda>x y. y\<^sup>2) zs - 2 * a * c * pair_sum (\<lambda>x y. x * y) zs + c\<^sup>2 * pair_sum (\<lambda>x y. x\<^sup>2) zs"
  by (induction zs) (auto simp: pair_sum_def algebra_simps power2_eq_square)

lemma pair_sum_nonneg: "(\<And>x y. 0 \<le> g x y) \<Longrightarrow> 0 \<le> pair_sum g zs"
  unfolding pair_sum_def by (rule sum_list_nonneg_real) auto

lemma cauchy_schwarz_pairs:
  "(pair_sum (\<lambda>x y. x * y) zs)\<^sup>2 \<le> pair_sum (\<lambda>x y. x\<^sup>2) zs * pair_sum (\<lambda>x y. y\<^sup>2) zs"
proof -
  let ?a = "pair_sum (\<lambda>x y. x\<^sup>2) zs" and ?b = "pair_sum (\<lambda>x y. y\<^sup>2) zs" and ?c = "pair_sum (\<lambda>x y. x * y) zs"
  have nn: "0 \<le> ?a" by (rule pair_sum_nonneg) simp
  show ?thesis
  proof (cases "?a = 0")
    case True
    have "\<forall>z\<in>set zs. fst z = 0" using True
    proof (induction zs)
      case (Cons z zs)
      have "0 \<le> pair_sum (\<lambda>x y. x\<^sup>2) zs" by (rule pair_sum_nonneg) simp
      then have "pair_sum (\<lambda>x y. x\<^sup>2) zs = 0" "(fst z)\<^sup>2 = 0"
        using Cons.prems by (simp_all add: pair_sum_def case_prod_unfold add_nonneg_eq_0_iff)
      then show ?case using Cons.IH by simp
    qed simp
    then have "?c = 0" by (induction zs) (auto simp: pair_sum_def)
    then show ?thesis using True by simp
  next
    case False
    have "0 \<le> pair_sum (\<lambda>x y. (?a * y - ?c * x)\<^sup>2) zs" by (rule pair_sum_nonneg) simp
    then have "0 \<le> ?a * (?a * ?b - ?c\<^sup>2)" unfolding pair_sum_square by (simp add: algebra_simps power2_eq_square)
    then have "0 \<le> ?a * ?b - ?c\<^sup>2" using False nn by (simp add: zero_le_mult_iff)
    then show ?thesis by simp
  qed
qed

lemma pair_sum_zip:
  assumes "length xs = length ys"
  shows "pair_sum (\<lambda>x y. x\<^sup>2) (zip (map g xs) (map h ys)) = sum_list (map (\<lambda>x. (g x)\<^sup>2) xs)"
    "pair_sum (\<lambda>x y. y\<^sup>2) (zip (map g xs) (map h ys)) = sum_list (map (\<lambda>y. (h y)\<^sup>2) ys)"
    "pair_sum (\<lambda>x y. x * y) (zip (map g xs) (map h ys)) = sum_list (map (\<lambda>(x, y). g x * h y) (zip xs ys))"
  using assms by (induction xs ys rule: list_induct2) (auto simp: pair_sum_def)

lemma swapped_sum:
  "length xs = length ys \<Longrightarrow>
   sum_list (map (\<lambda>(x, y). (x - a) * (y - b)) (zip xs ys)) = sum_list (map (\<lambda>(y, x). (y - b) * (x - a)) (zip ys xs))"
  for a b :: real by (induction xs ys rule: list_induct2) (auto simp: mult.commute)

text \<open>
  A reported correlation is a correlation: it lies between -1 and 1 and does not depend on the order of the
  two series.
\<close>

theorem pearson_is_correlation:
  assumes "pearson a b = Some r"
  shows "- 1 \<le> r \<and> r \<le> 1 \<and> pearson b a = Some r"
proof -
  define n where "n = min (length a) (length b)"
  define xs where "xs = lastn n a" define ys where "ys = lastn n b"
  define mx where "mx = sum_list xs / real n" define my where "my = sum_list ys / real n"
  define num where "num = sum_list (map (\<lambda>(x, y). (x - mx) * (y - my)) (zip xs ys))"
  define A where "A = sum_list (map (\<lambda>x. (x - mx)\<^sup>2) xs)" define B where "B = sum_list (map (\<lambda>y. (y - my)\<^sup>2) ys)"
  note defs = n_def xs_def ys_def mx_def my_def num_def A_def B_def
  have len: "length xs = length ys" by (simp add: xs_def ys_def lastn_def n_def)
  have p: "pearson a b = (if n < 4 then None else if sqrt A \<le> 0 \<or> sqrt B \<le> 0 then None else Some (num / (sqrt A * sqrt B)))"
    unfolding pearson_def Let_def defs ..
  have q: "pearson b a = (if n < 4 then None else if sqrt B \<le> 0 \<or> sqrt A \<le> 0 then None else Some (num / (sqrt B * sqrt A)))"
    unfolding pearson_def Let_def min.commute[of "length b"] n_def[symmetric] xs_def[symmetric] ys_def[symmetric]
      mx_def[symmetric] my_def[symmetric] A_def[symmetric] B_def[symmetric] num_def swapped_sum[OF len] ..
  from assms p have pos: "0 < sqrt A" "0 < sqrt B" and r: "r = num / (sqrt A * sqrt B)" by (auto split: if_splits)
  have "num\<^sup>2 \<le> A * B"
    using cauchy_schwarz_pairs[of "zip (map (\<lambda>x. x - mx) xs) (map (\<lambda>y. y - my) ys)"]
    unfolding pair_sum_zip[OF len] A_def B_def num_def .
  then have "\<bar>num\<bar> \<le> sqrt A * sqrt B" by (metis real_sqrt_abs real_sqrt_le_mono real_sqrt_mult)
  then have "\<bar>r\<bar> \<le> 1" using pos by (simp add: r abs_mult)
  moreover have "pearson b a = Some r" using assms unfolding p q by (auto simp: mult.commute split: if_splits)
  ultimately show ?thesis by (simp add: abs_le_iff)
qed

theorem pearson_is_correlation_witness:
  "\<exists>r. pearson [0, 0, 1, 1] [0, 1, 0, 1] = Some r \<and> - 1 \<le> r \<and> r \<le> 1"
proof -
  have "\<exists>r. pearson [0, 0, 1, 1] [0, 1, 0, 1] = Some r"
    by (simp add: pearson_def lastn_def Let_def power2_eq_square)
  then show ?thesis using pearson_is_correlation by blast
qed

fun log_returns :: "pyfloat list \<Rightarrow> pyfloat list" where
  "log_returns (p # q # ps) = ln (q / p) # log_returns (q # ps)"
| "log_returns _ = []"

lemma log_returns_append: "xs \<noteq> [] \<Longrightarrow> log_returns (xs @ [x]) = log_returns xs @ [ln (x / last xs)]"
  by (induction xs rule: log_returns.induct) auto

lemma deque_append_lastn: "deque_append n (lastn n xs) x = lastn n (xs @ [x])"
  by (cases "n \<le> length xs") (auto simp: deque_append_def lastn_def Let_def Suc_diff_le)

lemma last_lastn: "xs \<noteq> [] \<Longrightarrow> 0 < n \<Longrightarrow> last (lastn n xs) = last xs \<and> lastn n xs \<noteq> []"
proof -
  assume "xs \<noteq> []" "0 < n"
  then have "length xs - n < length xs" by (cases xs) auto
  then show ?thesis by (simp add: lastn_def)
qed

text \<open>
  C25: The rolling series keeps exactly the window: whatever prices are pushed, the returns are the log returns
  of the last \<open>window + 1\<close> positive prices (window at least 8), non-positive prices leaving no trace.
\<close>

theorem return_series_window:
  fixes w :: int and ps :: "pyfloat list"
  defines "s \<equiv> foldl (\<lambda>s p. push p s) (new_series w) ps" and "n \<equiv> nat (max 8 w)"
  shows "rs_prices s = lastn (n + 1) (filter (\<lambda>p. 0 < p) ps) \<and> rs_returns s = lastn n (log_returns (filter (\<lambda>p. 0 < p) ps))
    \<and> rs_window s = n"
  unfolding s_def
proof (induction ps rule: rev_induct)
  case Nil
  then show ?case by (simp add: new_series_def lastn_def n_def)
next
  case (snoc p ps)
  let ?s = "foldl (\<lambda>s p. push p s) (new_series w) ps" and ?xs = "filter (\<lambda>p. 0 < p) ps"
  note IH = snoc
  show ?case
  proof (cases "p \<le> 0")
    case True
    then show ?thesis using IH by (simp add: push_def)
  next
    case False
    show ?thesis
    proof (cases "?xs = []")
      case True
      then show ?thesis using IH False by (simp add: push_def lastn_def deque_append_def)
    next
      case xs: False
      note l = last_lastn[OF xs, of "n + 1"]
      have "last ?xs \<in> set ?xs" using xs by (rule last_in_set)
      then have "0 < last ?xs" by simp
      then show ?thesis using IH False l xs
        by (simp add: push_def log_returns_append deque_append_lastn)
    qed
  qed
qed

end
