(* ===== verification/ExitPlan.thy ===== *)
theory ExitPlan
  imports Venue
begin

text \<open>
  The pure planner of \<open>services/trader_orchestrator/exit_executor.py\<close>: a policy (ladder,
  chunking, order-type mix) and a target size become a list of child orders; the backtest and the live
  orchestrator run the same planner. With it the serialisation of a policy into the row of a pending exit,
  and the completion and selection helpers over the stored children.
\<close>

section \<open>Policies and plans\<close>

record ladder_spec =
  l_levels :: int
  l_step_ticks :: int
  l_offset_ticks :: int
  l_distribution :: string

record escalation_spec =
  es_after_seconds :: pyfloat
  es_action :: string
  es_widen_bps :: "pyfloat option"
  es_max_escalations :: int

record exit_policy =
  x_ladder :: "ladder_spec option"
  x_chunk_size :: "pyfloat option"
  x_max_chunks :: int
  x_order_type_mix :: "(string \<times> pyfloat) list option"
  x_escalation :: "escalation_spec option"
  x_reprice_bps :: "pyfloat option"
  x_min_chunk_notional :: pyfloat
  x_min_reprice_interval :: pyfloat

definition default_policy :: exit_policy where
  "default_policy =
     \<lparr>x_ladder = None, x_chunk_size = None, x_max_chunks = 50, x_order_type_mix = None, x_escalation = None,
      x_reprice_bps = None, x_min_chunk_notional = 1, x_min_reprice_interval = 1\<rparr>"

record child_plan =
  cp_index :: nat
  cp_price :: pyfloat
  cp_size :: pyfloat
  cp_tif :: string
  cp_post_only :: bool
  cp_bucket :: nat

definition default_tick_size :: pyfloat where
  "default_tick_size = 1 / 100"

definition round_down_to_tick :: "pyfloat \<Rightarrow> pyfloat \<Rightarrow> pyfloat" where
  "round_down_to_tick price tick =
     (if tick \<le> 0 then price else max tick (of_int \<lfloor>price / tick + eps9\<rfloor> * tick))"

definition round_up_to_tick :: "pyfloat \<Rightarrow> pyfloat \<Rightarrow> pyfloat" where
  "round_up_to_tick price tick =
     (if tick \<le> 0 then price else max tick (of_int \<lceil>price / tick - eps9\<rceil> * tick))"

definition clamp_binary_price :: "pyfloat \<Rightarrow> pyfloat \<Rightarrow> pyfloat" where
  "clamp_binary_price price tick = round_down_to_tick (max tick (min (99 / 100) price)) tick"

text \<open>\<open>(distribution or "uniform").strip().lower()\<close>.\<close>

definition distribution_mode :: "string \<Rightarrow> string" where
  "distribution_mode d = py_lower (py_strip (if d = [] then ''uniform'' else d))"

definition distribution_weights :: "int \<Rightarrow> string \<Rightarrow> pyfloat list" where
  "distribution_weights levels distribution =
     (let n = nat (max 1 levels); mode = distribution_mode distribution;
          raw = (if mode = ''front_loaded'' then map (\<lambda>i. real (n - i)) [0..<n]
                 else if mode = ''back_loaded'' then map (\<lambda>i. real (i + 1)) [0..<n]
                 else replicate n 1);
          tot = sum_list raw
      in if tot \<le> 0 then replicate n (1 / real n) else map (\<lambda>w. w / tot) raw)"

section \<open>Order types of the children\<close>

text \<open>The first index with the largest (smallest) key, as Python's \<open>max\<close> and \<open>min\<close>.\<close>

definition first_best :: "(nat \<Rightarrow> nat \<Rightarrow> bool) \<Rightarrow> nat list \<Rightarrow> nat" where
  "first_best better is = (case is of [] \<Rightarrow> 0 | i # js \<Rightarrow> foldl (\<lambda>b j. if better j b then j else b) i js)"

definition aggression_rank :: "string \<Rightarrow> nat" where
  "aggression_rank tif =
     (if tif = ''FOK'' then 0 else if tif = ''IOC'' \<or> tif = ''FAK'' then 1
      else if tif = ''GTC'' then 2 else if tif = ''GTD'' then 3 else 9)"

definition mix_counts :: "int \<Rightarrow> (string \<times> pyfloat) list \<Rightarrow> pyfloat \<Rightarrow> (string \<times> int) list" where
  "mix_counts tot mix total_weight =
     (let counts = map (\<lambda>(tif, w). (py_upper tif, round_half_even (of_int tot * (max 0 w / total_weight)))) mix;
          assigned = sum_list (map snd counts);
          key = (\<lambda>i. let n = snd (counts ! i) in if n = 0 then 1 else n);
          largest = first_best (\<lambda>j b. key j > key b) [0..<length counts]
      in if assigned < tot then
           counts[largest := (fst (counts ! largest), snd (counts ! largest) + (tot - assigned))]
         else if assigned > tot then
           counts[largest := (fst (counts ! largest), max 0 (snd (counts ! largest) - (assigned - tot)))]
         else counts)"

fun pick_type :: "int \<Rightarrow> int \<Rightarrow> (string \<times> int) list \<Rightarrow> string \<Rightarrow> bool \<Rightarrow> string \<times> bool" where
  "pick_type index cursor [] default_tif default_post_only = (default_tif, default_post_only)"
| "pick_type index cursor ((tif, n) # counts) default_tif default_post_only =
     (if index < cursor + n then
        if py_upper tif \<in> {''IOC'', ''FAK'', ''FOK''} then (py_upper tif, False) else (py_upper tif, default_post_only)
      else pick_type index (cursor + n) counts default_tif default_post_only)"

definition resolve_order_type ::
    "int \<Rightarrow> int \<Rightarrow> (string \<times> pyfloat) list option \<Rightarrow> string \<Rightarrow> bool \<Rightarrow> string \<times> bool" where
  "resolve_order_type index tot mix default_tif default_post_only =
     (case mix of
        None \<Rightarrow> (default_tif, default_post_only)
      | Some mx \<Rightarrow>
          if mx = [] then (default_tif, default_post_only)
          else let total_weight = sum_list (map (\<lambda>(_, w). max 0 w) mx) in
            if total_weight \<le> 0 \<or> tot \<le> 0 then (default_tif, default_post_only)
            else pick_type index 0 (sort_key (\<lambda>kv. aggression_rank (fst kv)) (mix_counts tot mx total_weight))
                   default_tif default_post_only)"

section \<open>The planner\<close>

fun dedupe :: "pyfloat list \<Rightarrow> pyfloat list \<Rightarrow> pyfloat list" where
  "dedupe seen [] = []"
| "dedupe seen (p # ps) = (if p \<in> set seen then dedupe seen ps else p # dedupe (p # seen) ps)"

definition plan_prices :: "exit_policy \<Rightarrow> pyfloat \<Rightarrow> bool \<Rightarrow> pyfloat \<Rightarrow> pyfloat list" where
  "plan_prices policy trigger_price sell tick =
     (let levels0 = (case x_ladder policy of None \<Rightarrow> 1 | Some l \<Rightarrow> l_levels l);
          levels = nat (max 1 (min (x_max_chunks policy) levels0));
          step = (case x_ladder policy of None \<Rightarrow> 0 | Some l \<Rightarrow> max 0 (l_step_ticks l));
          off = (case x_ladder policy of None \<Rightarrow> 0 | Some l \<Rightarrow> max 0 (l_offset_ticks l));
          raw = (\<lambda>i. let offset = of_int (off + int i * step) * tick
                      in if sell then trigger_price - offset else trigger_price + offset)
      in dedupe [] (map (\<lambda>i. clamp_binary_price (raw i) tick) [0..<levels]))"

text \<open>Chunks per level: allocation, the roll-forward of levels too small for one order, and its return.\<close>

fun level_chunks :: "pyfloat \<Rightarrow> pyfloat \<Rightarrow> pyfloat \<Rightarrow> (pyfloat \<times> pyfloat) list \<Rightarrow> (int \<times> pyfloat) list \<times> pyfloat" where
  "level_chunks chunk min_notional roll [] = ([], roll)"
| "level_chunks chunk min_notional roll ((price, alloc) # ls) =
     (let level_size = alloc + roll;
          min_chunk = (if price > 0 then min_notional / price else chunk);
          effective = max chunk min_chunk
      in if level_size + eps9 < min_chunk then
           let (per, r) = level_chunks chunk min_notional level_size ls in ((0, 0) # per, r)
         else
           let n = max 1 \<lfloor>level_size / effective\<rfloor>;
               (per, r) = level_chunks chunk min_notional 0 ls in ((n, effective) # per, r))"

fun credit_back :: "pyfloat \<Rightarrow> (int \<times> pyfloat) list \<Rightarrow> (int \<times> pyfloat) list" where
  "credit_back roll [] = []"
| "credit_back roll ((n, ec) # ls) =
     (if n > 0 then (n + max 1 \<lfloor>roll / ec\<rfloor>, ec) # ls else (n, ec) # credit_back roll ls)"

definition chunk_table :: "pyfloat \<Rightarrow> pyfloat \<Rightarrow> pyfloat list \<Rightarrow> pyfloat list \<Rightarrow> (int \<times> pyfloat) list" where
  "chunk_table chunk min_notional prices allocs =
     (let (per, roll) = level_chunks chunk min_notional 0 (zip prices allocs)
      in if roll > 0 then rev (credit_back roll (rev per)) else per)"

primrec peel :: "nat \<Rightarrow> pyfloat list \<Rightarrow> (int \<times> pyfloat) list \<Rightarrow> (int \<times> pyfloat) list" where
  "peel 0 weights per = per"
| "peel (Suc k) weights per =
     (let candidates = filter (\<lambda>i. fst (per ! i) > 0) [0..<length per];
          better = (\<lambda>j b. weights ! j < weights ! b \<or> (weights ! j = weights ! b \<and> fst (per ! j) > fst (per ! b)));
          k' = first_best better candidates
      in if candidates = [] then per
         else peel k weights (per[k' := (fst (per ! k') - 1, snd (per ! k'))]))"

definition chunk_total :: "(int \<times> pyfloat) list \<Rightarrow> int" where
  "chunk_total per = sum_list (map fst per)"

text \<open>Emission: \<open>n\<close> chunks at one price, then the next level, until the target is used up.\<close>

fun emit_level ::
    "(nat \<Rightarrow> string \<times> bool) \<Rightarrow> nat \<Rightarrow> pyfloat \<Rightarrow> pyfloat \<Rightarrow> nat \<Rightarrow> nat \<Rightarrow> pyfloat \<Rightarrow> child_plan list \<times> nat \<times> pyfloat" where
  "emit_level typ lvl price eff 0 flat remaining = ([], flat, remaining)"
| "emit_level typ lvl price eff (Suc n) flat remaining =
     (if remaining \<le> 0 then ([], flat, remaining)
      else let sz = min eff remaining;
               (tif, po) = typ flat;
               (ps, flat', r) = emit_level typ lvl price eff n (flat + 1) (remaining - sz)
           in (\<lparr>cp_index = flat, cp_price = price, cp_size = sz, cp_tif = tif, cp_post_only = po, cp_bucket = lvl\<rparr> # ps,
               flat', r))"

fun emit_chunks ::
    "(nat \<Rightarrow> string \<times> bool) \<Rightarrow> nat \<Rightarrow> (pyfloat \<times> int \<times> pyfloat) list \<Rightarrow> nat \<Rightarrow> pyfloat \<Rightarrow> child_plan list \<times> pyfloat" where
  "emit_chunks typ lvl [] flat remaining = ([], remaining)"
| "emit_chunks typ lvl ((price, n, eff) # ls) flat remaining =
     (if n \<le> 0 \<or> eff \<le> 0 then emit_chunks typ (lvl + 1) ls flat remaining
      else let (ps, flat', r) = emit_level typ lvl price eff (nat n) flat remaining in
        if r \<le> 0 then (ps, r)
        else let (qs, r') = emit_chunks typ (lvl + 1) ls flat' r in (ps @ qs, r'))"

definition add_to_first :: "pyfloat \<Rightarrow> child_plan list \<Rightarrow> child_plan list" where
  "add_to_first extra ps = (case ps of [] \<Rightarrow> [] | p # qs \<Rightarrow> p\<lparr>cp_size := cp_size p + extra\<rparr> # qs)"

definition chunked_plans ::
    "exit_policy \<Rightarrow> pyfloat \<Rightarrow> pyfloat \<Rightarrow> pyfloat \<Rightarrow> pyfloat list \<Rightarrow> pyfloat list \<Rightarrow> string \<Rightarrow> bool \<Rightarrow> child_plan list" where
  "chunked_plans policy chunk target min_notional prices weights default_tif default_post_only =
     (let nominal = max 1 \<lceil>target / chunk\<rceil>;
          cap = min (x_max_chunks policy) nominal;
          per0 = chunk_table chunk min_notional prices (map (\<lambda>w. w * target) weights);
          per = peel (nat (chunk_total per0 - cap)) weights per0;
          typ = (\<lambda>i. resolve_order_type (int i) (chunk_total per) (x_order_type_mix policy) default_tif default_post_only);
          (plans, remaining) = emit_chunks typ 0 (zip prices per) 0 target
      in if remaining > eps9 then add_to_first remaining plans else plans)"

definition ladder_plans ::
    "exit_policy \<Rightarrow> pyfloat \<Rightarrow> pyfloat list \<Rightarrow> pyfloat list \<Rightarrow> string \<Rightarrow> bool \<Rightarrow> child_plan list" where
  "ladder_plans policy target prices weights default_tif default_post_only =
     map (\<lambda>i. let (tif, po) = resolve_order_type (int i) (int (length prices)) (x_order_type_mix policy) default_tif default_post_only
               in \<lparr>cp_index = i, cp_price = prices ! i, cp_size = weights ! i * target, cp_tif = tif,
                   cp_post_only = po, cp_bucket = i\<rparr>) [0..<length prices]"

text \<open>The final safety pass: drop, promote or keep each plan.\<close>

definition promote :: "pyfloat \<Rightarrow> pyfloat \<Rightarrow> child_plan \<Rightarrow> child_plan list \<times> pyfloat" where
  "promote min_notional target p =
     (if cp_price p \<le> 0 \<or> cp_size p \<le> 0 then ([], cp_size p)
      else if cp_price p * cp_size p + eps9 < min_notional then
        if min_notional / cp_price p \<le> target + eps9 then ([p\<lparr>cp_size := min_notional / cp_price p\<rparr>], 0)
        else ([], cp_size p)
      else ([p], 0))"

definition reindex :: "child_plan list \<Rightarrow> child_plan list" where
  "reindex ps = map (\<lambda>i. (ps ! i)\<lparr>cp_index := i\<rparr>) [0..<length ps]"

definition finish_plans ::
    "pyfloat \<Rightarrow> pyfloat \<Rightarrow> pyfloat \<Rightarrow> string \<Rightarrow> bool \<Rightarrow> child_plan list \<Rightarrow> child_plan list" where
  "finish_plans min_notional target base_price default_tif default_post_only plans =
     (let survivors = concat (map (\<lambda>p. fst (promote min_notional target p)) plans);
          forfeited = sum_list (map (\<lambda>p. snd (promote min_notional target p)) plans)
      in if survivors = [] then
           if base_price * target + eps9 < min_notional then []
           else [\<lparr>cp_index = 0, cp_price = base_price, cp_size = target, cp_tif = default_tif,
                  cp_post_only = default_post_only, cp_bucket = 0\<rparr>]
         else reindex (if forfeited > 0 then add_to_first forfeited survivors else survivors))"

definition raw_plans ::
    "exit_policy \<Rightarrow> pyfloat \<Rightarrow> pyfloat \<Rightarrow> pyfloat list \<Rightarrow> string \<Rightarrow> bool \<Rightarrow> child_plan list" where
  "raw_plans policy target min_notional prices default_tif default_post_only =
     (let distribution = (case x_ladder policy of None \<Rightarrow> ''uniform'' | Some l \<Rightarrow> l_distribution l);
          weights = distribution_weights (int (length prices)) distribution
      in case x_chunk_size policy of
           Some c \<Rightarrow> if c > 0
             then chunked_plans policy c target min_notional prices weights default_tif default_post_only
             else ladder_plans policy target prices weights default_tif default_post_only
         | None \<Rightarrow> ladder_plans policy target prices weights default_tif default_post_only)"

definition plan_children ::
    "pyfloat \<Rightarrow> pyfloat \<Rightarrow> string \<Rightarrow> exit_policy \<Rightarrow> pyfloat \<Rightarrow> pyfloat option \<Rightarrow> string \<Rightarrow> bool \<Rightarrow> child_plan list" where
  "plan_children target trigger_price side policy tick min_override default_tif default_post_only =
     (if target \<le> 0 \<or> trigger_price \<le> 0 then []
      else let sell = (py_upper (if side = [] then ''SELL'' else side) = ''SELL'');
               min_notional = (case min_override of Some v \<Rightarrow> v | None \<Rightarrow> x_min_chunk_notional policy);
               prices = plan_prices policy trigger_price sell tick
           in if prices = [] then []
              else finish_plans min_notional target (hd prices) default_tif default_post_only
                     (raw_plans policy target min_notional prices default_tif default_post_only))"

section \<open>Prices and weights\<close>

lemma round_down_grid:
  assumes "0 < tick" "tick \<le> price"
  shows "\<exists>k::int. 1 \<le> k \<and> round_down_to_tick price tick = of_int k * tick"
    "tick \<le> round_down_to_tick price tick" "round_down_to_tick price tick \<le> price + eps9 * tick"
proof -
  let ?k = "\<lfloor>price / tick + eps9\<rfloor>"
  have e: "0 < eps9" by (simp add: eps9_def)
  have "1 \<le> price / tick" using assms by simp
  then have k: "1 \<le> ?k" using e by linarith
  then have "tick \<le> of_int ?k * tick" using assms(1) by simp
  then have r: "round_down_to_tick price tick = of_int ?k * tick" using assms(1) by (simp add: round_down_to_tick_def)
  then show "\<exists>k::int. 1 \<le> k \<and> round_down_to_tick price tick = of_int k * tick" "tick \<le> round_down_to_tick price tick"
    using k \<open>tick \<le> of_int ?k * tick\<close> by (intro exI[of _ ?k], simp_all)
  have "of_int ?k * tick \<le> (price / tick + eps9) * tick" using assms(1) by (intro mult_right_mono) auto
  then show "round_down_to_tick price tick \<le> price + eps9 * tick" unfolding r using assms(1) by (simp add: algebra_simps)
qed

definition price_ok :: "pyfloat \<Rightarrow> pyfloat \<Rightarrow> bool" where
  "price_ok tick p \<longleftrightarrow> tick \<le> p \<and> p \<le> 99 / 100 + eps9 * tick \<and> (\<exists>k::int. p = of_int k * tick)"

lemma clamp_price_ok:
  assumes "0 < tick" "tick \<le> 99 / 100"
  shows "price_ok tick (clamp_binary_price price tick)"
proof -
  let ?p = "max tick (min (99 / 100) price)"
  have "?p \<le> 99 / 100" using assms by simp
  then show ?thesis using round_down_grid[OF assms(1), of ?p] unfolding price_ok_def clamp_binary_price_def by force
qed

lemma dedupe_set: "set (dedupe seen ps) = set ps - set seen"
  by (induction seen ps rule: dedupe.induct) auto

lemma dedupe_distinct: "distinct (dedupe seen ps)"
  by (induction seen ps rule: dedupe.induct) (auto simp: dedupe_set)

lemma dedupe_length: "length (dedupe seen ps) \<le> length ps"
  by (induction seen ps rule: dedupe.induct) auto

lemma plan_prices_facts:
  assumes "0 < tick" "tick \<le> 99 / 100"
  shows "plan_prices policy trig sell tick \<noteq> []" "distinct (plan_prices policy trig sell tick)"
    "list_all (price_ok tick) (plan_prices policy trig sell tick)"
    "length (plan_prices policy trig sell tick) \<le> nat (max 1 (x_max_chunks policy))"
proof -
  have ne: "dedupe [] (map g [0..<nat (max 1 m)]) \<noteq> []" for g :: "nat \<Rightarrow> real" and m :: int
  proof -
    have "set (dedupe [] (map g [0..<nat (max 1 m)])) = g ` {0..<nat (max 1 m)}" by (simp add: dedupe_set)
    moreover have "0 \<in> {0..<nat (max 1 m)}" by auto
    ultimately show ?thesis by (metis empty_iff empty_set image_is_empty)
  qed
  show "plan_prices policy trig sell tick \<noteq> []" unfolding plan_prices_def Let_def by (rule ne)
  show "distinct (plan_prices policy trig sell tick)" unfolding plan_prices_def Let_def by (rule dedupe_distinct)
  show "list_all (price_ok tick) (plan_prices policy trig sell tick)"
    unfolding plan_prices_def Let_def list_all_iff dedupe_set using clamp_price_ok[OF assms] by auto
  show "length (plan_prices policy trig sell tick) \<le> nat (max 1 (x_max_chunks policy))"
    unfolding plan_prices_def Let_def by (rule order_trans[OF dedupe_length]) (simp add: nat_mono)
qed

lemma weights_facts:
  assumes "n = nat (max 1 levels)"
  shows "length (distribution_weights levels d) = n" "list_all (\<lambda>w. 0 < w) (distribution_weights levels d)"
    "sum_list (distribution_weights levels d) = 1"
proof -
  have n: "0 < n" using assms by simp
  let ?raw = "if distribution_mode d = ''front_loaded'' then map (\<lambda>i. real (n - i)) [0..<n]
                 else if distribution_mode d = ''back_loaded'' then map (\<lambda>i. real (i + 1)) [0..<n] else replicate n 1"
  have len: "length ?raw = n" and pos: "\<forall>w\<in>set ?raw. 0 < w" using n by auto
  have tot: "0 < sum_list xs" if "xs \<noteq> []" "\<forall>w\<in>set xs. 0 < w" for xs :: "real list"
    using that by (cases xs) (auto intro!: add_pos_nonneg sum_list_nonneg intro: less_imp_le)
  have t: "0 < sum_list ?raw" using tot[of ?raw] pos len n by fastforce
  then have w: "distribution_weights levels d = map (\<lambda>w. w / sum_list ?raw) ?raw"
    unfolding distribution_weights_def Let_def assms(1)[symmetric] by (simp only: not_le if_not_P linorder_not_le)
  have sd: "sum_list (map (\<lambda>w. w / c) xs) = sum_list xs / c" for xs and c :: real
    by (induction xs) (simp_all add: add_divide_distrib)
  show "length (distribution_weights levels d) = n" unfolding w using len by simp
  show "list_all (\<lambda>w. 0 < w) (distribution_weights levels d)" unfolding w list_all_iff using pos t by auto
  show "sum_list (distribution_weights levels d) = 1" unfolding w sd using t by simp
qed

section \<open>Counts\<close>

definition counts_ok :: "(int \<times> pyfloat) list \<Rightarrow> bool" where
  "counts_ok per \<longleftrightarrow> list_all (\<lambda>(n, ec). 0 \<le> n) per"

lemma level_chunks_ok: "counts_ok (fst (level_chunks c mn roll ls))"
  by (induction c mn roll ls rule: level_chunks.induct)
    (auto simp: counts_ok_def Let_def case_prod_unfold)

lemma credit_back_ok: "counts_ok per \<Longrightarrow> counts_ok (credit_back roll per)"
  by (induction roll per rule: credit_back.induct) (auto simp: counts_ok_def)

lemma chunk_table_ok: "counts_ok (chunk_table c mn ps as)"
proof -
  have "counts_ok (rev per) = counts_ok per" for per by (simp add: counts_ok_def list_all_iff)
  then show ?thesis using level_chunks_ok[of c mn 0 "zip ps as"] credit_back_ok
    unfolding chunk_table_def by (auto simp: Let_def case_prod_unfold)
qed

lemma first_best_mem: "is \<noteq> [] \<Longrightarrow> first_best better is \<in> set is"
proof -
  have "foldl (\<lambda>b j. if better j b then j else b) i js \<in> insert i (set js)" for i js
    by (induction js arbitrary: i) auto
  then show "is \<noteq> [] \<Longrightarrow> first_best better is \<in> set is" by (cases "is") (auto simp: first_best_def)
qed

lemma peel_total:
  "counts_ok per \<Longrightarrow> counts_ok (peel k ws per) \<and> chunk_total (peel k ws per) \<le> max 0 (chunk_total per - int k)"
proof (induction k arbitrary: per)
  case 0
  have "0 \<le> chunk_total per" using 0 unfolding chunk_total_def counts_ok_def
    by (intro sum_list_nonneg) (auto simp: list_all_iff)
  then show ?case using 0 by simp
next
  case (Suc k)
  let ?cand = "filter (\<lambda>i. fst (per ! i) > 0) [0..<length per]"
  show ?case
  proof (cases "?cand = []")
    case True
    then have "\<forall>i<length per. fst (per ! i) \<le> 0" by (simp add: filter_empty_conv not_less)
    then have "\<forall>x\<in>set per. fst x \<le> 0" by (metis in_set_conv_nth)
    then have "sum_list (map fst per) \<le> 0" by (induction per) auto
    then show ?thesis using Suc.prems True by (simp add: chunk_total_def)
  next
    case False
    define better where "better = (\<lambda>j b. ws ! j < ws ! b \<or> (ws ! j = ws ! b \<and> fst (per ! j) > fst (per ! b)))"
    define i where "i = first_best better ?cand"
    have i: "i < length per" "0 < fst (per ! i)" using first_best_mem[OF False, of better] by (auto simp: i_def)
    let ?per = "per[i := (fst (per ! i) - 1, snd (per ! i))]"
    have ok: "counts_ok ?per" using Suc.prems i unfolding counts_ok_def list_all_length
      by (auto simp: nth_list_update case_prod_unfold)
    have tot: "chunk_total ?per = chunk_total per - 1"
      using i sum_list_update_group[where k = i and xs = "map fst per" and x = "fst (per ! i) - 1"] by (simp add: chunk_total_def map_update)
    have "peel (Suc k) ws per = peel k ws ?per" using False by (simp add: Let_def i_def better_def)
    then show ?thesis using Suc.IH[OF ok] tot by (simp add: algebra_simps)
  qed
qed

definition emits :: "pyfloat \<Rightarrow> nat \<Rightarrow> child_plan list \<Rightarrow> pyfloat \<Rightarrow> bool" where
  "emits remaining n ps r \<longleftrightarrow> length ps \<le> n \<and> sum_list (map cp_size ps) + r = remaining \<and> (0 \<le> remaining \<longrightarrow> 0 \<le> r)"

lemma emit_level_emits:
  "case emit_level ty lvl price eff n flat remaining of (ps, flat', r) \<Rightarrow> emits remaining n ps r"
proof (induction n arbitrary: flat remaining)
  case (Suc n)
  show ?case
  proof (cases "remaining \<le> 0")
    case False
    have "emits remaining (Suc n) (q # qs) r = emits (remaining - min eff remaining) n qs r"
      if "cp_size q = min eff remaining" for q qs r
      using that False by (auto simp: emits_def)
    then show ?thesis using False Suc[where flat = "flat + 1" and remaining = "remaining - min eff remaining"]
      by (simp add: Let_def case_prod_unfold)
  qed (simp add: emits_def)
qed (simp add: emits_def)

lemma emits_append:
  "emits remaining n ps r \<Longrightarrow> emits r m qs r' \<Longrightarrow> emits remaining (n + m) (ps @ qs) r'"
  by (auto simp: emits_def)

lemma emits_weaken: "emits remaining n ps r \<Longrightarrow> n \<le> m \<Longrightarrow> emits remaining m ps r"
  by (auto simp: emits_def)

lemma emit_chunks_emits:
  "counts_ok (map snd ls) \<Longrightarrow>
   case emit_chunks ty lvl ls flat remaining of (ps, r) \<Rightarrow> emits remaining (nat (chunk_total (map snd ls))) ps r"
proof (induction ty lvl ls flat remaining rule: emit_chunks.induct)
  case (2 ty lvl price n eff ls flat remaining)
  have ok: "counts_ok (map snd ls)" "0 \<le> n" using 2(3) by (simp_all add: counts_ok_def)
  have nn: "0 \<le> chunk_total (map snd ls)" using ok(1) unfolding chunk_total_def counts_ok_def
    by (intro sum_list_nonneg) (auto simp: list_all_iff)
  have tot: "nat (chunk_total (map snd ((price, n, eff) # ls))) = nat n + nat (chunk_total (map snd ls))"
    using ok(2) nn by (simp add: chunk_total_def nat_add_distrib)
  show ?case
  proof (cases "n \<le> 0 \<or> eff \<le> 0")
    case True
    then have e: "emit_chunks ty lvl ((price, n, eff) # ls) flat remaining = emit_chunks ty (lvl + 1) ls flat remaining" by auto
    show ?thesis unfolding e tot using 2(1)[OF True ok(1)] by (auto intro: emits_weaken)
  next
    case False
    obtain ps f2 r where l: "emit_level ty lvl price eff (nat n) flat remaining = (ps, f2, r)" using prod_cases3 by blast
    have lv: "emits remaining (nat n) ps r" using emit_level_emits[where ty = ty and lvl = lvl and price = price and eff = eff and n = "nat n" and flat = flat and remaining = remaining] l by simp
    show ?thesis
    proof (cases "r \<le> 0")
      case True
      then show ?thesis unfolding tot using False l lv by (auto intro: emits_weaken)
    next
      case rp: False
      obtain qs r' where q: "emit_chunks ty (lvl + 1) ls f2 r = (qs, r')" by fastforce
      have "emits r (nat (chunk_total (map snd ls))) qs r'"
        using 2(2)[OF False l[symmetric] refl refl rp ok(1)] q by simp
      then show ?thesis unfolding tot using False l rp q emits_append[OF lv] by simp
    qed
  qed
qed (simp add: emits_def)

section \<open>The whole plan\<close>

lemma add_to_first_facts:
  "length (add_to_first x ps) = length ps" "map cp_price (add_to_first x ps) = map cp_price ps"
  "ps \<noteq> [] \<Longrightarrow> sum_list (map cp_size (add_to_first x ps)) = sum_list (map cp_size ps) + x"
  by (cases ps; simp add: add_to_first_def)+

lemma chunk_total_zip: "length prices = length per \<Longrightarrow> chunk_total (map snd (zip prices per)) = chunk_total per"
  by simp

lemma peel_length: "length (peel k ws per) = length per"
  by (induction k arbitrary: per) (simp_all add: Let_def)

lemma level_chunks_length: "length (fst (level_chunks c mn roll ls)) = length ls"
  by (induction c mn roll ls rule: level_chunks.induct) (auto simp: Let_def case_prod_unfold)

lemma credit_back_length: "length (credit_back roll per) = length per"
  by (induction roll per rule: credit_back.induct) auto

lemma chunk_table_length: "length ps = length as \<Longrightarrow> length (chunk_table c mn ps as) = length ps"
  using level_chunks_length[of c mn 0 "zip ps as"]
  by (auto simp: chunk_table_def Let_def case_prod_unfold credit_back_length)

lemma chunked_plans_facts:
  assumes len: "length weights = length prices" and t: "0 < target"
  shows "length (chunked_plans pol c target mn prices weights tif po) \<le> nat (max 0 (x_max_chunks pol))"
    "chunked_plans pol c target mn prices weights tif po \<noteq> [] \<Longrightarrow>
       target - eps9 \<le> sum_list (map cp_size (chunked_plans pol c target mn prices weights tif po)) \<and>
       sum_list (map cp_size (chunked_plans pol c target mn prices weights tif po)) \<le> target"
proof -
  define cap where "cap = min (x_max_chunks pol) (max 1 \<lceil>target / c\<rceil>)"
  define per0 where "per0 = chunk_table c mn prices (map (\<lambda>w. w * target) weights)"
  define per where "per = peel (nat (chunk_total per0 - cap)) weights per0"
  define ty where "ty = (\<lambda>i. resolve_order_type (int i) (chunk_total per) (x_order_type_mix pol) tif po)"
  obtain ps r where e: "emit_chunks ty 0 (zip prices per) 0 target = (ps, r)" by fastforce
  have plans: "chunked_plans pol c target mn prices weights tif po = (if r > eps9 then add_to_first r ps else ps)"
    using e unfolding chunked_plans_def Let_def cap_def[symmetric] per0_def[symmetric] per_def[symmetric] ty_def[symmetric] by simp
  have lenp: "length prices = length per" using len by (simp add: per_def per0_def peel_length chunk_table_length)
  have ok: "counts_ok per" and tot: "chunk_total per \<le> max 0 (chunk_total per0 - int (nat (chunk_total per0 - cap)))"
    using peel_total[of per0 "nat (chunk_total per0 - cap)" weights] chunk_table_ok by (simp_all add: per_def per0_def)
  have em: "emits target (nat (chunk_total per)) ps r"
    using emit_chunks_emits[where ls = "zip prices per" and ty = ty and lvl = 0 and flat = 0 and remaining = target] ok e lenp by simp
  have "chunk_total per \<le> max 0 (x_max_chunks pol)" using tot by (simp add: cap_def split: if_splits)
  then have "nat (chunk_total per) \<le> nat (max 0 (x_max_chunks pol))" by (rule nat_mono)
  then show "length (chunked_plans pol c target mn prices weights tif po) \<le> nat (max 0 (x_max_chunks pol))"
    using em unfolding plans by (simp add: emits_def add_to_first_facts)
  have sums: "sum_list (map cp_size ps) + r = target" "0 \<le> r" using em t by (auto simp: emits_def)
  assume "chunked_plans pol c target mn prices weights tif po \<noteq> []"
  then have "ps \<noteq> []" unfolding plans by (auto simp: add_to_first_def split: if_splits)
  then show "target - eps9 \<le> sum_list (map cp_size (chunked_plans pol c target mn prices weights tif po)) \<and>
       sum_list (map cp_size (chunked_plans pol c target mn prices weights tif po)) \<le> target"
    unfolding plans using sums by (auto simp: add_to_first_facts eps9_def)
qed

lemma ladder_plans_facts:
  assumes len: "length weights = length prices"
  shows "length (ladder_plans pol target prices weights tif po) = length prices"
    "sum_list (map cp_size (ladder_plans pol target prices weights tif po)) = sum_list weights * target"
proof -
  show "length (ladder_plans pol target prices weights tif po) = length prices" by (simp add: ladder_plans_def)
  have "map cp_size (ladder_plans pol target prices weights tif po) = map (\<lambda>i. weights ! i * target) [0..<length weights]"
    by (simp add: ladder_plans_def len comp_def case_prod_unfold Let_def)
  also have "\<dots> = map (\<lambda>w. w * target) weights" by (rule map_upt_nth)
  finally show "sum_list (map cp_size (ladder_plans pol target prices weights tif po)) = sum_list weights * target"
    by (simp add: sum_list_mult_const)
qed

text \<open>A planned child that the safety pass leaves alone.\<close>

definition clears :: "pyfloat \<Rightarrow> child_plan \<Rightarrow> bool" where
  "clears min_notional p \<longleftrightarrow> 0 < cp_price p \<and> 0 < cp_size p \<and> min_notional \<le> cp_price p * cp_size p + eps9"

lemma promote_clears: "clears mn p \<Longrightarrow> promote mn target p = ([p], 0)"
  by (simp add: clears_def promote_def)

lemma reindex_facts: "length (reindex ps) = length ps" "map cp_size (reindex ps) = map cp_size ps"
    "map cp_index (reindex ps) = [0..<length ps]" "map cp_price (reindex ps) = map cp_price ps"
proof -
  show "length (reindex ps) = length ps" by (simp add: reindex_def)
  show "map cp_size (reindex ps) = map cp_size ps" "map cp_index (reindex ps) = [0..<length ps]"
    "map cp_price (reindex ps) = map cp_price ps"
    by (rule nth_equalityI; simp add: reindex_def)+
qed

lemma promote_length: "length (fst (promote mn target p)) \<le> 1"
  by (simp add: promote_def)

lemma concat_promote_length: "length (concat (map (\<lambda>p. fst (promote mn target p)) ps)) \<le> length ps"
proof (induction ps)
  case (Cons p ps)
  then show ?case using promote_length[of mn target p] by simp
qed simp

lemma finish_length: "length (finish_plans mn target bp tif po ps) \<le> max 1 (length ps)"
  using concat_promote_length[of mn target ps]
  by (auto simp: finish_plans_def Let_def reindex_facts add_to_first_facts)

lemma finish_clears:
  assumes "list_all (clears mn) ps" "ps \<noteq> []"
  shows "finish_plans mn target bp tif po ps = reindex ps"
proof -
  have c: "\<And>p. p \<in> set ps \<Longrightarrow> promote mn target p = ([p], 0)" using assms(1) promote_clears by (auto simp: list_all_iff)
  have "concat (map (\<lambda>p. fst (promote mn target p)) ps) = ps" "sum_list (map (\<lambda>p. snd (promote mn target p)) ps) = 0"
    using c by (induction ps) auto
  then show ?thesis using assms(2) unfolding finish_plans_def Let_def by simp
qed

section \<open>Properties of the planner\<close>

text \<open>
  A plan never exceeds the policy's cap on child orders (one child when the cap is not positive),
  and its children are numbered from zero.
\<close>

theorem plan_respects_max_chunks:
  assumes tick: "0 < tick" "tick \<le> 99 / 100"
  shows "length (plan_children target trig side pol tick mo tif po) \<le> nat (max 1 (x_max_chunks pol))
    \<and> map cp_index (plan_children target trig side pol tick mo tif po)
        = [0..<length (plan_children target trig side pol tick mo tif po)]"
proof -
  define sell where "sell = (py_upper (if side = [] then ''SELL'' else side) = ''SELL'')"
  define prices where "prices = plan_prices pol trig sell tick"
  define mn where "mn = (case mo of Some v \<Rightarrow> v | None \<Rightarrow> x_min_chunk_notional pol)"
  note pf = plan_prices_facts[OF tick, of pol trig sell, folded prices_def]
  have lw: "length (distribution_weights (int (length prices)) d) = length prices" for d
    using weights_facts(1)[OF refl, of "int (length prices)" d] pf(1) by (cases prices) auto
  have raw: "length (raw_plans pol target mn prices tif po) \<le> nat (max 1 (x_max_chunks pol))" if "0 < target"
  proof -
    have "nat (max 0 (x_max_chunks pol)) \<le> nat (max 1 (x_max_chunks pol))" by (rule nat_mono) simp
    then have c: "length (chunked_plans pol ch target mn prices (distribution_weights (int (length prices)) d) tif po)
        \<le> nat (max 1 (x_max_chunks pol))" for ch d
      using chunked_plans_facts(1)[OF lw that, of pol ch mn d tif po] by linarith
    show ?thesis unfolding raw_plans_def Let_def using pf(4) c ladder_plans_facts(1)[OF lw]
      by (simp split: option.splits)
  qed
  have idx: "map cp_index (finish_plans mn target bp tif po ps) = [0..<length (finish_plans mn target bp tif po ps)]" for bp ps
    by (simp add: finish_plans_def Let_def reindex_facts)
  have "1 \<le> nat (max 1 (x_max_chunks pol))" by simp
  then have "length (finish_plans mn target bp tif po (raw_plans pol target mn prices tif po)) \<le> nat (max 1 (x_max_chunks pol))"
    if "0 < target" for bp
    using order_trans[OF finish_length] raw[OF that] by fastforce
  then show ?thesis using idx
    unfolding plan_children_def Let_def sell_def[symmetric] prices_def[symmetric] mn_def[symmetric] by simp
qed

definition sample_policy :: exit_policy where
  "sample_policy = default_policy\<lparr>x_ladder := Some \<lparr>l_levels = 2, l_step_ticks = 1, l_offset_ticks = 0, l_distribution = ''uniform''\<rparr>\<rparr>"

theorem plan_respects_max_chunks_witness:
  "length (plan_children 100 (1 / 2) ''SELL'' sample_policy default_tick_size None ''GTC'' False) \<le> 50"
  using plan_respects_max_chunks[of default_tick_size 100 "1 / 2" "''SELL''" sample_policy None "''GTC''" False]
  by (simp add: default_tick_size_def sample_policy_def default_policy_def)

text \<open>
  When every planned child clears the minimum notional, the plan is for the target: the sizes sum to the
  target, short of it by at most 1e-9 and never above it.
\<close>

theorem plan_total_is_target:
  fixes target trig tick :: pyfloat and side :: string and pol :: exit_policy and mo :: "pyfloat option"
  defines "prices \<equiv> plan_prices pol trig (py_upper (if side = [] then ''SELL'' else side) = ''SELL'') tick"
    and "mn \<equiv> (case mo of Some v \<Rightarrow> v | None \<Rightarrow> x_min_chunk_notional pol)"
  assumes tick: "0 < tick" "tick \<le> 99 / 100" and pos: "0 < target" "0 < trig"
    and fit: "list_all (clears mn) (raw_plans pol target mn prices tif po)"
    and some: "raw_plans pol target mn prices tif po \<noteq> []"
  shows "target - eps9 \<le> sum_list (map cp_size (plan_children target trig side pol tick mo tif po)) \<and>
         sum_list (map cp_size (plan_children target trig side pol tick mo tif po)) \<le> target"
proof -
  note pf = plan_prices_facts[OF tick, of pol trig "py_upper (if side = [] then ''SELL'' else side) = ''SELL''", folded prices_def]
  have lw: "length (distribution_weights (int (length prices)) d) = length prices" for d
    using weights_facts(1)[OF refl, of "int (length prices)" d] pf(1) by (cases prices) auto
  have plan: "map cp_size (plan_children target trig side pol tick mo tif po) = map cp_size (raw_plans pol target mn prices tif po)"
    using pos pf(1) finish_clears[OF fit some] reindex_facts(2)
    by (simp add: plan_children_def Let_def prices_def mn_def)
  have "0 < eps9" by (simp add: eps9_def)
  then have lad: "target - eps9 \<le> sum_list (map cp_size (ladder_plans pol target prices (distribution_weights (int (length prices)) d) tif po)) \<and>
      sum_list (map cp_size (ladder_plans pol target prices (distribution_weights (int (length prices)) d) tif po)) \<le> target" for d
    using ladder_plans_facts(2)[OF lw, of pol target d tif po] weights_facts(3)[OF refl, of "int (length prices)" d] by simp
  show ?thesis unfolding plan
    using some lad chunked_plans_facts(2)[OF lw pos(1)]
    unfolding raw_plans_def Let_def by (auto split: option.splits if_splits)
qed

lemma clamp_on_grid:
  fixes k :: int
  assumes "1 \<le> k" "k \<le> 99"
  shows "clamp_binary_price (of_int k / 100) (1 / 100) = of_int k / 100"
proof -
  have "\<lfloor>of_int k + eps9\<rfloor> = k" by (rule floor_unique) (simp_all add: eps9_def)
  moreover have "max (1 / 100) (min (99 / 100) (of_int k / 100)) = (of_int k / 100 :: real)"
    using assms by (simp add: max_def min_def)
  ultimately show ?thesis using assms by (simp add: clamp_binary_price_def round_down_to_tick_def)
qed

lemma grid_values:
  "clamp_binary_price (1 / 2) (1 / 100) = 1 / 2" "clamp_binary_price (49 / 100) (1 / 100) = 49 / 100"
  "clamp_binary_price (12 / 25) (1 / 100) = 12 / 25" "clamp_binary_price (47 / 100) (1 / 100) = 47 / 100"
  using clamp_on_grid[of 50] clamp_on_grid[of 49] clamp_on_grid[of 48] clamp_on_grid[of 47] by simp_all

lemma upper_sell: "py_upper ''SELL'' = ''SELL''"
  by (simp add: py_upper_def char_upper_def)

lemma uniform_mode: "distribution_mode ''uniform'' = ''uniform''"
  by code_simp

lemma uniform_weights: "0 < n \<Longrightarrow> distribution_weights (int n) ''uniform'' = replicate n (1 / real n)"
  by (simp add: distribution_weights_def uniform_mode Let_def sum_list_replicate)

lemma sample_prices: "plan_prices sample_policy (1 / 2) True (1 / 100) = [1 / 2, 49 / 100]"
  by (simp add: plan_prices_def sample_policy_def default_policy_def Let_def upt_rec grid_values)

lemma sample_raw:
  "raw_plans sample_policy 100 1 [1 / 2, 49 / 100] ''GTC'' False =
    [\<lparr>cp_index = 0, cp_price = 1 / 2, cp_size = 50, cp_tif = ''GTC'', cp_post_only = False, cp_bucket = 0\<rparr>,
     \<lparr>cp_index = 1, cp_price = 49 / 100, cp_size = 50, cp_tif = ''GTC'', cp_post_only = False, cp_bucket = 1\<rparr>]"
  using uniform_weights[of 2]
  by (simp add: raw_plans_def sample_policy_def default_policy_def ladder_plans_def resolve_order_type_def upt_rec numeral_2_eq_2)

theorem plan_total_is_target_witness:
  "100 - eps9 \<le> sum_list (map cp_size (plan_children 100 (1 / 2) ''SELL'' sample_policy (1 / 100) None ''GTC'' False))"
proof -
  have mn: "x_min_chunk_notional sample_policy = 1" by (simp add: sample_policy_def default_policy_def)
  show ?thesis
    using plan_total_is_target[where tick = "1 / 100" and target = 100 and trig = "1 / 2" and mo = None and pol = sample_policy
        and side = "''SELL''" and tif = "''GTC''" and po = False]
    by (simp add: upper_sell sample_prices mn sample_raw clears_def eps9_def)
qed

text \<open>
  C36: The safety pass can oversell: it promotes each child that is below the minimum notional to the minimum size
  on its own, so the plan for a target of 3 shares at 0.50 over four levels is for more than 8 shares.
\<close>

definition wide_policy :: exit_policy where
  "wide_policy = default_policy\<lparr>x_ladder := Some \<lparr>l_levels = 4, l_step_ticks = 1, l_offset_ticks = 0, l_distribution = ''uniform''\<rparr>\<rparr>"

lemma wide_prices: "plan_prices wide_policy (1 / 2) True (1 / 100) = [1 / 2, 49 / 100, 12 / 25, 47 / 100]"
  by (simp add: plan_prices_def wide_policy_def default_policy_def Let_def upt_rec grid_values)

theorem plan_can_exceed_target:
  "8 < sum_list (map cp_size (plan_children 3 (1 / 2) ''SELL'' wide_policy (1 / 100) None ''GTC'' False))"
proof -
  have mn: "x_min_chunk_notional wide_policy = 1" by (simp add: wide_policy_def default_policy_def)
  have raw: "raw_plans wide_policy 3 1 [1 / 2, 49 / 100, 12 / 25, 47 / 100] ''GTC'' False =
      map (\<lambda>i. \<lparr>cp_index = i, cp_price = [1 / 2, 49 / 100, 12 / 25, 47 / 100] ! i, cp_size = 3 / 4, cp_tif = ''GTC'',
        cp_post_only = False, cp_bucket = i\<rparr>) [0..<4]"
    using uniform_weights[of 4]
    by (simp add: raw_plans_def wide_policy_def default_policy_def ladder_plans_def resolve_order_type_def upt_rec numeral_eq_Suc)
  have "map cp_size (plan_children 3 (1 / 2) ''SELL'' wide_policy (1 / 100) None ''GTC'' False) =
      [2, 100 / 49, 25 / 12, 100 / 47]"
    by (simp add: plan_children_def upper_sell Let_def wide_prices mn raw upt_rec finish_plans_def promote_def eps9_def reindex_facts)
  then show ?thesis by simp
qed

end
