(* ===== verification/ExitRow.thy ===== *)
theory ExitRow
  imports ExitPlan
begin

text \<open>
  What \<open>exit_executor.py\<close> keeps in the row of a pending exit: the policy, serialised to a JSON
  object and read back on later reconcile passes, and the child records, with the aggregation, completion and
  selection helpers over them. A stored ISO timestamp is a \<open>timestamp\<close>; the text format is not modelled.
\<close>

section \<open>JSON values\<close>

datatype db_json = DNull | DInt int | DFloat pyfloat | DStr string | DList "db_json list" | DObj "(string \<times> db_json) list"

fun obj_get :: "db_json \<Rightarrow> string \<Rightarrow> db_json" where
  "obj_get (DObj d) k = (case dict_get d k of None \<Rightarrow> DNull | Some v \<Rightarrow> v)"
| "obj_get _ k = DNull"

fun is_obj :: "db_json \<Rightarrow> bool" where
  "is_obj (DObj d) = True"
| "is_obj _ = False"

text \<open>\<open>int(d.get(k, default))\<close> and \<open>float(d.get(k, default))\<close>: a present null raises.\<close>

definition trunc :: "pyfloat \<Rightarrow> int" where
  "trunc x = (if 0 \<le> x then \<lfloor>x\<rfloor> else \<lceil>x\<rceil>)"

fun to_int :: "db_json \<Rightarrow> py_error + int" where
  "to_int (DInt i) = ok i"
| "to_int (DFloat x) = ok (trunc x)"
| "to_int _ = raise (TypeError ''int'')"

fun to_float :: "db_json \<Rightarrow> py_error + pyfloat" where
  "to_float (DInt i) = ok (of_int i)"
| "to_float (DFloat x) = ok x"
| "to_float _ = raise (TypeError ''float'')"

definition get_default :: "db_json \<Rightarrow> string \<Rightarrow> db_json \<Rightarrow> db_json" where
  "get_default j k dflt = (case j of DObj d \<Rightarrow> (case dict_get d k of None \<Rightarrow> dflt | Some v \<Rightarrow> v) | _ \<Rightarrow> dflt)"

definition ebind :: "py_error + 'a \<Rightarrow> ('a \<Rightarrow> py_error + 'b) \<Rightarrow> py_error + 'b" where
  "ebind x f = (case x of Inl e \<Rightarrow> Inl e | Inr a \<Rightarrow> f a)"

lemma ebind_simps [simp]: "ebind (Inr a) f = f a" "ebind (Inl e) f = Inl e"
  by (simp_all add: ebind_def)

text \<open>\<open>str(d.get(k) or default)\<close> for a stored string.\<close>

definition str_or :: "db_json \<Rightarrow> string \<Rightarrow> string" where
  "str_or j dflt = (case j of DStr s \<Rightarrow> if s = [] then dflt else s | _ \<Rightarrow> dflt)"

definition opt_float :: "db_json \<Rightarrow> py_error + pyfloat option" where
  "opt_float j = (if j = DNull then ok None else ebind (to_float j) (\<lambda>x. ok (Some x)))"

section \<open>Serialising a policy\<close>

definition serialize_ladder :: "ladder_spec \<Rightarrow> db_json" where
  "serialize_ladder l = DObj
     [(''levels'', DInt (l_levels l)), (''step_ticks'', DInt (l_step_ticks l)), (''offset_ticks'', DInt (l_offset_ticks l)),
      (''distribution'', DStr (if l_distribution l = [] then ''uniform'' else l_distribution l))]"

definition serialize_escalation :: "escalation_spec \<Rightarrow> db_json" where
  "serialize_escalation e = DObj
     [(''after_seconds'', DFloat (es_after_seconds e)),
      (''action'', DStr (if es_action e = [] then ''marketable_ioc'' else es_action e)),
      (''widen_bps'', (case es_widen_bps e of None \<Rightarrow> DNull | Some w \<Rightarrow> DFloat w)),
      (''max_escalations'', DInt (es_max_escalations e))]"

definition serialize_mix :: "(string \<times> pyfloat) list \<Rightarrow> db_json" where
  "serialize_mix mx = DList (map (\<lambda>(t, w). DList [DStr (py_upper t), DFloat w]) mx)"

definition opt_field :: "string \<Rightarrow> db_json option \<Rightarrow> (string \<times> db_json) list" where
  "opt_field k v = (case v of None \<Rightarrow> [] | Some j \<Rightarrow> [(k, j)])"

definition serialize_policy :: "exit_policy \<Rightarrow> db_json" where
  "serialize_policy p = DObj
     ([(''max_chunks'', DInt (x_max_chunks p)), (''min_chunk_notional_usd'', DFloat (x_min_chunk_notional p)),
       (''min_reprice_interval_seconds'', DFloat (x_min_reprice_interval p))]
      @ opt_field ''chunk_size'' (map_option DFloat (x_chunk_size p))
      @ opt_field ''reprice_on_mid_drift_bps'' (map_option DFloat (x_reprice_bps p))
      @ opt_field ''ladder'' (map_option serialize_ladder (x_ladder p))
      @ opt_field ''escalation'' (map_option serialize_escalation (x_escalation p))
      @ opt_field ''order_type_mix'' (case x_order_type_mix p of None \<Rightarrow> None
          | Some mx \<Rightarrow> if mx = [] then None else Some (serialize_mix mx)))"

definition deserialize_ladder :: "db_json \<Rightarrow> py_error + ladder_spec option" where
  "deserialize_ladder j =
     (if \<not> is_obj j then ok None
      else ebind (to_int (get_default j ''levels'' (DInt 5))) (\<lambda>lv.
           ebind (to_int (get_default j ''step_ticks'' (DInt 1))) (\<lambda>st.
           ebind (to_int (get_default j ''offset_ticks'' (DInt 0))) (\<lambda>off.
           ok (Some \<lparr>l_levels = lv, l_step_ticks = st, l_offset_ticks = off,
                     l_distribution = str_or (obj_get j ''distribution'') ''uniform''\<rparr>)))))"

definition deserialize_escalation :: "db_json \<Rightarrow> py_error + escalation_spec option" where
  "deserialize_escalation j =
     (if \<not> is_obj j then ok None
      else ebind (to_float (get_default j ''after_seconds'' (DFloat 5))) (\<lambda>af.
           ebind (opt_float (obj_get j ''widen_bps'')) (\<lambda>w.
           ebind (to_int (get_default j ''max_escalations'' (DInt 1))) (\<lambda>mx.
           ok (Some \<lparr>es_after_seconds = af, es_action = str_or (obj_get j ''action'') ''marketable_ioc'',
                     es_widen_bps = w, es_max_escalations = mx\<rparr>)))))"

fun deserialize_pairs :: "db_json list \<Rightarrow> py_error + (string \<times> pyfloat) list" where
  "deserialize_pairs [] = ok []"
| "deserialize_pairs (DList [DStr t, w] # js) =
     ebind (to_float w) (\<lambda>x. ebind (deserialize_pairs js) (\<lambda>ps. ok ((py_upper t, x) # ps)))"
| "deserialize_pairs (_ # js) = raise (ValueError ''order_type_mix'')"

definition deserialize_mix :: "db_json \<Rightarrow> py_error + (string \<times> pyfloat) list option" where
  "deserialize_mix j =
     (case j of DList js \<Rightarrow> if js = [] then ok None else ebind (deserialize_pairs js) (\<lambda>ps. ok (Some ps)) | _ \<Rightarrow> ok None)"

definition deserialize_policy :: "db_json \<Rightarrow> py_error + exit_policy option" where
  "deserialize_policy j =
     (if \<not> is_obj j \<or> j = DObj [] then ok None
      else ebind (deserialize_ladder (obj_get j ''ladder'')) (\<lambda>ld.
           ebind (deserialize_escalation (obj_get j ''escalation'')) (\<lambda>es.
           ebind (deserialize_mix (obj_get j ''order_type_mix'')) (\<lambda>mx.
           ebind (opt_float (obj_get j ''chunk_size'')) (\<lambda>ch.
           ebind (to_int (get_default j ''max_chunks'' (DInt 50))) (\<lambda>mc.
           ebind (opt_float (obj_get j ''reprice_on_mid_drift_bps'')) (\<lambda>rp.
           ebind (to_float (get_default j ''min_chunk_notional_usd'' (DFloat 1))) (\<lambda>mn.
           ebind (to_float (get_default j ''min_reprice_interval_seconds'' (DFloat 1))) (\<lambda>mi.
           ok (Some \<lparr>x_ladder = ld, x_chunk_size = ch, x_max_chunks = mc, x_order_type_mix = mx, x_escalation = es,
                     x_reprice_bps = rp, x_min_chunk_notional = mn, x_min_reprice_interval = mi\<rparr>))))))))))"

text \<open>What storing a policy normalises: empty names take their defaults, the mix is upper case and not empty.\<close>

definition normalize_policy :: "exit_policy \<Rightarrow> exit_policy" where
  "normalize_policy p = p
     \<lparr>x_ladder := map_option (\<lambda>l. l\<lparr>l_distribution := (if l_distribution l = [] then ''uniform'' else l_distribution l)\<rparr>) (x_ladder p),
      x_escalation := map_option (\<lambda>e. e\<lparr>es_action := (if es_action e = [] then ''marketable_ioc'' else es_action e)\<rparr>) (x_escalation p),
      x_order_type_mix := (case x_order_type_mix p of None \<Rightarrow> None
        | Some mx \<Rightarrow> if mx = [] then None else Some (map (\<lambda>(t, w). (py_upper t, w)) mx))\<rparr>"

lemma py_upper_idem: "py_upper (py_upper s) = py_upper s"
proof -
  have "char_upper (char_upper c) = char_upper c" for c
  proof -
    let ?n = "of_char c :: nat"
    have "of_char (char_of (?n - 32) :: char) = ?n - 32" if "?n \<le> 122" using that by simp
    then show ?thesis by (auto simp: char_upper_def Let_def)
  qed
  then show ?thesis by (simp add: py_upper_def)
qed

lemma ladder_roundtrip:
  "deserialize_ladder (serialize_ladder l) = ok (Some (l\<lparr>l_distribution := (if l_distribution l = [] then ''uniform'' else l_distribution l)\<rparr>))"
  by (simp add: deserialize_ladder_def serialize_ladder_def get_default_def dict_get_def str_or_def)

lemma escalation_roundtrip:
  "deserialize_escalation (serialize_escalation e) = ok (Some (e\<lparr>es_action := (if es_action e = [] then ''marketable_ioc'' else es_action e)\<rparr>))"
  by (simp add: deserialize_escalation_def serialize_escalation_def get_default_def dict_get_def str_or_def opt_float_def split: option.splits)

lemma pairs_roundtrip:
  "deserialize_pairs (map (\<lambda>(t, w). DList [DStr (py_upper t), DFloat w]) mx) = ok (map (\<lambda>(t, w). (py_upper t, w)) mx)"
  by (induction mx) (auto simp: py_upper_idem)

lemma mix_roundtrip: "mx \<noteq> [] \<Longrightarrow> deserialize_mix (serialize_mix mx) = ok (Some (map (\<lambda>(t, w). (py_upper t, w)) mx))"
  by (simp add: deserialize_mix_def serialize_mix_def pairs_roundtrip)

lemma stored_fields:
  "obj_get (serialize_policy p) ''ladder'' = (case x_ladder p of None \<Rightarrow> DNull | Some l \<Rightarrow> serialize_ladder l)"
  "obj_get (serialize_policy p) ''escalation'' = (case x_escalation p of None \<Rightarrow> DNull | Some e \<Rightarrow> serialize_escalation e)"
  "obj_get (serialize_policy p) ''chunk_size'' = (case x_chunk_size p of None \<Rightarrow> DNull | Some c \<Rightarrow> DFloat c)"
  "obj_get (serialize_policy p) ''reprice_on_mid_drift_bps'' = (case x_reprice_bps p of None \<Rightarrow> DNull | Some c \<Rightarrow> DFloat c)"
  "obj_get (serialize_policy p) ''order_type_mix'' =
     (case x_order_type_mix p of None \<Rightarrow> DNull | Some mx \<Rightarrow> if mx = [] then DNull else serialize_mix mx)"
  "get_default (serialize_policy p) ''max_chunks'' d = DInt (x_max_chunks p)"
  "get_default (serialize_policy p) ''min_chunk_notional_usd'' d = DFloat (x_min_chunk_notional p)"
  "get_default (serialize_policy p) ''min_reprice_interval_seconds'' d = DFloat (x_min_reprice_interval p)"
  "is_obj (serialize_policy p)" "serialize_policy p \<noteq> DObj []"
  by (auto simp: serialize_policy_def opt_field_def dict_get_def get_default_def split: option.splits)

section \<open>Children\<close>

record child_record =
  ch_id :: string
  ch_index :: nat
  ch_price :: "pyfloat option"
  ch_size :: pyfloat
  ch_tif :: string
  ch_post_only :: bool
  ch_bucket :: nat
  ch_status :: string
  ch_filled :: "pyfloat option"
  ch_avg_price :: "pyfloat option"
  ch_order_id :: "string option"
  ch_clob_id :: "string option"
  ch_submitted_at :: "timestamp option"
  ch_last_attempt_at :: "timestamp option"
  ch_escalations :: int
  ch_error :: "string option"
  ch_metadata :: string

record fill_totals =
  t_size :: pyfloat
  t_notional :: pyfloat
  t_avg :: pyfloat

record pending_exit =
  pe_target :: "pyfloat option"
  pe_trigger :: "pyfloat option"
  pe_children :: "child_record list"
  pe_policy :: exit_policy
  pe_totals :: "fill_totals option"
  pe_last_pass_at :: "timestamp option"
  pe_last_report :: "(nat \<times> nat \<times> nat) option"

definition child_plan_to_record :: "string \<Rightarrow> child_plan \<Rightarrow> child_record" where
  "child_plan_to_record exit_id p =
     \<lparr>ch_id = exit_id @ ''-c'' @ nat_str (cp_index p), ch_index = cp_index p, ch_price = Some (cp_price p), ch_size = cp_size p,
      ch_tif = cp_tif p, ch_post_only = cp_post_only p, ch_bucket = cp_bucket p, ch_status = ''planned'', ch_filled = Some 0,
      ch_avg_price = None, ch_order_id = None, ch_clob_id = None, ch_submitted_at = None, ch_last_attempt_at = None,
      ch_escalations = 0, ch_error = None, ch_metadata = ''exit:'' @ exit_id @ '':c'' @ nat_str (cp_index p)\<rparr>"

text \<open>A missing exit id is drawn from \<open>uuid4\<close>: the fresh id is an argument.\<close>

definition build_initial_children ::
    "string \<Rightarrow> pyfloat \<Rightarrow> pyfloat \<Rightarrow> string \<Rightarrow> exit_policy \<Rightarrow> pyfloat \<Rightarrow> string option \<Rightarrow> string \<times> child_record list" where
  "build_initial_children fresh_id target trigger_price side policy tick exit_id =
     (let eid = (case exit_id of None \<Rightarrow> fresh_id | Some e \<Rightarrow> if e = [] then fresh_id else e)
      in (eid, map (child_plan_to_record eid) (plan_children target trigger_price side policy tick None ''GTC'' True)))"

definition child_fill :: "child_record \<Rightarrow> pyfloat" where
  "child_fill c = max 0 (case ch_filled c of None \<Rightarrow> 0 | Some x \<Rightarrow> x)"

definition child_avg :: "child_record \<Rightarrow> pyfloat" where
  "child_avg c =
     (case ch_avg_price c of Some a \<Rightarrow> if a \<le> 0 then (case ch_price c of None \<Rightarrow> 0 | Some p \<Rightarrow> p) else a
      | None \<Rightarrow> (case ch_price c of None \<Rightarrow> 0 | Some p \<Rightarrow> p))"

definition aggregate_children_fills :: "child_record list \<Rightarrow> fill_totals" where
  "aggregate_children_fills cs =
     (let (sz, nt) = foldl (\<lambda>(sz, nt) c. if child_fill c \<le> 0 then (sz, nt)
            else (sz + child_fill c, nt + child_fill c * child_avg c)) (0, 0) cs
      in \<lparr>t_size = sz, t_notional = nt, t_avg = (if sz > 0 then nt / sz else 0)\<rparr>)"

definition status_norm :: "child_record \<Rightarrow> string" where
  "status_norm c = py_lower (py_strip (ch_status c))"

definition child_working :: "child_record \<Rightarrow> bool" where
  "child_working c = (status_norm c \<in> {''submitted'', ''partial''})"

definition exit_target :: "pending_exit \<Rightarrow> pyfloat" where
  "exit_target pe = max 0 (case pe_target pe of None \<Rightarrow> 0 | Some t \<Rightarrow> t)"

definition child_active :: "child_record \<Rightarrow> bool" where
  "child_active c = (status_norm c = ''planned'' \<or> child_working c \<or> status_norm c = ''escalated'')"

definition is_exit_complete :: "pending_exit \<Rightarrow> pyfloat \<Rightarrow> bool" where
  "is_exit_complete pe ratio =
     (if pe_children pe = [] then False
      else if exit_target pe > 0 \<and> t_size (aggregate_children_fills (pe_children pe)) + eps9 \<ge> exit_target pe * ratio then True
      else \<not> list_ex child_active (pe_children pe))"

definition remaining_target_size :: "pending_exit \<Rightarrow> pyfloat" where
  "remaining_target_size pe =
     (if exit_target pe \<le> 0 then 0 else max 0 (exit_target pe - t_size (aggregate_children_fills (pe_children pe))))"

fun submit_loop :: "int \<Rightarrow> nat \<Rightarrow> nat list \<Rightarrow> child_record list \<Rightarrow> nat list" where
  "submit_loop max_count i out [] = out"
| "submit_loop max_count i out (c # cs) =
     (if status_norm c = ''planned'' then
        let out' = out @ [i] in
        if int (length out') \<ge> max_count then out' else submit_loop max_count (i + 1) out' cs
      else submit_loop max_count (i + 1) out cs)"

definition pick_children_to_submit :: "pending_exit \<Rightarrow> int \<Rightarrow> nat list" where
  "pick_children_to_submit pe max_count = submit_loop max_count 0 [] (pe_children pe)"

definition stale_child :: "pyfloat \<Rightarrow> pyfloat \<Rightarrow> pyfloat \<Rightarrow> timestamp \<Rightarrow> child_record \<Rightarrow> bool" where
  "stale_child drift_bps min_interval current_mid now c =
     (child_working c \<and>
      (case ch_price c of None \<Rightarrow> False | Some p \<Rightarrow> p > 0 \<and> \<not> \<bar>p - current_mid\<bar> / current_mid * 10000 + eps9 < drift_bps) \<and>
      (case ch_last_attempt_at c of None \<Rightarrow> True | Some t \<Rightarrow> \<not> total_seconds (now - t) + eps9 < min_interval))"

definition indices_where :: "(child_record \<Rightarrow> bool) \<Rightarrow> child_record list \<Rightarrow> nat list" where
  "indices_where P cs = filter (\<lambda>i. P (cs ! i)) [0..<length cs]"

definition pick_children_to_reprice :: "pending_exit \<Rightarrow> pyfloat \<Rightarrow> timestamp \<Rightarrow> nat list" where
  "pick_children_to_reprice pe current_mid now =
     (case x_reprice_bps (pe_policy pe) of
        None \<Rightarrow> []
      | Some bps \<Rightarrow> if current_mid \<le> 0 then []
          else indices_where (stale_child bps (x_min_reprice_interval (pe_policy pe)) current_mid now) (pe_children pe))"

definition overdue_child :: "escalation_spec \<Rightarrow> timestamp \<Rightarrow> child_record \<Rightarrow> bool" where
  "overdue_child es now c =
     (child_working c \<and> \<not> ch_escalations c \<ge> es_max_escalations es \<and>
      (case (case ch_submitted_at c of Some t \<Rightarrow> Some t | None \<Rightarrow> ch_last_attempt_at c) of
         None \<Rightarrow> False | Some t \<Rightarrow> \<not> total_seconds (now - t) + eps9 < es_after_seconds es))"

definition pick_children_to_escalate :: "pending_exit \<Rightarrow> timestamp \<Rightarrow> nat list" where
  "pick_children_to_escalate pe now =
     (case x_escalation (pe_policy pe) of None \<Rightarrow> [] | Some es \<Rightarrow> indices_where (overdue_child es now) (pe_children pe))"

lemma aggregate_fold:
  "foldl (\<lambda>(sz, nt) c. if child_fill c \<le> 0 then (sz, nt) else (sz + child_fill c, nt + child_fill c * child_avg c)) (a, b) cs =
   (a + sum_list (map child_fill cs), b + sum_list (map (\<lambda>c. child_fill c * child_avg c) cs))"
proof (induction cs arbitrary: a b)
  case (Cons c cs)
  have "child_fill c = 0" if "child_fill c \<le> 0" using that by (simp add: child_fill_def)
  then show ?case using Cons by (simp add: add.assoc)
qed simp

lemma aggregate_size: "t_size (aggregate_children_fills cs) = sum_list (map child_fill cs)"
  "t_notional (aggregate_children_fills cs) = sum_list (map (\<lambda>c. child_fill c * child_avg c) cs)"
  by (simp_all add: aggregate_children_fills_def aggregate_fold)

lemma submit_loop_take:
  "int (length out) < max 1 m \<Longrightarrow> submit_loop m i out cs =
     out @ take (nat (max 1 m) - length out) (map (\<lambda>j. i + j) (indices_where (\<lambda>c. status_norm c = ''planned'') cs))"
proof (induction m i out cs rule: submit_loop.induct)
  case (2 m i out c cs)
  let ?P = "\<lambda>c. status_norm c = ''planned''"
  have idx: "indices_where ?P (c # cs) = (if ?P c then [0] else []) @ map Suc (indices_where ?P cs)"
    unfolding indices_where_def by (simp add: upt_conv_Cons map_Suc_upt[symmetric] filter_map comp_def del: upt_Suc)
  show ?case
  proof (cases "?P c")
    case False
    then show ?thesis using 2(2)[OF False 2(3)] by (simp add: idx comp_def)
  next
    case True
    show ?thesis
    proof (cases "int (length (out @ [i])) \<ge> m")
      case stop: True
      then have "nat (max 1 m) - length out = 1" using 2(3) by auto
      then show ?thesis using True stop by (simp add: idx)
    next
      case False
      then have lt: "int (length (out @ [i])) < max 1 m" by simp
      have "nat (max 1 m) - length out = Suc (nat (max 1 m) - length (out @ [i]))" using lt by auto
      then show ?thesis using True False 2(1)[OF True refl False lt] by (simp add: idx comp_def)
    qed
  qed
qed (simp add: indices_where_def)

section \<open>Properties\<close>

text \<open>
  Storing a policy in the pending-exit row and reading it back gives the policy again, up to the defaults and the
  upper case that storing applies; it never raises.
\<close>

theorem policy_roundtrip: "deserialize_policy (serialize_policy p) = ok (Some (normalize_policy p))"
proof -
  have l: "deserialize_ladder (case x_ladder p of None \<Rightarrow> DNull | Some l \<Rightarrow> serialize_ladder l) = ok (x_ladder (normalize_policy p))"
    using ladder_roundtrip by (cases "x_ladder p") (simp_all add: normalize_policy_def deserialize_ladder_def)
  have e: "deserialize_escalation (case x_escalation p of None \<Rightarrow> DNull | Some l \<Rightarrow> serialize_escalation l) = ok (x_escalation (normalize_policy p))"
    using escalation_roundtrip by (cases "x_escalation p") (simp_all add: normalize_policy_def deserialize_escalation_def)
  have mx: "deserialize_mix (case x_order_type_mix p of None \<Rightarrow> DNull | Some mx \<Rightarrow> if mx = [] then DNull else serialize_mix mx)
      = ok (x_order_type_mix (normalize_policy p))"
    using mix_roundtrip by (cases "x_order_type_mix p") (simp_all add: normalize_policy_def deserialize_mix_def)
  have f: "opt_float (case v of None \<Rightarrow> DNull | Some c \<Rightarrow> DFloat c) = ok v" for v
    by (cases v) (simp_all add: opt_float_def)
  show ?thesis unfolding deserialize_policy_def stored_fields l e mx f
    by (simp add: stored_fields normalize_policy_def)
qed

text \<open>
  The books of a pending exit: fills and remainder add up to the target until it is exceeded, the pass submits the first
  planned children up to its budget, and an exit that is not complete always has a child left to work on.
\<close>

theorem pending_exit_books:
  "remaining_target_size pe = max 0 (exit_target pe - sum_list (map child_fill (pe_children pe)))
   \<and> pick_children_to_submit pe k = take (nat (max 1 k)) (indices_where (\<lambda>c. status_norm c = ''planned'') (pe_children pe))
   \<and> (is_exit_complete pe ratio \<or> pe_children pe = [] \<or> (\<exists>c\<in>set (pe_children pe). child_active c))"
proof -
  have nn: "0 \<le> sum_list (map child_fill (pe_children pe))"
    by (rule sum_list_nonneg_real) (auto simp: child_fill_def)
  have "0 \<le> exit_target pe" by (simp add: exit_target_def)
  then have "remaining_target_size pe = max 0 (exit_target pe - sum_list (map child_fill (pe_children pe)))"
    using nn by (auto simp: remaining_target_size_def aggregate_size)
  moreover have "pick_children_to_submit pe k = take (nat (max 1 k)) (indices_where (\<lambda>c. status_norm c = ''planned'') (pe_children pe))"
    using submit_loop_take[of "[]" k 0 "pe_children pe"] by (simp add: pick_children_to_submit_def)
  ultimately show ?thesis by (auto simp: is_exit_complete_def list_ex_iff)
qed

theorem pending_exit_books_witness:
  "let c = child_plan_to_record ''e'' \<lparr>cp_index = 0, cp_price = 1, cp_size = 4, cp_tif = ''GTC'', cp_post_only = True, cp_bucket = 0\<rparr> in
   pick_children_to_submit \<lparr>pe_target = Some 4, pe_trigger = Some 1, pe_children = [c], pe_policy = default_policy,
      pe_totals = None, pe_last_pass_at = None, pe_last_report = None\<rparr> 3
   = take 3 (indices_where (\<lambda>c. status_norm c = ''planned'') [c])"
  by (simp add: pending_exit_books Let_def)

end
