(* ===== verification/Backtest.thy ===== *)
theory Backtest
  imports Resting Portfolio ExitRow
begin

text \<open>
  The driver of \<open>services/backtest/engine.py\<close>: intents are drained and gated by the portfolio, the
  matching engine advances on each snapshot, fills are booked, positions are marked, the strategy is asked for
  exits, resolved markets are settled, and what is left at the end is closed at its mark.

  The strategy is code outside the engine: its hooks are the fields of an argument, each a function on the
  strategy's own state that may raise. Order ids drawn from \<open>uuid4\<close> and the wall clock are arguments too.
\<close>

section \<open>Inputs\<close>

record trade_intent =
  i_id :: string
  i_emitted_at :: timestamp
  i_token :: string
  i_side :: string
  i_size :: pyfloat
  i_limit_price :: pyfloat
  i_tif :: string
  i_post_only :: bool
  i_slug :: "string option"
  i_trader :: "string option"
  i_meta :: "(string, fill_note) dict"

record token_settlement =
  ts_token :: string
  ts_settle_price :: "pyfloat option"
  ts_resolution_time :: "timestamp option"
  ts_winning_outcome :: "string option"
  ts_condition_id :: "string option"
  ts_source :: string

definition settlement_won :: "token_settlement \<Rightarrow> bool option" where
  "settlement_won s = (case ts_settle_price s of None \<Rightarrow> None | Some p \<Rightarrow> if p = 1 / 2 then None else Some (p > 1 / 2))"

record position_view =
  v_entry :: pyfloat
  v_current :: pyfloat
  v_highest :: pyfloat
  v_lowest :: pyfloat
  v_age_minutes :: pyfloat
  v_pnl_percent :: pyfloat
  v_filled_size :: pyfloat
  v_notional :: pyfloat

record market_state =
  ms_current_price :: pyfloat
  ms_tradable :: bool
  ms_resolved :: bool
  ms_winning_outcome :: "string option"
  ms_token :: string

record exit_decision =
  xd_action :: string
  xd_reduce_fraction :: "pyfloat option"
  xd_close_price :: "pyfloat option"
  xd_reason :: "string option"
  xd_exit_policy :: "exit_policy option"

record 'st strategy =
  on_fill :: "(order \<Rightarrow> fill \<Rightarrow> 'st \<Rightarrow> py_error option \<times> 'st) option"
  on_partial_fill :: "(order \<Rightarrow> fill \<Rightarrow> 'st \<Rightarrow> py_error option \<times> 'st) option"
  on_cancel :: "(order \<Rightarrow> string \<Rightarrow> pyfloat \<Rightarrow> 'st \<Rightarrow> py_error option \<times> 'st) option"
  should_exit :: "(position_view \<Rightarrow> market_state \<Rightarrow> 'st \<Rightarrow> (py_error + exit_decision option) \<times> 'st) option"
  resolve_exit_policy :: "(exit_decision \<Rightarrow> string \<Rightarrow> 'st \<Rightarrow> (py_error + exit_policy option) \<times> 'st) option"

record 'st backtest_config =
  bc_portfolio :: portfolio_config
  bc_match :: match_config
  bc_final_close :: bool
  bc_fail_on_error :: bool
  bc_settlements :: "(string, token_settlement) dict"
  bc_strategy :: "'st strategy option"
  bc_order_id :: "nat \<Rightarrow> string"
  bc_wall_clock :: timestamp
  bc_seed :: "int option"

record 'st backtest =
  b_portfolio :: portfolio
  b_matching :: engine
  b_latest :: "(string, book_snapshot) dict"
  b_notified :: "string list"
  b_intents :: "trade_intent list"
  b_drained :: nat
  b_processed :: nat
  b_schedule :: "(timestamp \<times> string) list"
  b_ptr :: nat
  b_settled :: nat
  b_marked_to_mid :: nat
  b_next_id :: nat
  b_strategy :: 'st

text \<open>The portfolio shares the matching engine's fee model unless it has its own.\<close>

definition portfolio_cfg :: "'st backtest_config \<Rightarrow> portfolio_config" where
  "portfolio_cfg cfg =
     (case pc_fee_model (bc_portfolio cfg) of
        None \<Rightarrow> (bc_portfolio cfg)\<lparr>pc_fee_model := Some (mc_fees (bc_match cfg))\<rparr>
      | Some _ \<Rightarrow> bc_portfolio cfg)"

definition init_backtest :: "'st backtest_config \<Rightarrow> latency_model \<Rightarrow> 'st \<Rightarrow> 'st backtest" where
  "init_backtest cfg lm st =
     \<lparr>b_portfolio = init_portfolio (portfolio_cfg cfg), b_matching = init_engine lm, b_latest = [], b_notified = [],
      b_intents = [], b_drained = 0, b_processed = 0, b_schedule = [], b_ptr = 0, b_settled = 0, b_marked_to_mid = 0,
      b_next_id = 0, b_strategy = st\<rparr>"

section \<open>Entries\<close>

definition submit_order :: "'st backtest_config \<Rightarrow> order \<Rightarrow> 'st backtest \<Rightarrow> py_error + 'st backtest" where
  "submit_order cfg o' s =
     (case submit (bc_match cfg) o' (b_matching s) of Inl e \<Rightarrow> Inl e | Inr (_, e') \<Rightarrow> ok (s\<lparr>b_matching := e'\<rparr>))"

definition make_order_id :: "'st backtest_config \<Rightarrow> 'st backtest \<Rightarrow> string \<times> 'st backtest" where
  "make_order_id cfg s = (bc_order_id cfg (b_next_id s), s\<lparr>b_next_id := b_next_id s + 1\<rparr>)"

definition submit_entry :: "'st backtest_config \<Rightarrow> trade_intent \<Rightarrow> 'st backtest \<Rightarrow> py_error + 'st backtest" where
  "submit_entry cfg i s =
     (if \<not> fst (can_submit (portfolio_cfg cfg) (b_portfolio s) (i_token i) (i_side i) (i_limit_price i) (i_size i) (i_slug i))
      then ok s
      else let (oid, s1) = (if i_id i = [] then make_order_id cfg s else (i_id i, s));
               o' = (new_order oid (i_token i) (i_side i) (i_limit_price i) (i_size i) (i_tif i) (i_post_only i) (i_emitted_at i))
                      \<lparr>o_trader := i_trader i, o_slug := i_slug i,
                       o_meta := dict_update [(''role'', NStr (Some ''entry''))] (i_meta i)\<rparr>
           in submit_order cfg o' s1)"

fun drain :: "'st backtest_config \<Rightarrow> timestamp \<Rightarrow> trade_intent list \<Rightarrow> 'st backtest \<Rightarrow> py_error + 'st backtest" where
  "drain cfg now [] s = ok s"
| "drain cfg now (i # is) s =
     (if i_emitted_at i \<le> now
      then ebind (submit_entry cfg i (s\<lparr>b_drained := b_drained s + 1\<rparr>)) (drain cfg now is)
      else ok s)"

definition drain_intents :: "'st backtest_config \<Rightarrow> timestamp \<Rightarrow> 'st backtest \<Rightarrow> py_error + 'st backtest" where
  "drain_intents cfg now s = drain cfg now (drop (b_drained s) (b_intents s)) s"

section \<open>Fills and marks\<close>

text \<open>A hook's error is swallowed unless the run is configured to fail on strategy errors.\<close>

definition hook_result :: "'st backtest_config \<Rightarrow> py_error option \<times> 'st \<Rightarrow> 'st backtest \<Rightarrow> py_error + 'st backtest" where
  "hook_result cfg r s =
     (case fst r of
        Some e \<Rightarrow> if bc_fail_on_error cfg then raise e else ok (s\<lparr>b_strategy := snd r\<rparr>)
      | None \<Rightarrow> ok (s\<lparr>b_strategy := snd r\<rparr>))"

definition notify_fill :: "'st backtest_config \<Rightarrow> order \<Rightarrow> fill \<Rightarrow> 'st backtest \<Rightarrow> py_error + 'st backtest" where
  "notify_fill cfg o' f s =
     (case bc_strategy cfg of
        None \<Rightarrow> ok s
      | Some st \<Rightarrow>
          (case (remaining_size o' > eps12, on_partial_fill st) of
             (True, Some h) \<Rightarrow> hook_result cfg (h o' f (b_strategy s)) s
           | _ \<Rightarrow> (case on_fill st of None \<Rightarrow> ok s | Some h \<Rightarrow> hook_result cfg (h o' f (b_strategy s)) s)))"

definition book_fill_event :: "'st backtest_config \<Rightarrow> fill \<Rightarrow> 'st backtest \<Rightarrow> py_error + 'st backtest" where
  "book_fill_event cfg f s =
     (case dict_get (e_orders (b_matching s)) (f_order_id f) of
        None \<Rightarrow> ok s
      | Some o' \<Rightarrow> notify_fill cfg o' f
          (s\<lparr>b_portfolio := apply_fill (portfolio_cfg cfg) f (o_slug o') (b_portfolio s)\<rparr>))"

fun fold_ok :: "('x \<Rightarrow> 's \<Rightarrow> py_error + 's) \<Rightarrow> 'x list \<Rightarrow> 's \<Rightarrow> py_error + 's" where
  "fold_ok f [] s = ok s"
| "fold_ok f (x # xs) s = ebind (f x s) (fold_ok f xs)"

definition mark_snapshot :: "'st backtest_config \<Rightarrow> book_snapshot \<Rightarrow> 'st backtest \<Rightarrow> 'st backtest" where
  "mark_snapshot cfg snap s =
     (let s1 = s\<lparr>b_latest := dict_set (b_latest s) (s_token snap) snap\<rparr> in
      case mid snap of
        None \<Rightarrow> s1
      | Some m \<Rightarrow> s1\<lparr>b_portfolio := mark (portfolio_cfg cfg) (s_token snap) m (s_observed_at snap) (b_portfolio s1)\<rparr>)"

section \<open>Exits\<close>

definition view_of :: "position \<Rightarrow> book_snapshot \<Rightarrow> position_view" where
  "view_of pos snap =
     (let current = (case mid snap of None \<Rightarrow> p_entry pos | Some m \<Rightarrow> m);
          m' = py_or (mid snap) (p_entry pos)
      in \<lparr>v_entry = p_entry pos, v_current = current, v_highest = max (p_entry pos) m', v_lowest = min (p_entry pos) m',
          v_age_minutes = (case p_opened_at pos of None \<Rightarrow> 0
             | Some t \<Rightarrow> max 0 (total_seconds (s_observed_at snap - t) / 60)),
          v_pnl_percent = (if p_entry pos > 0 then (current - p_entry pos) / p_entry pos * 100 else 0),
          v_filled_size = p_size pos, v_notional = p_size pos * p_entry pos\<rparr>)"

definition market_state_of :: "'st backtest_config \<Rightarrow> position \<Rightarrow> book_snapshot \<Rightarrow> market_state" where
  "market_state_of cfg pos snap =
     (let st = dict_get (bc_settlements cfg) (p_token pos);
          resolved = (case st of None \<Rightarrow> False
             | Some x \<Rightarrow> (case ts_resolution_time x of None \<Rightarrow> False | Some t \<Rightarrow> s_observed_at snap \<ge> t))
      in \<lparr>ms_current_price = v_current (view_of pos snap), ms_tradable = (\<not> resolved), ms_resolved = resolved,
          ms_winning_outcome = (if resolved then (case st of None \<Rightarrow> None | Some x \<Rightarrow> ts_winning_outcome x) else None),
          ms_token = p_token pos\<rparr>)"

definition call_should_exit ::
    "'st backtest_config \<Rightarrow> position \<Rightarrow> book_snapshot \<Rightarrow> 'st backtest \<Rightarrow> py_error + (exit_decision option \<times> 'st backtest)" where
  "call_should_exit cfg pos snap s =
     (case bc_strategy cfg of
        None \<Rightarrow> ok (None, s)
      | Some st \<Rightarrow>
          (case should_exit st of
             None \<Rightarrow> ok (None, s)
           | Some h \<Rightarrow>
               (case h (view_of pos snap) (market_state_of cfg pos snap) (b_strategy s) of
                  (Inl e, x) \<Rightarrow> if bc_fail_on_error cfg then raise e else ok (None, s\<lparr>b_strategy := x\<rparr>)
                | (Inr d, x) \<Rightarrow> ok (d, s\<lparr>b_strategy := x\<rparr>))))"

definition resolve_policy ::
    "'st backtest_config \<Rightarrow> exit_decision \<Rightarrow> string \<Rightarrow> 'st backtest \<Rightarrow> py_error + (exit_policy option \<times> 'st backtest)" where
  "resolve_policy cfg d trigger s =
     (case bc_strategy cfg of
        None \<Rightarrow> ok (xd_exit_policy d, s)
      | Some st \<Rightarrow>
          (case resolve_exit_policy st of
             None \<Rightarrow> ok (xd_exit_policy d, s)
           | Some h \<Rightarrow>
               (case h d trigger (b_strategy s) of
                  (Inl e, x) \<Rightarrow> if bc_fail_on_error cfg then raise e else ok (None, s\<lparr>b_strategy := x\<rparr>)
                | (Inr p, x) \<Rightarrow> ok (p, s\<lparr>b_strategy := x\<rparr>))))"

definition submit_single_exit ::
    "'st backtest_config \<Rightarrow> position \<Rightarrow> string \<Rightarrow> pyfloat \<Rightarrow> pyfloat \<Rightarrow> string \<Rightarrow> bool \<Rightarrow> timestamp \<Rightarrow> string
     \<Rightarrow> (string, fill_note) dict \<Rightarrow> 'st backtest \<Rightarrow> py_error + 'st backtest" where
  "submit_single_exit cfg pos side sz price tif post_only t role child_meta s =
     (let (oid, s1) = make_order_id cfg s;
          o' = (new_order oid (p_token pos) side price sz tif post_only t)
                 \<lparr>o_slug := p_slug pos,
                  o_meta := dict_update [(''role'', NStr (Some role)), (''exit_for_position'', NStr (Some (p_side pos)))] child_meta\<rparr>
      in submit_order cfg o' s1)"

text \<open>One closing order, or the children of the exit plan when a policy applies.\<close>

definition exit_orders ::
    "'st backtest_config \<Rightarrow> position \<Rightarrow> string \<Rightarrow> pyfloat \<Rightarrow> pyfloat \<Rightarrow> string \<Rightarrow> timestamp \<Rightarrow> exit_policy option
     \<Rightarrow> 'st backtest \<Rightarrow> py_error + 'st backtest" where
  "exit_orders cfg pos side target close_price trigger t policy s =
     (case policy of
        None \<Rightarrow> submit_single_exit cfg pos side target close_price TIF_IOC False t ''exit'' [] s
      | Some pol \<Rightarrow>
          let plans = plan_children target close_price side pol default_tick_size None
                        (if trigger = ''stop_loss'' then TIF_IOC else TIF_GTC) False
          in if plans = [] then submit_single_exit cfg pos side target close_price TIF_IOC False t ''exit_fallback'' [] s
             else fold_ok (\<lambda>p. submit_single_exit cfg pos side (cp_size p) (cp_price p) (cp_tif p) (cp_post_only p) t ''exit_child''
                    [(''child_index'', NNum (real (cp_index p))), (''bucket'', NNum (real (cp_bucket p)))]) plans s)"

definition submit_exit_for ::
    "'st backtest_config \<Rightarrow> position \<Rightarrow> exit_decision \<Rightarrow> pyfloat \<Rightarrow> book_snapshot \<Rightarrow> 'st backtest \<Rightarrow> py_error + 'st backtest" where
  "submit_exit_for cfg pos d fraction snap s =
     (let target = p_size pos * fraction in
      if target \<le> 0 then ok s
      else let close_price = py_or (xd_close_price d) (py_or (mid snap) (p_entry pos));
               trigger = (case xd_reason d of None \<Rightarrow> ''exit'' | Some r \<Rightarrow> if r = [] then ''exit'' else r);
               side = (if p_side pos = ''BUY'' then ''SELL'' else ''BUY'')
           in ebind (resolve_policy cfg d trigger s) (\<lambda>(policy, s1).
                exit_orders cfg pos side target close_price trigger (s_observed_at snap) policy s1))"

definition evaluate_exit ::
    "'st backtest_config \<Rightarrow> book_snapshot \<Rightarrow> position \<Rightarrow> 'st backtest \<Rightarrow> py_error + 'st backtest" where
  "evaluate_exit cfg snap pos s =
     ebind (call_should_exit cfg pos snap s) (\<lambda>(d, s1).
       case d of
         None \<Rightarrow> ok s1
       | Some x \<Rightarrow>
           if xd_action x = ''hold'' then ok s1
           else if xd_action x = ''reduce'' then
             let fraction = (case xd_reduce_fraction x of None \<Rightarrow> 0 | Some r \<Rightarrow> r)
             in if fraction \<le> 0 then ok s1 else submit_exit_for cfg pos x (min 1 fraction) snap s1
           else if xd_action x = ''close'' then submit_exit_for cfg pos x 1 snap s1
           else ok s1)"

definition evaluate_exits_for_token :: "'st backtest_config \<Rightarrow> book_snapshot \<Rightarrow> 'st backtest \<Rightarrow> py_error + 'st backtest" where
  "evaluate_exits_for_token cfg snap s =
     fold_ok (evaluate_exit cfg snap)
       (map snd (filter (\<lambda>(k, p). fst k = s_token snap \<and> p_size p > eps12) (positions (b_portfolio s)))) s"

text \<open>\<open>strategy.on_cancel\<close> for orders that became cancelled since the last scan.\<close>

definition cancel_reason :: "order \<Rightarrow> string" where
  "cancel_reason o' = (if o_tif o' \<in> {''IOC'', ''FAK''} then ''expired'' else ''user_cancel'')"

definition notify_cancel :: "'st backtest_config \<Rightarrow> order \<Rightarrow> 'st backtest \<Rightarrow> py_error + 'st backtest" where
  "notify_cancel cfg o' s =
     (if o_state o' \<noteq> CANCELLED \<or> o_id o' \<in> set (b_notified s) then ok s
      else case bc_strategy cfg of
        None \<Rightarrow> ok s
      | Some st \<Rightarrow>
          (case on_cancel st of
             None \<Rightarrow> ok s
           | Some h \<Rightarrow> hook_result cfg (h o' (cancel_reason o') (remaining_size o') (b_strategy s))
               (s\<lparr>b_notified := b_notified s @ [o_id o']\<rparr>)))"

section \<open>Settlement\<close>

definition settle_notes :: "token_settlement \<Rightarrow> pyfloat \<Rightarrow> (string, fill_note) dict" where
  "settle_notes st price =
     [(''settlement'', NBool True), (''winning_outcome'', NStr (ts_winning_outcome st)), (''settle_price'', NNum price),
      (''source'', NStr (Some (ts_source st)))]"

definition final_notes :: "(string, fill_note) dict" where
  "final_notes = [(''final_mark_to_market'', NBool True), (''settlement_status'', NStr (Some ''unsettled''))]"

definition synthetic_fill :: "position \<Rightarrow> string \<Rightarrow> pyfloat \<Rightarrow> timestamp \<Rightarrow> bool \<Rightarrow> (string, fill_note) dict \<Rightarrow> fill" where
  "synthetic_fill pos token price t is_settlement fill_notes =
     \<lparr>f_order_id = (if is_settlement then ''settle_'' else ''final_mtm_'') @ token, f_token = p_token pos,
      f_side = (if p_side pos = ''BUY'' then ''SELL'' else ''BUY''), f_price = price, f_size = p_size pos, f_fee_usd = 0,
      f_occurred_at = t, f_index = 0, f_sequence = None, f_notes = fill_notes\<rparr>"

definition close_position_at ::
    "'st backtest_config \<Rightarrow> position_key \<Rightarrow> position \<Rightarrow> pyfloat \<Rightarrow> timestamp \<Rightarrow> bool
     \<Rightarrow> (string, fill_note) dict \<Rightarrow> portfolio \<Rightarrow> portfolio" where
  "close_position_at cfg key pos price t is_settlement fill_notes pf =
     (let f = synthetic_fill pos (fst key) price t is_settlement fill_notes;
          p1 = apply_close_fill f pos;
          fee = gain_fee (portfolio_cfg cfg) (p_realized p1 - p_realized pos)
      in pf\<lparr>cash_usd := cash_from_close p1 f (cash_usd pf) - fee,
            resolution_fees_paid := resolution_fees_paid pf + fee,
            closed_positions := closed_positions pf @ [charge_gain fee p1],
            positions := dict_pop (positions pf) key\<rparr>)"

definition settle_position ::
    "'st backtest_config \<Rightarrow> string \<Rightarrow> token_settlement \<Rightarrow> pyfloat \<Rightarrow> timestamp \<Rightarrow> position_key \<times> position
     \<Rightarrow> 'st backtest \<Rightarrow> 'st backtest" where
  "settle_position cfg token st price t kp s =
     (if fst (fst kp) \<noteq> token \<or> p_size (snd kp) \<le> eps12 then s
      else s\<lparr>b_portfolio := close_position_at cfg (fst kp) (snd kp) price t True (settle_notes st price) (b_portfolio s),
             b_settled := b_settled s + 1\<rparr>)"

definition settle_token :: "'st backtest_config \<Rightarrow> timestamp \<Rightarrow> string \<Rightarrow> 'st backtest \<Rightarrow> 'st backtest" where
  "settle_token cfg now token s =
     (case dict_get (bc_settlements cfg) token of
        None \<Rightarrow> s
      | Some st \<Rightarrow>
          (case ts_settle_price st of
             None \<Rightarrow> s
           | Some price \<Rightarrow>
               foldl (\<lambda>s kp. settle_position cfg token st price
                       (case ts_resolution_time st of Some t \<Rightarrow> t | None \<Rightarrow> now) kp s) s (positions (b_portfolio s))))"

fun settle_loop :: "'st backtest_config \<Rightarrow> timestamp \<Rightarrow> (timestamp \<times> string) list \<Rightarrow> 'st backtest \<Rightarrow> 'st backtest" where
  "settle_loop cfg now [] s = s"
| "settle_loop cfg now ((t, token) # sched) s =
     (if t \<le> now then settle_loop cfg now sched (settle_token cfg now token (s\<lparr>b_ptr := b_ptr s + 1\<rparr>)) else s)"

definition settle_due :: "'st backtest_config \<Rightarrow> timestamp \<Rightarrow> 'st backtest \<Rightarrow> 'st backtest" where
  "settle_due cfg now s = settle_loop cfg now (drop (b_ptr s) (b_schedule s)) s"

definition resolution_schedule :: "'st backtest_config \<Rightarrow> (timestamp \<times> string) list" where
  "resolution_schedule cfg =
     sort_key fst (List.map_filter (\<lambda>(tid, s).
        case (ts_resolution_time s, ts_settle_price s) of (Some t, Some p) \<Rightarrow> Some (t, tid) | _ \<Rightarrow> None) (bc_settlements cfg))"

section \<open>The run\<close>

definition intents_ready :: "timestamp \<Rightarrow> 'st backtest \<Rightarrow> bool" where
  "intents_ready now s = (b_drained s < length (b_intents s) \<and> i_emitted_at (b_intents s ! b_drained s) \<le> now)"

definition has_position_for_token :: "'st backtest \<Rightarrow> string \<Rightarrow> bool" where
  "has_position_for_token s token = list_ex (\<lambda>(k, p). fst k = token) (positions (b_portfolio s))"

definition process_snapshot :: "'st backtest_config \<Rightarrow> book_snapshot \<Rightarrow> 'st backtest \<Rightarrow> py_error + 'st backtest" where
  "process_snapshot cfg snap s =
     ebind (drain_intents cfg (s_observed_at snap) s) (\<lambda>s1.
     ebind (case advance_to (bc_match cfg) snap (b_matching s1) of
              Inl e \<Rightarrow> Inl e | Inr (fs, e') \<Rightarrow> ok (fs, s1\<lparr>b_matching := e'\<rparr>)) (\<lambda>(fs, s2).
     ebind (fold_ok (book_fill_event cfg) fs s2) (\<lambda>s3.
     ebind (if Option.is_none (bc_strategy cfg) then ok (mark_snapshot cfg snap s3)
            else evaluate_exits_for_token cfg snap (mark_snapshot cfg snap s3)) (\<lambda>s4.
     fold_ok (notify_cancel cfg) (all_orders (b_matching s4)) s4))))"

definition on_snapshot :: "'st backtest_config \<Rightarrow> book_snapshot \<Rightarrow> 'st backtest \<Rightarrow> py_error + 'st backtest" where
  "on_snapshot cfg snap s =
     (let s0 = settle_due cfg (s_observed_at snap) s in
      if \<not> (intents_ready (s_observed_at snap) s0 \<or> has_active_orders_for_token (b_matching s0) (s_token snap)
             \<or> has_position_for_token s0 (s_token snap))
      then ok (s0\<lparr>b_latest := dict_set (b_latest s0) (s_token snap) snap\<rparr>)
      else process_snapshot cfg snap s0)"

definition final_close :: "'st backtest_config \<Rightarrow> position_key \<times> position \<Rightarrow> 'st backtest \<Rightarrow> 'st backtest" where
  "final_close cfg kp s =
     (let key = fst kp; pos = snd kp; run_end = e_now (b_matching s) in
      if p_size pos \<le> eps12 then s
      else
        let resolved = (case dict_get (bc_settlements cfg) (p_token pos) of
              None \<Rightarrow> None
            | Some st \<Rightarrow> (case (ts_settle_price st, ts_resolution_time st, run_end) of
                (Some p, Some t, Some e) \<Rightarrow> if e \<ge> t then Some (p, t, st) else None | _ \<Rightarrow> None))
        in case resolved of
             Some (p, t, st) \<Rightarrow> s\<lparr>b_portfolio := close_position_at cfg key pos p t True (settle_notes st p) (b_portfolio s), b_settled := b_settled s + 1\<rparr>
           | None \<Rightarrow>
               let close_at = (case p_mark_at pos of Some t \<Rightarrow> t | None \<Rightarrow>
                     (case p_opened_at pos of Some t \<Rightarrow> t | None \<Rightarrow> (case run_end of Some t \<Rightarrow> t | None \<Rightarrow> bc_wall_clock cfg)))
               in s\<lparr>b_portfolio := close_position_at cfg key pos (mark_or_entry pos) close_at False final_notes (b_portfolio s),
                    b_marked_to_mid := b_marked_to_mid s + 1\<rparr>)"

definition anchor_time :: "timestamp \<Rightarrow> portfolio \<Rightarrow> timestamp" where
  "anchor_time wall pf =
     (let a0 = (if equity_history pf = [] then None else Some (fst (last (equity_history pf))));
          a1 = (case find (\<lambda>p. p_closed_at p \<noteq> None) (rev (closed_positions pf)) of
                  None \<Rightarrow> a0
                | Some p \<Rightarrow> (case (p_closed_at p, a0) of
                      (Some c, Some a) \<Rightarrow> if c \<ge> a then Some c else a0
                    | (Some c, None) \<Rightarrow> Some c | _ \<Rightarrow> a0))
      in case a1 of None \<Rightarrow> wall | Some t \<Rightarrow> t)"

definition final_mark_to_market :: "'st backtest_config \<Rightarrow> 'st backtest \<Rightarrow> 'st backtest" where
  "final_mark_to_market cfg s =
     (let s1 = foldl (\<lambda>s kp. final_close cfg kp s) s (positions (b_portfolio s));
          pf = b_portfolio s1; t = anchor_time (bc_wall_clock cfg) pf
      in s1\<lparr>b_portfolio := pf\<lparr>equity_history := equity_history pf @ [(t, equity_usd pf)],
                              cash_history := cash_history pf @ [(t, cash_usd pf)]\<rparr>\<rparr>)"

definition start_run :: "'st backtest_config \<Rightarrow> trade_intent list \<Rightarrow> 'st backtest \<Rightarrow> 'st backtest" where
  "start_run cfg intents s =
     s\<lparr>b_intents := sort_key i_emitted_at intents, b_drained := 0, b_processed := 0,
       b_schedule := resolution_schedule cfg, b_ptr := 0\<rparr>"

definition count_snapshot :: "'st backtest_config \<Rightarrow> 'st backtest \<Rightarrow> book_snapshot \<Rightarrow> py_error + 'st backtest" where
  "count_snapshot cfg s snap = ebind (on_snapshot cfg snap s) (\<lambda>s1. ok (s1\<lparr>b_processed := b_processed s1 + 1\<rparr>))"

definition run :: "'st backtest_config \<Rightarrow> book_snapshot list \<Rightarrow> trade_intent list \<Rightarrow> 'st backtest \<Rightarrow> py_error + 'st backtest" where
  "run cfg snaps intents s =
     ebind (run_steps (count_snapshot cfg) (start_run cfg intents s) snaps)
       (\<lambda>s1. ok (if bc_final_close cfg then final_mark_to_market cfg s1 else s1))"


section \<open>What every stage does to the order table\<close>

text \<open>A reflexive and transitive relation that each stage respects is respected by the stages in sequence.\<close>

locale stage_relation =
  fixes rel :: "'s \<Rightarrow> 's \<Rightarrow> bool"
  assumes rel_refl: "rel s s"
    and rel_trans: "rel s t \<Longrightarrow> rel t u \<Longrightarrow> rel s u"
begin

lemma rel_fold_ok:
  assumes step: "\<And>x s t. f x s = Inr t \<Longrightarrow> rel s t"
  shows "fold_ok f xs s = Inr t \<Longrightarrow> rel s t"
proof (induction xs arbitrary: s)
  case (Cons x xs)
  then obtain u where u: "f x s = Inr u" "fold_ok f xs u = Inr t" by (auto simp: ebind_def split: sum.splits)
  show ?case by (rule rel_trans[OF step[OF u(1)] Cons.IH[OF u(2)]])
qed (simp add: rel_refl)

end

definition order_progress :: "'st backtest \<Rightarrow> 'st backtest \<Rightarrow> bool" where
  "order_progress s t \<longleftrightarrow> (engine_inv (b_matching s) \<longrightarrow> lifecycle\<^sup>*\<^sup>* (b_matching s) (b_matching t))"

interpretation stages: stage_relation order_progress
proof unfold_locales
  show "order_progress s s" for s :: "'a backtest" by (simp add: order_progress_def)
  fix s t u :: "'a backtest"
  assume st: "order_progress s t" and tu: "order_progress t u"
  show "order_progress s u" unfolding order_progress_def
  proof
    assume inv: "engine_inv (b_matching s)"
    then have l: "lifecycle\<^sup>*\<^sup>* (b_matching s) (b_matching t)" using st by (simp add: order_progress_def)
    from lifecycle_star_inv[OF this inv] tu have "lifecycle\<^sup>*\<^sup>* (b_matching t) (b_matching u)" by (simp add: order_progress_def)
    with l show "lifecycle\<^sup>*\<^sup>* (b_matching s) (b_matching u)" by (rule rtranclp_trans)
  qed
qed

lemma same_matching: "b_matching t = b_matching s \<Longrightarrow> order_progress s t"
  by (simp add: order_progress_def)

lemma ebind_Inr: "ebind x f = Inr t \<longleftrightarrow> (\<exists>a. x = Inr a \<and> f a = Inr t)"
  by (cases x) simp_all

lemma ebind_Inr_pair: "ebind x (\<lambda>(a, b). f a b) = Inr t \<longleftrightarrow> (\<exists>a b. x = Inr (a, b) \<and> f a b = Inr t)"
  by (cases x) auto

lemma hook_progress: "hook_result cfg r s = Inr t \<Longrightarrow> order_progress s t"
  by (auto simp: hook_result_def intro!: same_matching split: option.splits if_splits)

lemma submit_progress:
  assumes "fresh_order o'" "submit_order cfg o' s = Inr t"
  shows "order_progress s t"
  using assms submit_lifecycle[OF assms(1)]
  by (auto simp: submit_order_def order_progress_def split: sum.splits)

lemma fresh_order_updates:
  "fresh_order ((new_order oid token side price sz tif po t)\<lparr>o_trader := x, o_slug := y, o_meta := z\<rparr>)"
  "fresh_order ((new_order oid token side price sz tif po t)\<lparr>o_slug := y, o_meta := z\<rparr>)"
  by (simp_all add: fresh_order_def new_order_def)

lemma make_id_matching: "make_order_id cfg s = (oid, t) \<Longrightarrow> b_matching t = b_matching s"
  by (auto simp: make_order_id_def)

lemma submit_entry_progress: "submit_entry cfg i s = Inr t \<Longrightarrow> order_progress s t"
proof -
  assume a: "submit_entry cfg i s = Inr t"
  obtain oid s1 where id: "(if i_id i = [] then make_order_id cfg s else (i_id i, s)) = (oid, s1)" by fastforce
  have m: "b_matching s1 = b_matching s" using id make_id_matching by (auto split: if_splits)
  show ?thesis
  proof (cases "fst (can_submit (portfolio_cfg cfg) (b_portfolio s) (i_token i) (i_side i) (i_limit_price i) (i_size i) (i_slug i))")
    case True
    show ?thesis by (rule stages.rel_trans[OF same_matching[OF m] submit_progress[OF fresh_order_updates(1)]])
        (use a True in \<open>simp add: submit_entry_def id\<close>)
  qed (use a in \<open>simp add: submit_entry_def stages.rel_refl\<close>)
qed

lemma drain_progress: "drain cfg now is s = Inr t \<Longrightarrow> order_progress s t"
proof (induction "is" arbitrary: s)
  case (Cons i "is")
  show ?case
  proof (cases "i_emitted_at i \<le> now")
    case True
    then obtain u where u: "submit_entry cfg i (s\<lparr>b_drained := b_drained s + 1\<rparr>) = Inr u" "drain cfg now is u = Inr t"
      using Cons.prems by (auto simp: ebind_Inr)
    have "order_progress s (s\<lparr>b_drained := b_drained s + 1\<rparr>)" by (rule same_matching) simp
    then show ?thesis using submit_entry_progress[OF u(1)] Cons.IH[OF u(2)] stages.rel_trans by blast
  qed (use Cons.prems in \<open>simp add: stages.rel_refl\<close>)
qed (simp add: stages.rel_refl)

lemma book_fill_progress: "book_fill_event cfg f s = Inr t \<Longrightarrow> order_progress s t"
proof -
  have n: "notify_fill cfg o' f u = Inr t \<Longrightarrow> order_progress u t" for o' u
    by (auto simp: notify_fill_def intro: stages.rel_refl hook_progress split: option.splits bool.splits)
  assume "book_fill_event cfg f s = Inr t"
  then show ?thesis using n stages.rel_trans[OF same_matching[of "s\<lparr>b_portfolio := pf\<rparr>" s for pf]]
    by (auto simp: book_fill_event_def intro: stages.rel_refl split: option.splits)
qed

lemma single_exit_progress: "submit_single_exit cfg pos side sz price tif po t role cm s = Inr u \<Longrightarrow> order_progress s u"
proof -
  assume a: "submit_single_exit cfg pos side sz price tif po t role cm s = Inr u"
  obtain oid s1 where id: "make_order_id cfg s = (oid, s1)" by fastforce
  show ?thesis using a submit_progress[OF fresh_order_updates(2)] stages.rel_trans[OF same_matching[OF make_id_matching[OF id]]]
    unfolding submit_single_exit_def id Let_def prod.case by blast
qed

lemma resolve_policy_progress: "resolve_policy cfg d tr s = Inr (p, t) \<Longrightarrow> order_progress s t"
  by (auto simp: resolve_policy_def intro!: same_matching split: option.splits prod.splits sum.splits if_splits)

lemma exit_orders_progress:
  assumes "exit_orders cfg pos side tg cp tr t pol s = Inr u"
  shows "order_progress s u"
proof (cases pol)
  case None
  then show ?thesis using assms single_exit_progress by (auto simp: exit_orders_def)
next
  case (Some x)
  let ?ps = "plan_children tg cp side x default_tick_size None (if tr = ''stop_loss'' then TIF_IOC else TIF_GTC) False"
  show ?thesis
  proof (cases "?ps = []")
    case True
    show ?thesis by (rule single_exit_progress) (use assms Some True in \<open>simp only: exit_orders_def Let_def option.case if_P\<close>)
  next
    case False
    let ?f = "\<lambda>p. submit_single_exit cfg pos side (cp_size p) (cp_price p) (cp_tif p) (cp_post_only p) t ''exit_child''
        [(''child_index'', NNum (real (cp_index p))), (''bucket'', NNum (real (cp_bucket p)))]"
    have f: "fold_ok ?f ?ps s = Inr u"
      using assms by (simp only: exit_orders_def Let_def Some option.case if_not_P[OF False])
    show ?thesis by (rule stages.rel_fold_ok[OF _ f]) (erule single_exit_progress)
  qed
qed

lemma exit_for_progress:
  assumes "submit_exit_for cfg pos d fr snap s = Inr t"
  shows "order_progress s t"
proof (cases "p_size pos * fr \<le> 0")
  case True
  then show ?thesis using assms by (simp add: submit_exit_for_def stages.rel_refl)
next
  case False
  then obtain pol s1 where r: "resolve_policy cfg d (case xd_reason d of None \<Rightarrow> ''exit'' | Some r \<Rightarrow> if r = [] then ''exit'' else r) s = Inr (pol, s1)"
      "\<exists>side tg cp tr t'. exit_orders cfg pos side tg cp tr t' pol s1 = Inr t"
    using assms unfolding submit_exit_for_def Let_def if_not_P[OF False] ebind_Inr_pair by blast
  show ?thesis using stages.rel_trans[OF resolve_policy_progress[OF r(1)]] r(2) exit_orders_progress by blast
qed

lemma evaluate_exit_progress:
  assumes "evaluate_exit cfg snap pos s = Inr t"
  shows "order_progress s t"
proof -
  from assms obtain d s1 where c: "call_should_exit cfg pos snap s = Inr (d, s1)"
    and r: "(case d of None \<Rightarrow> ok s1 | Some x \<Rightarrow>
        if xd_action x = ''hold'' then ok s1
        else if xd_action x = ''reduce'' then
          let fraction = (case xd_reduce_fraction x of None \<Rightarrow> 0 | Some r \<Rightarrow> r)
          in if fraction \<le> 0 then ok s1 else submit_exit_for cfg pos x (min 1 fraction) snap s1
        else if xd_action x = ''close'' then submit_exit_for cfg pos x 1 snap s1 else ok s1) = Inr t"
    unfolding evaluate_exit_def ebind_Inr_pair by blast
  have "order_progress s s1" using c
    by (auto simp: call_should_exit_def intro!: same_matching split: option.splits prod.splits sum.splits if_splits)
  moreover have "order_progress s1 t"
  proof (cases d)
    case None
    then show ?thesis using r by (simp add: stages.rel_refl)
  next
    case (Some x)
    have "s1 = t \<or> (\<exists>fr. submit_exit_for cfg pos x fr snap s1 = Inr t)"
      using r unfolding Some option.case Let_def by (simp split: if_splits) blast+
    then show ?thesis using exit_for_progress stages.rel_refl by blast
  qed
  ultimately show ?thesis by (rule stages.rel_trans)
qed

lemma notify_cancel_progress:
  assumes "notify_cancel cfg o' s = Inr t"
  shows "order_progress s t"
proof -
  have n: "order_progress s (s\<lparr>b_notified := x\<rparr>)" for x by (rule same_matching) simp
  have "t = s \<or> order_progress (s\<lparr>b_notified := b_notified s @ [o_id o']\<rparr>) t"
    using assms unfolding notify_cancel_def by (auto dest: hook_progress split: option.splits if_splits)
  then show ?thesis using stages.rel_trans[OF n] stages.rel_refl by blast
qed

end
