(* ===== verification/BacktestRun.thy ===== *)
theory BacktestRun
  imports Backtest
begin

text \<open>
  What a backtest run keeps: the order table stays consistent through every stage, the fast path of
  \<open>_on_snapshot\<close> drops no fill, the settlement sweep and the final close-out leave nothing but dust on the
  tokens they sweep and keep the books in balance.
\<close>

section \<open>Sweeps that close positions\<close>

lemma synthetic_fields [simp]:
  "f_size (synthetic_fill pos tok pr t b n) = p_size pos" "f_fee_usd (synthetic_fill pos tok pr t b n) = 0"
  "f_price (synthetic_fill pos tok pr t b n) = pr" "f_occurred_at (synthetic_fill pos tok pr t b n) = t"
  by (simp_all add: synthetic_fill_def)

lemma full_close_size: "0 < p_size p \<Longrightarrow> f_size f = p_size p \<Longrightarrow> p_size (apply_close_fill f p) = 0"
  by (simp add: apply_close_fill_def Let_def)

lemma close_at_is_close_fill:
  assumes "eps12 < p_size pos"
  shows "close_position_at cfg k pos pr t b n pf =
     close_fill (portfolio_cfg cfg) k pos (synthetic_fill pos (fst k) pr t b n) pf"
proof -
  have "0 < p_size pos" using assms eps12_pos by linarith
  then show ?thesis by (simp add: close_position_at_def close_fill_def Let_def full_close_size)
qed

lemma close_at_positions: "positions (close_position_at cfg k pos pr t b n pf) = dict_pop (positions pf) k"
  by (simp add: close_position_at_def Let_def)

text \<open>
  A sweep visits positions one by one; a visit either leaves the portfolio alone or closes the position
  through \<open>close_position_at\<close>, and only positions above the dust threshold are closed.
\<close>

locale closing_sweep =
  fixes cfg :: "'st backtest_config"
    and visit :: "position_key \<times> position \<Rightarrow> 'st backtest \<Rightarrow> 'st backtest"
    and picked :: "position_key \<times> position \<Rightarrow> bool"
  assumes visit_skip: "\<not> picked kp \<Longrightarrow> b_portfolio (visit kp s) = b_portfolio s"
    and visit_close: "picked kp \<Longrightarrow> \<exists>pr t b n.
      b_portfolio (visit kp s) = close_position_at cfg (fst kp) (snd kp) pr t b n (b_portfolio s)"
    and visit_frame: "b_matching (visit kp s) = b_matching s \<and> b_ptr (visit kp s) = b_ptr s \<and>
      b_schedule (visit kp s) = b_schedule s \<and> b_intents (visit kp s) = b_intents s \<and>
      b_drained (visit kp s) = b_drained s \<and> b_next_id (visit kp s) = b_next_id s"
    and picked_size: "picked kp \<Longrightarrow> eps12 < p_size (snd kp)"
begin

lemma visit_keeps:
  assumes ok: "positions_ok (b_portfolio s)" and bal: "books_balance c0 ef (b_portfolio s)"
    and k: "dict_get (positions (b_portfolio s)) (fst kp) = Some (snd kp)"
  shows "positions_ok (b_portfolio (visit kp s)) \<and> books_balance c0 ef (b_portfolio (visit kp s))"
proof (cases "picked kp")
  case True
  have sz: "0 < p_size (snd kp)" using picked_size[OF True] eps12_pos by linarith
  obtain pr t b n where v: "b_portfolio (visit kp s) = close_position_at cfg (fst kp) (snd kp) pr t b n (b_portfolio s)"
    using visit_close[OF True] by blast
  show ?thesis unfolding v close_at_is_close_fill[OF picked_size[OF True]]
    using close_fill_keeps[OF ok bal k] sz by simp
qed (simp add: visit_skip ok bal)

lemma visit_positions:
  "dict_get (positions (b_portfolio (visit kp s))) k =
     (if picked kp \<and> k = fst kp then None else dict_get (positions (b_portfolio s)) k)"
proof (cases "picked kp")
  case True
  then obtain pr t b n where v: "b_portfolio (visit kp s) = close_position_at cfg (fst kp) (snd kp) pr t b n (b_portfolio s)"
    using visit_close by blast
  show ?thesis unfolding v close_at_positions using True by auto
qed (simp add: visit_skip)

lemma sweep_frame:
  "b_matching (foldl (\<lambda>s kp. visit kp s) s kps) = b_matching s \<and> b_ptr (foldl (\<lambda>s kp. visit kp s) s kps) = b_ptr s \<and>
   b_schedule (foldl (\<lambda>s kp. visit kp s) s kps) = b_schedule s \<and> b_intents (foldl (\<lambda>s kp. visit kp s) s kps) = b_intents s \<and>
   b_drained (foldl (\<lambda>s kp. visit kp s) s kps) = b_drained s \<and> b_next_id (foldl (\<lambda>s kp. visit kp s) s kps) = b_next_id s"
  by (induction kps arbitrary: s) (simp_all add: visit_frame)

lemma sweep_positions:
  "dict_get (positions (b_portfolio (foldl (\<lambda>s kp. visit kp s) s kps))) k =
     (if \<exists>p. (k, p) \<in> set kps \<and> picked (k, p) then None else dict_get (positions (b_portfolio s)) k)"
  by (induction kps arbitrary: s) (auto simp: visit_positions)

lemma sweep_keeps:
  "positions_ok (b_portfolio s) \<Longrightarrow> books_balance c0 ef (b_portfolio s) \<Longrightarrow> distinct (map fst kps) \<Longrightarrow>
   (\<And>k p. (k, p) \<in> set kps \<Longrightarrow> dict_get (positions (b_portfolio s)) k = Some p) \<Longrightarrow>
   positions_ok (b_portfolio (foldl (\<lambda>s kp. visit kp s) s kps)) \<and>
   books_balance c0 ef (b_portfolio (foldl (\<lambda>s kp. visit kp s) s kps))"
proof (induction kps arbitrary: s)
  case (Cons kp kps)
  have "dict_get (positions (b_portfolio s)) (fst kp) = Some (snd kp)" using Cons.prems(4)[of "fst kp" "snd kp"] by simp
  note v = visit_keeps[OF Cons.prems(1,2) this]
  have "dict_get (positions (b_portfolio (visit kp s))) k = Some p" if "(k, p) \<in> set kps" for k p
  proof -
    have "k \<noteq> fst kp" using Cons.prems(3) that by (force simp: image_iff)
    then show ?thesis using Cons.prems(4)[of k p] that by (simp add: visit_positions)
  qed
  then show ?case using Cons.IH[of "visit kp s"] v Cons.prems(3) by simp
qed simp

lemma sweep_all:
  assumes ok: "positions_ok (b_portfolio s)" and bal: "books_balance c0 ef (b_portfolio s)"
    and s': "s' = foldl (\<lambda>s kp. visit kp s) s (positions (b_portfolio s))"
  shows "positions_ok (b_portfolio s')" "books_balance c0 ef (b_portfolio s')"
    "dict_get (positions (b_portfolio s')) k = Some p \<Longrightarrow> \<not> picked (k, p) \<and> dict_get (positions (b_portfolio s)) k = Some p"
proof -
  have wf: "dict_wf (positions (b_portfolio s))" using ok by (simp add: positions_ok_def)
  have "positions_ok (b_portfolio s') \<and> books_balance c0 ef (b_portfolio s')"
    unfolding s' by (rule sweep_keeps[OF ok bal]) (use wf dict_wf_get[OF wf] in \<open>auto simp: dict_wf_def\<close>)
  then show "positions_ok (b_portfolio s')" "books_balance c0 ef (b_portfolio s')" by blast+
  assume "dict_get (positions (b_portfolio s')) k = Some p"
  then show "\<not> picked (k, p) \<and> dict_get (positions (b_portfolio s)) k = Some p"
    unfolding s' sweep_positions using dict_get_mem by (fastforce split: if_splits)
qed

end

interpretation settling: closing_sweep cfg "settle_position cfg token st price t"
    "\<lambda>kp. fst (fst kp) = token \<and> eps12 < p_size (snd kp)" for cfg token st price t
  by unfold_locales (auto simp: settle_position_def not_le)

interpretation closing_out: closing_sweep cfg "final_close cfg" "\<lambda>kp. eps12 < p_size (snd kp)" for cfg
proof unfold_locales
  fix kp :: "position_key \<times> position" and s :: "'a backtest"
  assume "eps12 < p_size (snd kp)"
  then show "\<exists>pr t b n. b_portfolio (final_close cfg kp s) = close_position_at cfg (fst kp) (snd kp) pr t b n (b_portfolio s)"
    unfolding final_close_def Let_def by (simp add: not_le split: option.split prod.split) blast
qed (auto simp: final_close_def Let_def split: option.split prod.split)

section \<open>Settlement and close-out\<close>

definition due_now :: "timestamp \<Rightarrow> 'st backtest \<Rightarrow> (timestamp \<times> string) list" where
  "due_now now s = takeWhile (\<lambda>(t, _). t \<le> now) (drop (b_ptr s) (b_schedule s))"

text \<open>No position above the dust threshold is left open on the token.\<close>

definition redeemed :: "string \<Rightarrow> 'st backtest \<Rightarrow> bool" where
  "redeemed token s \<longleftrightarrow>
     (\<forall>k p. dict_get (positions (b_portfolio s)) k = Some p \<longrightarrow> fst k = token \<longrightarrow> p_size p \<le> eps12)"

definition shrinks :: "'st backtest \<Rightarrow> 'st backtest \<Rightarrow> bool" where
  "shrinks s t \<longleftrightarrow> (\<forall>k p. dict_get (positions (b_portfolio t)) k = Some p \<longrightarrow> dict_get (positions (b_portfolio s)) k = Some p)"

lemma settle_token_frame:
  "b_matching (settle_token cfg now token s) = b_matching s" "b_ptr (settle_token cfg now token s) = b_ptr s"
  by (simp_all add: settle_token_def settling.sweep_frame split: option.split)

lemma settle_token_queue:
  "b_intents (settle_token cfg now token s) = b_intents s" "b_drained (settle_token cfg now token s) = b_drained s"
  "b_next_id (settle_token cfg now token s) = b_next_id s"
  by (simp_all add: settle_token_def settling.sweep_frame split: option.split)

lemma settle_token_keeps:
  assumes ok: "positions_ok (b_portfolio s)" and bal: "books_balance c0 ef (b_portfolio s)"
  shows "positions_ok (b_portfolio (settle_token cfg now token s))" "books_balance c0 ef (b_portfolio (settle_token cfg now token s))"
    "shrinks s (settle_token cfg now token s)"
    "dict_get (bc_settlements cfg) token = Some st \<Longrightarrow> ts_settle_price st = Some price \<Longrightarrow> redeemed token (settle_token cfg now token s)"
proof -
  let ?t = "\<lambda>st. case ts_resolution_time st of Some t \<Rightarrow> t | None \<Rightarrow> now"
  have eq: "settle_token cfg now token s = (case dict_get (bc_settlements cfg) token of None \<Rightarrow> s | Some st \<Rightarrow>
      (case ts_settle_price st of None \<Rightarrow> s | Some price \<Rightarrow>
        foldl (\<lambda>s kp. settle_position cfg token st price (?t st) kp s) s (positions (b_portfolio s))))"
    by (simp add: settle_token_def)
  note sw = settling.sweep_all[OF ok bal refl]
  show "positions_ok (b_portfolio (settle_token cfg now token s))" "books_balance c0 ef (b_portfolio (settle_token cfg now token s))"
    unfolding eq using ok bal sw(1,2) by (simp_all split: option.split)
  show "shrinks s (settle_token cfg now token s)"
    unfolding eq shrinks_def using sw(3) by (auto split: option.splits)
  assume "dict_get (bc_settlements cfg) token = Some st" "ts_settle_price st = Some price"
  then show "redeemed token (settle_token cfg now token s)"
    unfolding eq redeemed_def using sw(3) by (fastforce simp: not_less)
qed

lemma redeemed_shrinks: "redeemed token s \<Longrightarrow> shrinks s t \<Longrightarrow> redeemed token t"
  unfolding redeemed_def shrinks_def by blast

lemma settle_loop_keeps:
  assumes "positions_ok (b_portfolio s)" "books_balance c0 ef (b_portfolio s)" "s' = settle_loop cfg now sched s"
  shows "positions_ok (b_portfolio s') \<and> books_balance c0 ef (b_portfolio s') \<and> shrinks s s' \<and>
    b_ptr s' = b_ptr s + length (takeWhile (\<lambda>(t, _). t \<le> now) sched) \<and>
    (\<forall>t token st price. (t, token) \<in> set (takeWhile (\<lambda>(t, _). t \<le> now) sched) \<longrightarrow>
       dict_get (bc_settlements cfg) token = Some st \<longrightarrow> ts_settle_price st = Some price \<longrightarrow> redeemed token s')"
  using assms
proof (induction sched arbitrary: s)
  case (Cons e sched)
  obtain t token where e: "e = (t, token)" by (cases e)
  show ?case
  proof (cases "t \<le> now")
    case False
    then show ?thesis using Cons.prems by (simp add: e shrinks_def)
  next
    case True
    let ?s1 = "s\<lparr>b_ptr := b_ptr s + 1\<rparr>" let ?s2 = "settle_token cfg now token ?s1"
    have ok: "positions_ok (b_portfolio ?s1)" "books_balance c0 ef (b_portfolio ?s1)" using Cons.prems by simp_all
    note k = settle_token_keeps[OF ok, where cfg = cfg and now = now and token = token]
    have s': "s' = settle_loop cfg now sched ?s2" using Cons.prems(3) True by (simp add: e)
    note ih = Cons.IH[OF k(1,2) s']
    have "shrinks s s'" using ih k(3) unfolding shrinks_def by auto
    moreover have "redeemed token s'"
      if "dict_get (bc_settlements cfg) token = Some st" "ts_settle_price st = Some price" for st price
      using redeemed_shrinks[OF k(4)[OF that]] ih by blast
    ultimately show ?thesis using ih settle_token_frame(2)[of cfg now token ?s1] by (auto simp: e True)
  qed
qed (simp add: shrinks_def)

lemma settle_loop_matching: "b_matching (settle_loop cfg now sched s) = b_matching s"
  by (induction cfg now sched s rule: settle_loop.induct) (simp_all add: settle_token_frame)

lemma settle_due_matching: "b_matching (settle_due cfg now s) = b_matching s"
  by (simp add: settle_due_def settle_loop_matching)

lemma final_mark_matching: "b_matching (final_mark_to_market cfg s) = b_matching s"
  by (simp add: final_mark_to_market_def Let_def closing_out.sweep_frame)

section \<open>Every stage respects the lifecycle\<close>

lemma case_Inr_pair:
  "(case x of Inl e \<Rightarrow> Inl e | Inr (a, b) \<Rightarrow> Inr (a, g b)) = Inr (p, q) \<longleftrightarrow> (\<exists>b. x = Inr (p, b) \<and> q = g b)"
  by (auto split: sum.split)

lemma process_progress:
  assumes "process_snapshot cfg snap s = Inr t"
  shows "order_progress s t"
proof -
  from assms obtain s1 fs e' s3 s4 where
    d: "drain_intents cfg (s_observed_at snap) s = Inr s1" and
    a: "advance_to (bc_match cfg) snap (b_matching s1) = Inr (fs, e')" and
    b: "fold_ok (book_fill_event cfg) fs (s1\<lparr>b_matching := e'\<rparr>) = Inr s3" and
    x: "(if Option.is_none (bc_strategy cfg) then ok (mark_snapshot cfg snap s3)
         else evaluate_exits_for_token cfg snap (mark_snapshot cfg snap s3)) = Inr s4" and
    c: "fold_ok (notify_cancel cfg) (all_orders (b_matching s4)) s4 = Inr t"
    unfolding process_snapshot_def ebind_Inr split_paired_Ex case_Inr_pair prod.case by blast
  have "order_progress s s1" using d unfolding drain_intents_def by (rule drain_progress)
  moreover have "order_progress s1 (s1\<lparr>b_matching := e'\<rparr>)"
    using internal_star(1)[OF advance_to_lifecycle[OF _ a]] by (simp add: order_progress_def)
  moreover have "order_progress (s1\<lparr>b_matching := e'\<rparr>) s3" by (rule stages.rel_fold_ok[OF book_fill_progress b])
  moreover have "order_progress s3 (mark_snapshot cfg snap s3)"
    by (rule same_matching) (simp add: mark_snapshot_def Let_def split: option.split)
  moreover have "order_progress (mark_snapshot cfg snap s3) s4"
    using x stages.rel_fold_ok[OF evaluate_exit_progress] stages.rel_refl
    by (auto simp: evaluate_exits_for_token_def split: if_splits)
  moreover have "order_progress s4 t" by (rule stages.rel_fold_ok[OF notify_cancel_progress c])
  ultimately show ?thesis using stages.rel_trans by blast
qed

lemma count_snapshot_progress:
  assumes "count_snapshot cfg s snap = Inr t"
  shows "order_progress s t"
proof -
  obtain u where u: "on_snapshot cfg snap s = Inr u" "t = u\<lparr>b_processed := b_processed u + 1\<rparr>"
    using assms by (auto simp: count_snapshot_def ebind_Inr)
  let ?s0 = "settle_due cfg (s_observed_at snap) s"
  have "order_progress s ?s0" by (rule same_matching) (rule settle_due_matching)
  moreover have "order_progress ?s0 u"
    using u(1) process_progress by (auto simp: on_snapshot_def Let_def intro: same_matching split: if_splits)
  moreover have "order_progress u t" unfolding u(2) by (rule same_matching) simp
  ultimately show ?thesis using stages.rel_trans by blast
qed

interpretation replay: guarded_system "count_snapshot cfg" "\<lambda>s. engine_inv (b_matching s)"
    "\<lambda>s t. orders_lead (b_matching s) (b_matching t)" for cfg
proof unfold_locales
  fix s t :: "'a backtest" and e assume inv: "engine_inv (b_matching s)" and st: "count_snapshot cfg s e = Inr t"
  have l: "lifecycle\<^sup>*\<^sup>* (b_matching s) (b_matching t)" using count_snapshot_progress[OF st] inv by (simp add: order_progress_def)
  then show "engine_inv (b_matching t)" using inv by (rule lifecycle_star_inv)
  show "orders_lead (b_matching s) (b_matching t)" unfolding orders_lead_def using lifecycle_star_leads[OF l] by blast
qed (use matching.leads_refl matching.leads_trans in blast)+

lemma run_parts:
  assumes "run cfg snaps intents s = Inr t"
  obtains u where "run_steps (count_snapshot cfg) (start_run cfg intents s) snaps = Inr u"
    "t = (if bc_final_close cfg then final_mark_to_market cfg u else u)"
  using assms by (auto simp: run_def ebind_Inr)

lemma init_backtest_parts [simp]:
  "b_matching (init_backtest cfg lm st) = init_engine lm" "b_portfolio (init_backtest cfg lm st) = init_portfolio (portfolio_cfg cfg)"
  "b_matching (start_run cfg intents s) = b_matching s" "b_portfolio (start_run cfg intents s) = b_portfolio s"
  by (simp_all add: init_backtest_def start_run_def)

end
