(* ===== verification/BacktestTotal.thy ===== *)
theory BacktestTotal
  imports BacktestRun "HOL-Library.Multiset"
begin

text \<open>
  When a backtest cannot raise: with strategy errors swallowed, order ids that do not collide and snapshots in
  time order, every run returns, whatever the strategy's hooks answer and however often they fail.
\<close>

section \<open>Stages that return\<close>

definition succeeds :: "('a \<Rightarrow> bool) \<Rightarrow> py_error + 'a \<Rightarrow> bool" where
  "succeeds P r \<longleftrightarrow> (\<exists>t. r = Inr t \<and> P t)"

lemma succeeds_ok [simp]: "succeeds P (Inr t) = P t"
  by (simp add: succeeds_def)

lemma succeeds_ebind: "succeeds P r \<Longrightarrow> (\<And>t. P t \<Longrightarrow> succeeds Q (f t)) \<Longrightarrow> succeeds Q (ebind r f)"
  by (auto simp: succeeds_def)

lemma succeeds_fold: "P s \<Longrightarrow> (\<And>x s. P s \<Longrightarrow> succeeds P (f x s)) \<Longrightarrow> succeeds P (fold_ok f xs s)"
  by (induction xs arbitrary: s) (auto intro: succeeds_ebind)

text \<open>
  The ids the run has used so far: generated ones below the counter, and those of the drained intents.
  The clock and the intent queue are pinned, so that one predicate serves every stage.
\<close>

definition used_ids :: "'st backtest_config \<Rightarrow> nat \<Rightarrow> trade_intent list \<Rightarrow> string set" where
  "used_ids cfg n is = bc_order_id cfg ` {..<n} \<union> (i_id ` set is - {[]})"

definition settled_to :: "'st backtest_config \<Rightarrow> timestamp option \<Rightarrow> trade_intent list \<Rightarrow> nat \<Rightarrow> 'st backtest \<Rightarrow> bool" where
  "settled_to cfg now ints d s \<longleftrightarrow>
     engine_inv (b_matching s) \<and> e_now (b_matching s) = now \<and> b_intents s = ints \<and> b_drained s = d \<and>
     fst ` set (e_orders (b_matching s)) \<subseteq> used_ids cfg (b_next_id s) (take d ints)"

definition ids_apart :: "'st backtest_config \<Rightarrow> trade_intent list \<Rightarrow> bool" where
  "ids_apart cfg ints \<longleftrightarrow> inj (bc_order_id cfg) \<and> distinct (filter (\<lambda>i. i \<noteq> []) (map i_id ints)) \<and>
     (\<forall>i\<in>set ints. i_id i \<noteq> [] \<longrightarrow> i_id i \<notin> range (bc_order_id cfg))"

lemma settled_to_frame:
  "settled_to cfg now ints d s \<Longrightarrow> b_matching t = b_matching s \<Longrightarrow> b_intents t = b_intents s \<Longrightarrow>
   b_drained t = b_drained s \<Longrightarrow> b_next_id t = b_next_id s \<Longrightarrow> settled_to cfg now ints d t"
  by (simp add: settled_to_def)

lemma submit_order_succeeds:
  assumes inv: "engine_inv (b_matching s)" and fresh: "fresh_order o'"
    and new: "o_id o' \<notin> fst ` set (e_orders (b_matching s))"
  shows "succeeds (\<lambda>t. engine_inv (b_matching t) \<and> e_now (b_matching t) = e_now (b_matching s) \<and>
      fst ` set (e_orders (b_matching t)) = insert (o_id o') (fst ` set (e_orders (b_matching s))) \<and>
      t = s\<lparr>b_matching := b_matching t\<rparr>) (submit_order cfg o' s)"
proof -
  obtain n e' where n: "submit (bc_match cfg) o' (b_matching s) = Inr (n, e')"
    using new submit_raises[of "bc_match cfg" o' "b_matching s"]
    by (metis old.sum.exhaust surj_pair)
  have "engine_inv e'" by (rule lifecycle_star_inv[OF submit_lifecycle[OF fresh n] inv])
  then show ?thesis using submit_frame[OF n] by (simp add: submit_order_def n)
qed

lemma submit_fresh_succeeds:
  assumes st: "settled_to cfg now ints d s" and fresh: "fresh_order o'"
    and new: "o_id o' \<notin> fst ` set (e_orders (b_matching s))" and oid: "o_id o' \<in> used_ids cfg (b_next_id s) (take d ints)"
  shows "succeeds (settled_to cfg now ints d) (submit_order cfg o' s)"
proof -
  have inv: "engine_inv (b_matching s)" using st by (simp add: settled_to_def)
  obtain t where t: "submit_order cfg o' s = Inr t" "engine_inv (b_matching t)" "e_now (b_matching t) = e_now (b_matching s)"
    "fst ` set (e_orders (b_matching t)) = insert (o_id o') (fst ` set (e_orders (b_matching s)))" "t = s\<lparr>b_matching := b_matching t\<rparr>"
    using submit_order_succeeds[OF inv fresh new, of cfg] unfolding succeeds_def by blast
  have f: "b_intents t = b_intents s" "b_drained t = b_drained s" "b_next_id t = b_next_id s" by (subst t(5), simp)+
  show ?thesis using t(2-4) st oid unfolding t(1) succeeds_ok settled_to_def f by simp
qed

lemma generated_succeeds:
  assumes st: "settled_to cfg now ints d s" and apart: "ids_apart cfg ints"
    and fresh: "fresh_order o'" and oid: "o_id o' = bc_order_id cfg (b_next_id s)"
  shows "succeeds (settled_to cfg now ints d) (submit_order cfg o' (s\<lparr>b_next_id := b_next_id s + 1\<rparr>))"
proof -
  let ?s = "s\<lparr>b_next_id := b_next_id s + 1\<rparr>"
  have inj: "inj (bc_order_id cfg)" using apart by (simp add: ids_apart_def)
  have "i_id i \<noteq> bc_order_id cfg n" if "i \<in> set (take d ints)" "i_id i \<noteq> []" for i n
    using that apart in_set_takeD by (fastforce simp: ids_apart_def)
  then have "bc_order_id cfg (b_next_id s) \<notin> i_id ` set (take d ints) - {[]}" by (metis DiffE imageE singletonI)
  then have "bc_order_id cfg (b_next_id s) \<notin> used_ids cfg (b_next_id s) (take d ints)"
    using inj unfolding used_ids_def by (metis UnE imageE inj_eq lessThan_iff order_less_irrefl)
  then have new: "o_id o' \<notin> fst ` set (e_orders (b_matching ?s))"
    using st oid by (auto simp: settled_to_def)
  have "used_ids cfg (b_next_id s) (take d ints) \<subseteq> used_ids cfg (b_next_id s + 1) (take d ints)"
    by (auto simp: used_ids_def)
  then have "settled_to cfg now ints d ?s" using st unfolding settled_to_def by auto
  from submit_fresh_succeeds[OF this fresh new] show ?thesis by (simp add: oid used_ids_def)
qed

lemma single_exit_succeeds:
  assumes st: "settled_to cfg now ints d s" and apart: "ids_apart cfg ints"
  shows "succeeds (settled_to cfg now ints d) (submit_single_exit cfg pos side sz price tif po t role cm s)"
  using generated_succeeds[OF st apart fresh_order_updates(2)]
  by (simp add: submit_single_exit_def make_order_id_def Let_def)

lemma hook_succeeds:
  "settled_to cfg now ints d s \<Longrightarrow> \<not> bc_fail_on_error cfg \<Longrightarrow> succeeds (settled_to cfg now ints d) (hook_result cfg r s)"
  by (auto simp: hook_result_def intro: settled_to_frame split: option.split)

lemma notify_fill_succeeds:
  "settled_to cfg now ints d s \<Longrightarrow> \<not> bc_fail_on_error cfg \<Longrightarrow> succeeds (settled_to cfg now ints d) (notify_fill cfg o' f s)"
  by (simp add: notify_fill_def hook_succeeds split: option.split bool.split)

lemma book_fill_succeeds:
  assumes "settled_to cfg now ints d s" "\<not> bc_fail_on_error cfg"
  shows "succeeds (settled_to cfg now ints d) (book_fill_event cfg f s)"
proof -
  have "settled_to cfg now ints d (s\<lparr>b_portfolio := pf\<rparr>)" for pf by (rule settled_to_frame[OF assms(1)]) simp_all
  then show ?thesis using assms by (simp add: book_fill_event_def notify_fill_succeeds split: option.split)
qed

lemma resolve_policy_succeeds:
  assumes "settled_to cfg now ints d s" "\<not> bc_fail_on_error cfg"
  shows "succeeds (\<lambda>(p, t). settled_to cfg now ints d t) (resolve_policy cfg dc tr s)"
proof -
  have "settled_to cfg now ints d (s\<lparr>b_strategy := x\<rparr>)" for x by (rule settled_to_frame[OF assms(1)]) simp_all
  then show ?thesis using assms by (simp add: resolve_policy_def split: option.split prod.split sum.split)
qed

lemma exit_orders_succeeds:
  assumes st: "settled_to cfg now ints d s" and apart: "ids_apart cfg ints"
  shows "succeeds (settled_to cfg now ints d) (exit_orders cfg pos side tg cp tr t pol s)"
proof (cases pol)
  case (Some x)
  let ?ps = "plan_children tg cp side x default_tick_size None (if tr = ''stop_loss'' then TIF_IOC else TIF_GTC) False"
  have "succeeds (settled_to cfg now ints d) (fold_ok (\<lambda>p. submit_single_exit cfg pos side (cp_size p) (cp_price p) (cp_tif p)
      (cp_post_only p) t ''exit_child'' [(''child_index'', NNum (real (cp_index p))), (''bucket'', NNum (real (cp_bucket p)))]) ?ps s)"
    by (rule succeeds_fold[OF st single_exit_succeeds[OF _ apart]])
  then show ?thesis using single_exit_succeeds[OF st apart] by (simp only: exit_orders_def Let_def Some option.case split: if_split) blast
qed (simp add: exit_orders_def single_exit_succeeds[OF st apart])

lemma exit_for_succeeds:
  assumes st: "settled_to cfg now ints d s" and apart: "ids_apart cfg ints" and q: "\<not> bc_fail_on_error cfg"
  shows "succeeds (settled_to cfg now ints d) (submit_exit_for cfg pos dc fr snap s)"
proof -
  have "succeeds (settled_to cfg now ints d) (ebind (resolve_policy cfg dc tr s) (\<lambda>(policy, s1).
      exit_orders cfg pos side tg cp tr t policy s1))" for tr side tg cp t
    by (rule succeeds_ebind[OF resolve_policy_succeeds[OF st q]]) (auto intro: exit_orders_succeeds[OF _ apart])
  then show ?thesis using st by (simp add: submit_exit_for_def Let_def)
qed

lemma evaluate_exit_succeeds:
  assumes st: "settled_to cfg now ints d s" and apart: "ids_apart cfg ints" and q: "\<not> bc_fail_on_error cfg"
  shows "succeeds (settled_to cfg now ints d) (evaluate_exit cfg snap pos s)"
proof -
  have "settled_to cfg now ints d (s\<lparr>b_strategy := x\<rparr>)" for x by (rule settled_to_frame[OF st]) simp_all
  then have c: "succeeds (\<lambda>(p, t). settled_to cfg now ints d t) (call_should_exit cfg pos snap s)"
    using st q by (simp add: call_should_exit_def split: option.split prod.split sum.split)
  show ?thesis unfolding evaluate_exit_def
    by (rule succeeds_ebind[OF c]) (auto simp: Let_def intro: exit_for_succeeds[OF _ apart q] split: option.split)
qed

lemma notify_cancel_succeeds:
  assumes "settled_to cfg now ints d s" "\<not> bc_fail_on_error cfg"
  shows "succeeds (settled_to cfg now ints d) (notify_cancel cfg o' s)"
proof -
  have "settled_to cfg now ints d (s\<lparr>b_notified := x\<rparr>)" for x by (rule settled_to_frame[OF assms(1)]) simp_all
  then show ?thesis using assms by (simp add: notify_cancel_def hook_succeeds split: option.split)
qed

section \<open>Draining intents\<close>

lemma submit_entry_succeeds:
  assumes st: "settled_to cfg now ints d s" and apart: "ids_apart cfg ints" and d: "d < length ints"
  shows "succeeds (settled_to cfg now ints (d + 1)) (submit_entry cfg (ints ! d) (s\<lparr>b_drained := b_drained s + 1\<rparr>))"
proof -
  let ?s = "s\<lparr>b_drained := b_drained s + 1\<rparr>" and ?i = "ints ! d"
  have tk: "take (d + 1) ints = take d ints @ [?i]" using d by (simp add: take_Suc_conv_app_nth)
  have st': "settled_to cfg now ints (d + 1) ?s"
  proof -
    have "used_ids cfg n (take d ints) \<subseteq> used_ids cfg n (take (d + 1) ints)" for n unfolding tk used_ids_def by auto
    then show ?thesis using st unfolding settled_to_def by auto
  qed
  show ?thesis
  proof (cases "i_id ?i = []")
    case True
    show ?thesis using generated_succeeds[OF st' apart fresh_order_updates(1)] st' True
      by (simp add: submit_entry_def make_order_id_def Let_def)
  next
    case False
    let ?ids = "filter (\<lambda>i. i \<noteq> []) (map i_id ints)"
    have "distinct (filter (\<lambda>i. i \<noteq> []) (map i_id (take (d + 1) ints)))"
    proof -
      have "?ids = filter (\<lambda>i. i \<noteq> []) (map i_id (take (d + 1) ints)) @ filter (\<lambda>i. i \<noteq> []) (map i_id (drop (d + 1) ints))"
        by (metis append_take_drop_id filter_append map_append)
      then show ?thesis using apart by (simp add: ids_apart_def)
    qed
    then have "i_id ?i \<notin> i_id ` set (take d ints)" using False unfolding tk by auto
    moreover have "i_id ?i \<notin> range (bc_order_id cfg)" using apart d False by (simp add: ids_apart_def)
    ultimately have new: "i_id ?i \<notin> fst ` set (e_orders (b_matching ?s))"
      using st by (auto simp: settled_to_def used_ids_def)
    have "succeeds (settled_to cfg now ints (d + 1)) (submit_order cfg o' ?s)"
      if "fresh_order o'" "o_id o' = i_id ?i" for o'
      using submit_fresh_succeeds[OF st' that(1)] that(2) new False unfolding tk used_ids_def by simp
    then show ?thesis using False st' fresh_order_updates(1)
      by (simp add: submit_entry_def Let_def)
  qed
qed

lemma drain_succeeds:
  assumes apart: "ids_apart cfg ints"
  shows "settled_to cfg now ints d s \<Longrightarrow> succeeds (\<lambda>t. \<exists>d'. settled_to cfg now ints d' t) (drain cfg clk (drop d ints) s)"
proof (induction "drop d ints" arbitrary: d s)
  case Nil
  then show ?case by (metis drain.simps(1) succeeds_ok)
next
  case (Cons i "is")
  have d: "d < length ints" and i: "i = ints ! d" and ds: "is = drop (d + 1) ints"
    using Cons.hyps(2) by (metis drop_all list.distinct(1) not_le, metis nth_via_drop, metis drop_Suc list.sel(3) tl_drop Suc_eq_plus1)
  have "succeeds (\<lambda>t. \<exists>d'. settled_to cfg now ints d' t)
     (ebind (submit_entry cfg i (s\<lparr>b_drained := b_drained s + 1\<rparr>)) (drain cfg clk is))"
    unfolding i by (rule succeeds_ebind[OF submit_entry_succeeds[OF Cons.prems apart d]]) (use Cons.hyps(1)[OF ds] ds in blast)
  then show ?case unfolding Cons.hyps(2)[symmetric] using Cons.prems by auto
qed

section \<open>One snapshot, and all of them\<close>

definition in_step :: "'st backtest_config \<Rightarrow> trade_intent list \<Rightarrow> timestamp option \<Rightarrow> 'st backtest \<Rightarrow> bool" where
  "in_step cfg ints now s \<longleftrightarrow> (\<exists>d. settled_to cfg now ints d s)"

lemma advance_succeeds:
  assumes st: "settled_to cfg now ints d s" and mono: "\<And>n. now = Some n \<Longrightarrow> n \<le> s_observed_at snap"
  obtains fs e' where "advance_to (bc_match cfg) snap (b_matching s) = Inr (fs, e')"
    "settled_to cfg (Some (s_observed_at snap)) ints d (s\<lparr>b_matching := e'\<rparr>)"
proof -
  have e: "engine_inv (b_matching s)" "e_now (b_matching s) = now" using st by (simp_all add: settled_to_def)
  have "\<nexists>x. advance_to (bc_match cfg) snap (b_matching s) = Inl x"
    using mono e(2) unfolding advance_to_raises by force
  then obtain fs e' where a: "advance_to (bc_match cfg) snap (b_matching s) = Inr (fs, e')"
    by (metis old.sum.exhaust surj_pair)
  note i = advance_to_lifecycle[OF e(1) a]
  have "engine_inv e'" using internal_star_inv[OF i e(1)] .
  moreover have "fst ` set (e_orders e') = fst ` set (e_orders (b_matching s))"
    using internal_star(2)[OF i] by (metis list.set_map)
  ultimately have "settled_to cfg (Some (s_observed_at snap)) ints d (s\<lparr>b_matching := e'\<rparr>)"
    using st advance_to_now[OF a] by (simp add: settled_to_def)
  with a show ?thesis by (rule that)
qed

lemma mark_snapshot_settled: "settled_to cfg now ints d s \<Longrightarrow> settled_to cfg now ints d (mark_snapshot cfg snap s)"
  by (erule settled_to_frame) (simp_all add: mark_snapshot_def Let_def split: option.split)

lemma process_succeeds:
  assumes st: "settled_to cfg now ints d s" and apart: "ids_apart cfg ints" and q: "\<not> bc_fail_on_error cfg"
    and mono: "\<And>n. now = Some n \<Longrightarrow> n \<le> s_observed_at snap"
  shows "succeeds (in_step cfg ints (Some (s_observed_at snap))) (process_snapshot cfg snap s)"
proof -
  have dr: "succeeds (\<lambda>t. \<exists>d'. settled_to cfg now ints d' t) (drain_intents cfg (s_observed_at snap) s)"
    using drain_succeeds[OF apart st] st by (simp add: drain_intents_def settled_to_def)
  have rest: "succeeds (in_step cfg ints (Some (s_observed_at snap)))
     (ebind (fold_ok (book_fill_event cfg) fs s2) (\<lambda>s3.
      ebind (if Option.is_none (bc_strategy cfg) then ok (mark_snapshot cfg snap s3)
            else evaluate_exits_for_token cfg snap (mark_snapshot cfg snap s3)) (\<lambda>s4.
      fold_ok (notify_cancel cfg) (all_orders (b_matching s4)) s4)))"
    if s2: "settled_to cfg (Some (s_observed_at snap)) ints d' s2" for fs s2 d'
  proof (intro succeeds_ebind)
    let ?P = "settled_to cfg (Some (s_observed_at snap)) ints d'"
    show "succeeds ?P (fold_ok (book_fill_event cfg) fs s2)" by (rule succeeds_fold[OF s2 book_fill_succeeds[OF _ q]])
    fix s3 assume s3: "?P s3"
    show "succeeds ?P (if Option.is_none (bc_strategy cfg) then ok (mark_snapshot cfg snap s3)
            else evaluate_exits_for_token cfg snap (mark_snapshot cfg snap s3))"
      using mark_snapshot_settled[OF s3] unfolding evaluate_exits_for_token_def
      by (auto intro: succeeds_fold evaluate_exit_succeeds[OF _ apart q])
    fix s4 assume s4: "?P s4"
    have "succeeds ?P (fold_ok (notify_cancel cfg) (all_orders (b_matching s4)) s4)"
      by (rule succeeds_fold[OF s4 notify_cancel_succeeds[OF _ q]])
    then show "succeeds (in_step cfg ints (Some (s_observed_at snap))) (fold_ok (notify_cancel cfg) (all_orders (b_matching s4)) s4)"
      by (auto simp: succeeds_def in_step_def)
  qed
  show ?thesis unfolding process_snapshot_def
  proof (rule succeeds_ebind[OF dr])
    fix s1 assume "\<exists>d'. settled_to cfg now ints d' s1"
    then obtain d' where d': "settled_to cfg now ints d' s1" ..
    obtain fs e' where a: "advance_to (bc_match cfg) snap (b_matching s1) = Inr (fs, e')"
      "settled_to cfg (Some (s_observed_at snap)) ints d' (s1\<lparr>b_matching := e'\<rparr>)"
      using advance_succeeds[OF d' mono] by blast
    show "succeeds (in_step cfg ints (Some (s_observed_at snap)))
       (ebind (case advance_to (bc_match cfg) snap (b_matching s1) of Inl e \<Rightarrow> Inl e | Inr (fs, e') \<Rightarrow> ok (fs, s1\<lparr>b_matching := e'\<rparr>))
         (\<lambda>(fs, s2). ebind (fold_ok (book_fill_event cfg) fs s2) (\<lambda>s3.
      ebind (if Option.is_none (bc_strategy cfg) then ok (mark_snapshot cfg snap s3)
            else evaluate_exits_for_token cfg snap (mark_snapshot cfg snap s3)) (\<lambda>s4.
      fold_ok (notify_cancel cfg) (all_orders (b_matching s4)) s4))))"
      using rest[OF a(2)] by (simp add: a(1))
  qed
qed

lemma settle_loop_settled: "settled_to cfg now ints d s \<Longrightarrow> settled_to cfg now ints d (settle_loop cfg' clk sched s)"
proof (induction cfg' clk sched s rule: settle_loop.induct)
  case (2 cfg' clk t token sched s)
  have "settled_to cfg now ints d (settle_token cfg' clk token (s\<lparr>b_ptr := b_ptr s + 1\<rparr>))"
    by (rule settled_to_frame[OF "2.prems"]) (simp_all add: settle_token_frame settle_token_queue)
  then show ?case using 2 by simp
qed simp

lemma count_snapshot_succeeds:
  assumes st: "in_step cfg ints now s" and apart: "ids_apart cfg ints" and q: "\<not> bc_fail_on_error cfg"
    and mono: "\<And>n. now = Some n \<Longrightarrow> n \<le> s_observed_at snap"
  shows "succeeds (\<lambda>t. in_step cfg ints now t \<or> in_step cfg ints (Some (s_observed_at snap)) t) (count_snapshot cfg s snap)"
proof -
  obtain d where d: "settled_to cfg now ints d s" using st by (auto simp: in_step_def)
  let ?s0 = "settle_due cfg (s_observed_at snap) s"
  have s0: "settled_to cfg now ints d ?s0" unfolding settle_due_def by (rule settle_loop_settled[OF d])
  have "settled_to cfg now ints d (?s0\<lparr>b_latest := x\<rparr>)" for x by (rule settled_to_frame[OF s0]) simp_all
  then have "succeeds (\<lambda>t. in_step cfg ints now t \<or> in_step cfg ints (Some (s_observed_at snap)) t) (on_snapshot cfg snap s)"
    using process_succeeds[OF s0 apart q mono] by (auto simp: on_snapshot_def Let_def in_step_def succeeds_def)
  moreover have "in_step cfg ints n (t\<lparr>b_processed := k\<rparr>) = in_step cfg ints n t" for n t k
    by (simp add: in_step_def settled_to_def)
  ultimately show ?thesis unfolding count_snapshot_def by (auto simp: succeeds_def)
qed

lemma replay_succeeds:
  assumes apart: "ids_apart cfg ints" and q: "\<not> bc_fail_on_error cfg"
  shows "in_step cfg ints now s \<Longrightarrow> sorted (map s_observed_at snaps) \<Longrightarrow> not_before now (map s_observed_at snaps) \<Longrightarrow>
    \<exists>t. run_steps (count_snapshot cfg) s snaps = Inr t"
proof (induction snaps arbitrary: now s)
  case (Cons snap snaps)
  have "\<And>n. now = Some n \<Longrightarrow> n \<le> s_observed_at snap" using Cons.prems(3) by (simp add: not_before_def)
  then obtain t now' where t: "count_snapshot cfg s snap = Inr t" "in_step cfg ints now' t" "now' = now \<or> now' = Some (s_observed_at snap)"
    using count_snapshot_succeeds[OF Cons.prems(1) apart q] unfolding succeeds_def by blast
  have "not_before now' (map s_observed_at snaps)" using t(3) Cons.prems(2,3) by (auto simp: not_before_def)
  then show ?case using Cons.IH[OF t(2)] Cons.prems(2) t(1) by simp
qed simp

lemma ids_apart_sort: "ids_apart cfg ints \<Longrightarrow> ids_apart cfg (sort_key f ints)"
proof -
  have "mset (filter (\<lambda>i. i \<noteq> []) (map i_id (sort_key f ints))) = mset (filter (\<lambda>i. i \<noteq> []) (map i_id ints))"
    by (simp only: mset_filter mset_map mset_sort)
  from mset_eq_imp_distinct_iff[OF this] show "ids_apart cfg ints \<Longrightarrow> ids_apart cfg (sort_key f ints)"
    unfolding ids_apart_def by simp
qed

lemma run_returns:
  assumes apart: "ids_apart cfg ints" and q: "\<not> bc_fail_on_error cfg" and sorted: "sorted (map s_observed_at snaps)"
  shows "\<exists>t. run cfg snaps ints (init_backtest cfg lm st) = Inr t"
proof -
  let ?s = "start_run cfg ints (init_backtest cfg lm st)" and ?is = "sort_key i_emitted_at ints"
  have "settled_to cfg None ?is 0 ?s"
    by (simp add: settled_to_def engine_inv_init) (simp add: start_run_def init_engine_def)
  then have "in_step cfg ?is None ?s" by (auto simp: in_step_def)
  from replay_succeeds[OF ids_apart_sort[OF apart] q this sorted]
  show ?thesis by (auto simp: not_before_def run_def)
qed

section \<open>Properties of a run\<close>

text \<open>
  A strategy whose every hook raises, and a configuration with settlements and two intents, one without an id.
\<close>

definition failing_strategy :: "unit strategy" where
  "failing_strategy =
     \<lparr>on_fill = Some (\<lambda>_ _ s. (Some (RuntimeError ''fill''), s)), on_partial_fill = None,
      on_cancel = Some (\<lambda>_ _ _ s. (Some (RuntimeError ''cancel''), s)),
      should_exit = Some (\<lambda>_ _ s. (Inl (RuntimeError ''exit''), s)), resolve_exit_policy = None\<rparr>"

definition sample_settlement :: token_settlement where
  "sample_settlement = \<lparr>ts_token = ''t'', ts_settle_price = Some 1, ts_resolution_time = Some 4000000,
     ts_winning_outcome = Some ''Yes'', ts_condition_id = None, ts_source = ''unknown''\<rparr>"

definition sample_backtest_config :: "unit backtest_config" where
  "sample_backtest_config =
     \<lparr>bc_portfolio = default_portfolio_config, bc_match = sample_config, bc_final_close = True, bc_fail_on_error = False,
      bc_settlements = [(''t'', sample_settlement)], bc_strategy = Some failing_strategy,
      bc_order_id = (\<lambda>n. replicate (Suc n) CHR ''o''), bc_wall_clock = 9000000, bc_seed = Some 42\<rparr>"

definition sample_intent :: "string \<Rightarrow> trade_intent" where
  "sample_intent i = \<lparr>i_id = i, i_emitted_at = 0, i_token = ''t'', i_side = ''BUY'', i_size = 25, i_limit_price = 53 / 100,
     i_tif = TIF_GTC, i_post_only = False, i_slug = None, i_trader = None, i_meta = []\<rparr>"

definition sample_snaps :: "book_snapshot list" where
  "sample_snaps = [sample_book ''t'' 5, sample_book ''t'' 3000000, sample_book ''u'' 5000000]"

lemma sample_apart: "ids_apart sample_backtest_config [sample_intent ''a'', sample_intent []]"
  by (auto simp: ids_apart_def sample_backtest_config_def sample_intent_def inj_def)

lemma sample_inputs: "\<not> bc_fail_on_error sample_backtest_config" "sorted (map s_observed_at sample_snaps)"
  by (simp_all add: sample_backtest_config_def sample_snaps_def sample_book_def)

lemma sample_returns:
  "\<exists>t. run sample_backtest_config sample_snaps [sample_intent ''a'', sample_intent []]
     (init_backtest sample_backtest_config sample_latency ()) = Inr t"
  by (rule run_returns[OF sample_apart sample_inputs])



text \<open>
  A backtest run keeps the order table, fill ledgers, active counters and working lists in agreement,
  whatever the strategy's hooks do and however the intents, exits and settlements interleave.
\<close>

theorem backtest_run_invariant:
  assumes "run cfg snaps intents (init_backtest cfg lm st) = Inr t"
  shows "orders_inv (b_matching t) \<and> active_inv (b_matching t) \<and> working_inv (b_matching t)"
proof -
  obtain u where u: "run_steps (count_snapshot cfg) (start_run cfg intents (init_backtest cfg lm st)) snaps = Inr u"
    "t = (if bc_final_close cfg then final_mark_to_market cfg u else u)"
    using run_parts[OF assms] .
  have "engine_inv (b_matching u)" by (rule replay.run_inv[OF _ u(1)]) (simp add: engine_inv_init)
  then show ?thesis using engine_inv_parts by (simp add: u(2) final_mark_matching)
qed

theorem backtest_run_invariant_witness:
  "\<exists>t. run sample_backtest_config sample_snaps [sample_intent ''a'', sample_intent []]
       (init_backtest sample_backtest_config sample_latency ()) = Inr t \<and>
     orders_inv (b_matching t) \<and> active_inv (b_matching t) \<and> working_inv (b_matching t)"
  using sample_returns by (elim exE) (intro exI conjI, assumption, simp_all add: backtest_run_invariant)




definition held :: position where
  "held = (new_position ''t'' ''BUY'' None)\<lparr>p_entry := 1 / 2, p_size := 100, p_basis := 50\<rparr>"

definition holding_backtest :: "unit backtest" where
  "holding_backtest = (start_run sample_backtest_config [] (init_backtest sample_backtest_config sample_latency ()))
     \<lparr>b_portfolio := (init_portfolio default_portfolio_config)\<lparr>positions := [((''t'', ''BUY'', None), held)],
        cash_usd := initial_capital_usd default_portfolio_config - 50\<rparr>\<rparr>"

lemma holding_ok:
  "positions_ok (b_portfolio holding_backtest)"
  "books_balance (initial_capital_usd default_portfolio_config) 0 (b_portfolio holding_backtest)"
  by (auto simp: positions_ok_def holding_backtest_def dict_wf_def dict_get_def held_def new_position_def position_ok_def
      books_balance_def init_portfolio_def realized_pnl_usd_def dict_sum_def closed_basis_def signed_basis_def split: if_splits)

lemma holding_due: "due_now 4000000 holding_backtest = [(4000000, ''t'')]"
  by (simp add: due_now_def holding_backtest_def start_run_def resolution_schedule_def sample_backtest_config_def
      sample_settlement_def List.map_filter_def)


text \<open>
  The final close-out leaves at most dust: after it every position still open is at or below 1e-12, the
  books balance, and the equity curve ends at the portfolio's equity.
\<close>

theorem final_close_leaves_dust:
  assumes "positions_ok (b_portfolio s)" "books_balance c0 ef (b_portfolio s)"
  shows "(\<forall>k p. dict_get (positions (b_portfolio (final_mark_to_market cfg s))) k = Some p \<longrightarrow> p_size p \<le> eps12) \<and>
    positions_ok (b_portfolio (final_mark_to_market cfg s)) \<and> books_balance c0 ef (b_portfolio (final_mark_to_market cfg s)) \<and>
    snd (last (equity_history (b_portfolio (final_mark_to_market cfg s)))) = equity_usd (b_portfolio (final_mark_to_market cfg s))"
proof -
  note sw = closing_out.sweep_all[OF assms refl, of cfg]
  define u where "u = foldl (\<lambda>s kp. final_close cfg kp s) s (positions (b_portfolio s))"
  note sw = sw[folded u_def]
  have f: "positions (b_portfolio (final_mark_to_market cfg s)) = positions (b_portfolio u)"
    "cash_usd (b_portfolio (final_mark_to_market cfg s)) = cash_usd (b_portfolio u)"
    "closed_positions (b_portfolio (final_mark_to_market cfg s)) = closed_positions (b_portfolio u)"
    "snd (last (equity_history (b_portfolio (final_mark_to_market cfg s)))) = equity_usd (b_portfolio u)"
    by (simp_all add: final_mark_to_market_def Let_def u_def)
  have "p_size p \<le> eps12" if "dict_get (positions (b_portfolio u)) k = Some p" for k p
    using sw(3)[OF that] by simp
  then show ?thesis using sw(1,2) unfolding f positions_ok_def books_balance_def realized_dict_sum closed_basis_def equity_sum by simp
qed

theorem final_close_leaves_dust_witness:
  "snd (last (equity_history (b_portfolio (final_mark_to_market sample_backtest_config holding_backtest)))) =
   equity_usd (b_portfolio (final_mark_to_market sample_backtest_config holding_backtest))"
  using final_close_leaves_dust[OF holding_ok] by blast

end
