(* ===== verification/Metrics.thy ===== *)
theory Metrics
  imports Portfolio
begin

text \<open>
  The performance metrics of \<open>services/backtest/metrics.py\<close>: statistics of a return series, the equity curve on a
  uniform time grid, drawdown, trade statistics and bootstrap confidence intervals.

  The pseudo-random generator behind the bootstrap is an argument: a state with the two draws the code uses. A
  statistic that raises or is not finite on a resample is \<open>None\<close>, as the code drops it. The deflated Sharpe ratio,
  which needs the normal distribution function, is left out.
\<close>

section \<open>Statistics\<close>

definition ann_trading_days :: int where "ann_trading_days = 252"
definition ann_calendar_seconds :: pyfloat where "ann_calendar_seconds = 365 * 24 * 3600"
definition no_denom_sentinel :: pyfloat where "no_denom_sentinel = 1000000"

definition mean_of :: "pyfloat list \<Rightarrow> pyfloat" where
  "mean_of xs = (if xs = [] then 0 else sum_list xs / real (length xs))"

definition std_of :: "pyfloat list \<Rightarrow> pyfloat" where
  "std_of xs =
     (if length xs < 2 then 0
      else let m = mean_of xs in sqrt (sum_list (map (\<lambda>x. (x - m) ^ 2) xs) / (real (length xs) - 1)))"

definition downside_std :: "pyfloat list \<Rightarrow> pyfloat \<Rightarrow> pyfloat" where
  "downside_std xs target =
     (let losses = filter (\<lambda>x. x < target) xs in
      if length losses < 2 then 0
      else sqrt (sum_list (map (\<lambda>x. (x - target) ^ 2) losses) / (real (length losses) - 1)))"

definition sharpe_of_returns :: "pyfloat list \<Rightarrow> int \<Rightarrow> pyfloat" where
  "sharpe_of_returns rets ppy =
     (if length rets < 2 then 0
      else let mu = mean_of rets; sigma = std_of rets
           in if sigma \<le> 0 then 0 else mu / sigma * sqrt (of_int ppy))"

definition sortino_of_returns :: "pyfloat list \<Rightarrow> int \<Rightarrow> pyfloat" where
  "sortino_of_returns rets ppy =
     (if length rets < 2 then 0
      else let mu = mean_of rets; dsd = downside_std rets 0
           in if dsd \<le> 0 then 0 else mu / dsd * sqrt (of_int ppy))"

definition skewness :: "pyfloat list \<Rightarrow> pyfloat" where
  "skewness xs =
     (if length xs < 3 then 0
      else let m = mean_of xs; s = std_of xs; n = real (length xs)
           in if s \<le> 0 then 0 else n / ((n - 1) * (n - 2)) * sum_list (map (\<lambda>x. ((x - m) / s) ^ 3) xs))"

definition kurtosis :: "pyfloat list \<Rightarrow> pyfloat" where
  "kurtosis xs =
     (if length xs < 4 then 0
      else let m = mean_of xs; s = std_of xs
           in if s \<le> 0 then 0 else sum_list (map (\<lambda>x. ((x - m) / s) ^ 4) xs) / real (length xs) - 3)"

record trade_outcome =
  to_pnl :: pyfloat
  to_return_pct :: pyfloat
  to_holding :: pyfloat
  to_won :: bool

definition hit_rate_of :: "trade_outcome list \<Rightarrow> pyfloat" where
  "hit_rate_of trades = (if trades = [] then 0 else real (length (filter to_won trades)) / real (length trades))"

text \<open>Gains over losses, with the sentinel when there are no losses.\<close>

definition gain_ratio :: "pyfloat \<Rightarrow> pyfloat \<Rightarrow> pyfloat" where
  "gain_ratio gains pains = (if pains \<le> 0 then (if gains > 0 then no_denom_sentinel else 0) else gains / pains)"

definition gains_of :: "pyfloat list \<Rightarrow> pyfloat" where "gains_of xs = sum_list (filter (\<lambda>x. x > 0) xs)"
definition pains_of :: "pyfloat list \<Rightarrow> pyfloat" where "pains_of xs = - sum_list (filter (\<lambda>x. x < 0) xs)"

definition profit_factor_of :: "trade_outcome list \<Rightarrow> pyfloat" where
  "profit_factor_of trades = gain_ratio (gains_of (map to_pnl trades)) (pains_of (map to_pnl trades))"

definition expectancy_of :: "trade_outcome list \<Rightarrow> pyfloat" where
  "expectancy_of trades = mean_of (map to_pnl trades)"

definition gain_to_pain :: "pyfloat list \<Rightarrow> pyfloat" where
  "gain_to_pain rets = gain_ratio (gains_of rets) (pains_of rets)"

definition percentile :: "pyfloat list \<Rightarrow> pyfloat \<Rightarrow> pyfloat" where
  "percentile xs p =
     (if xs = [] then 0
      else let s = sort xs in
        if length s = 1 then s ! 0
        else let pos = max 0 (min 1 p) * (real (length s) - 1); lo = nat \<lfloor>pos\<rfloor>; hi = nat \<lceil>pos\<rceil>; frac = pos - real lo
             in s ! lo * (1 - frac) + s ! hi * frac)"

definition expected_shortfall :: "pyfloat list \<Rightarrow> pyfloat \<Rightarrow> pyfloat" where
  "expected_shortfall rets alpha =
     (let n = length rets in
      if n = 0 then 0
      else let cutoff = max 1 (nat \<lfloor>real n * max (1 / 10 ^ 6) alpha\<rfloor>)
           in if int n < \<lceil>1 / alpha\<rceil> then 0 else mean_of (take cutoff (sort rets)))"

definition tail_ratio :: "pyfloat list \<Rightarrow> pyfloat \<Rightarrow> pyfloat" where
  "tail_ratio rets alpha =
     (if int (length rets) < \<lceil>2 / alpha\<rceil> then 0
      else let upside = \<bar>percentile rets (1 - alpha)\<bar>; downside = \<bar>percentile rets alpha\<bar>
           in if downside \<le> 0 then (if upside > 0 then no_denom_sentinel else 0) else upside / downside)"

section \<open>The equity curve\<close>

type_synonym curve = "(timestamp \<times> pyfloat) list"

fun equity_returns :: "curve \<Rightarrow> pyfloat list" where
  "equity_returns ((t, p) # (u, c) # xs) = (if p \<le> 0 then [] else [(c - p) / p]) @ equity_returns ((u, c) # xs)"
| "equity_returns _ = []"

fun mark_gaps :: "curve \<Rightarrow> pyfloat list" where
  "mark_gaps ((t, p) # (u, c) # xs) = total_seconds (u - t) # mark_gaps ((u, c) # xs)"
| "mark_gaps _ = []"

definition infer_bar_seconds :: "curve \<Rightarrow> pyfloat option" where
  "infer_bar_seconds hist =
     (if length hist < 3 then None
      else let deltas = sort (filter (\<lambda>d. d > 0) (mark_gaps hist))
           in if deltas = [] then None else Some (min (max (deltas ! (length deltas div 2)) 1) 86400))"

definition periods_for :: "pyfloat option \<Rightarrow> int" where
  "periods_for bar = (case bar of None \<Rightarrow> ann_trading_days
     | Some b \<Rightarrow> if b = 0 then ann_trading_days else max 1 (round_half_even (ann_calendar_seconds / b)))"

definition infer_periods_per_year :: "curve \<Rightarrow> int" where
  "infer_periods_per_year hist = periods_for (infer_bar_seconds hist)"

text \<open>The last mark at or before a grid time, moving forward from \<open>j\<close>.\<close>

function advance_mark :: "pyfloat list \<Rightarrow> pyfloat \<Rightarrow> nat \<Rightarrow> nat" where
  "advance_mark ts g j = (if j + 1 < length ts \<and> ts ! (j + 1) \<le> g then advance_mark ts g (j + 1) else j)"
  by pat_completeness auto
termination by (relation "measure (\<lambda>(ts, g, j). length ts - j)") auto

declare advance_mark.simps [simp del]

fun resample_loop ::
    "pyfloat list \<Rightarrow> pyfloat list \<Rightarrow> pyfloat \<Rightarrow> pyfloat \<Rightarrow> nat list \<Rightarrow> nat \<Rightarrow> pyfloat \<Rightarrow> pyfloat list" where
  "resample_loop ts vals bar width [] j prev = []"
| "resample_loop ts vals bar width (k # ks) j prev =
     (let g = min (real k * bar) width; j' = advance_mark ts g j; curr = vals ! j'
      in (if prev > 0 then [(curr - prev) / prev] else []) @ resample_loop ts vals bar width ks j' curr)"

definition resample_equity_returns :: "curve \<Rightarrow> pyfloat \<Rightarrow> nat \<Rightarrow> pyfloat list" where
  "resample_equity_returns hist bar max_bars =
     (if length hist < 2 \<or> bar \<le> 0 then []
      else let t0 = fst (hd hist); width = total_seconds (fst (last hist) - t0) in
        if width \<le> 0 then []
        else let n0 = max 1 \<lceil>width / bar\<rceil>;
                 (bar', n) = (if n0 > int max_bars then (width / real max_bars, max_bars) else (bar, nat n0));
                 ts = map (\<lambda>(t, _). total_seconds (t - t0)) hist; vals = map snd hist
             in resample_loop ts vals bar' width [1..<n + 1] 0 (hd vals))"

definition default_max_bars :: nat where "default_max_bars = 200000"

definition derive_returns_and_ppy :: "curve \<Rightarrow> int option \<Rightarrow> pyfloat list \<times> int" where
  "derive_returns_and_ppy hist ppy =
     (let bar = infer_bar_seconds hist;
          p = (case ppy of Some k \<Rightarrow> k | None \<Rightarrow> periods_for bar)
      in (case bar of None \<Rightarrow> equity_returns hist | Some b \<Rightarrow> resample_equity_returns hist b default_max_bars, p))"

record moments =
  mo_periods :: int
  mo_n_obs :: nat
  mo_skew :: pyfloat
  mo_kurtosis :: pyfloat
  mo_sharpe :: pyfloat

definition annualization_moments :: "curve \<Rightarrow> moments" where
  "annualization_moments hist =
     (let (rets, ppy) = derive_returns_and_ppy hist None
      in \<lparr>mo_periods = ppy, mo_n_obs = length rets, mo_skew = skewness rets, mo_kurtosis = kurtosis rets,
          mo_sharpe = sharpe_of_returns rets ppy\<rparr>)"

text \<open>Drawdown with the peak and its time; no peak yet is \<open>None\<close>, the code's minus infinity.\<close>

fun max_drawdown_loop ::
    "(pyfloat \<times> timestamp) option \<Rightarrow> pyfloat \<times> pyfloat \<times> pyfloat \<Rightarrow> curve \<Rightarrow> pyfloat \<times> pyfloat \<times> pyfloat" where
  "max_drawdown_loop pk worst [] = worst"
| "max_drawdown_loop pk (w, wp, wd) ((t, eq) # xs) =
     (case pk of
        None \<Rightarrow> max_drawdown_loop (Some (eq, t)) (w, wp, wd) xs
      | Some (p, pt) \<Rightarrow>
          if eq > p then max_drawdown_loop (Some (eq, t)) (w, wp, wd) xs
          else let dd = p - eq; dd_pct = (if p > 0 then dd / p else 0); dur = total_seconds (t - pt);
                   (w1, wp1) = (if dd > w then (dd, dd_pct) else (w, wp))
               in max_drawdown_loop pk (w1, wp1, if dur > wd then dur else wd) xs)"

definition max_drawdown :: "curve \<Rightarrow> pyfloat \<times> pyfloat \<times> pyfloat" where
  "max_drawdown hist = max_drawdown_loop None (0, 0, 0) hist"

section \<open>Bootstrap intervals\<close>

record 'g rng =
  rng_seeded :: "int option \<Rightarrow> 'g"
  rng_range :: "nat \<Rightarrow> 'g \<Rightarrow> nat \<times> 'g"
  rng_random :: "'g \<Rightarrow> pyfloat \<times> 'g"

type_synonym statistic = "pyfloat list \<Rightarrow> pyfloat option"
type_synonym interval = "(pyfloat \<times> pyfloat) option"

definition ci_from_stats :: "pyfloat list \<Rightarrow> pyfloat \<Rightarrow> interval" where
  "ci_from_stats stats confidence =
     (if stats = [] then None
      else let s = sort stats; alpha = (1 - confidence) / 2; n = length s;
               lo = max 0 \<lfloor>alpha * real n\<rfloor>;
               hi = min (int n - 1) (\<lceil>(1 - alpha) * real n\<rceil> - 1)
           in Some (s ! nat lo, s ! nat hi))"

primrec iid_resample :: "'g rng \<Rightarrow> pyfloat list \<Rightarrow> nat \<Rightarrow> 'g \<Rightarrow> pyfloat list \<times> 'g" where
  "iid_resample r xs 0 g = ([], g)"
| "iid_resample r xs (Suc k) g =
     (let (i, g1) = rng_range r (length xs) g; (ys, g2) = iid_resample r xs k g1 in (xs ! i # ys, g2))"

primrec block_steps :: "'g rng \<Rightarrow> pyfloat list \<Rightarrow> pyfloat \<Rightarrow> nat \<Rightarrow> nat \<Rightarrow> 'g \<Rightarrow> pyfloat list \<times> 'g" where
  "block_steps r xs p 0 idx g = ([], g)"
| "block_steps r xs p (Suc k) idx g =
     (let (u, g1) = rng_random r g;
          (idx', g2) = (if u < p then rng_range r (length xs) g1 else ((idx + 1) mod length xs, g1));
          (ys, g3) = block_steps r xs p k idx' g2
      in (xs ! idx # ys, g3))"

definition block_resample :: "'g rng \<Rightarrow> pyfloat list \<Rightarrow> pyfloat \<Rightarrow> 'g \<Rightarrow> pyfloat list \<times> 'g" where
  "block_resample r xs p g = (let (idx, g1) = rng_range r (length xs) g in block_steps r xs p (length xs) idx g1)"

primrec replicates :: "('g \<Rightarrow> pyfloat list \<times> 'g) \<Rightarrow> statistic \<Rightarrow> nat \<Rightarrow> 'g \<Rightarrow> pyfloat list" where
  "replicates draw stat 0 g = []"
| "replicates draw stat (Suc k) g =
     (let (ys, g1) = draw g in (case stat ys of None \<Rightarrow> [] | Some v \<Rightarrow> [v]) @ replicates draw stat k g1)"

definition thin_sample :: "nat \<Rightarrow> pyfloat list \<Rightarrow> pyfloat list" where
  "thin_sample max_size xs =
     (if max_size > 0 \<and> length xs > max_size
      then let step = (real (length xs) - 1) / (real max_size - 1)
           in map (\<lambda>i. xs ! nat (round_half_even (real i * step))) [0..<max_size]
      else xs)"

definition resample_count :: "nat \<Rightarrow> nat \<Rightarrow> nat \<Rightarrow> nat" where
  "resample_count n_resamples max_draws n = (if max_draws > 0 then max 100 (min n_resamples (max_draws div max 1 n)) else n_resamples)"

definition bootstrap_ci :: "'g rng \<Rightarrow> int option \<Rightarrow> pyfloat list \<Rightarrow> statistic \<Rightarrow> nat \<Rightarrow> pyfloat \<Rightarrow> nat \<Rightarrow> nat \<Rightarrow> interval" where
  "bootstrap_ci r seed samples stat n_resamples confidence max_size max_draws =
     (if length samples < 8 then None
      else let xs = thin_sample max_size samples
           in ci_from_stats (replicates (iid_resample r xs (length xs)) stat (resample_count n_resamples max_draws (length xs))
                (rng_seeded r seed)) confidence)"

definition autocorrelation :: "pyfloat list \<Rightarrow> nat \<Rightarrow> pyfloat" where
  "autocorrelation xs lag =
     (if lag < 1 \<or> lag \<ge> length xs then 0
      else let m = mean_of xs; denom = sum_list (map (\<lambda>x. (x - m) ^ 2) xs)
           in if denom \<le> 0 then 0
              else sum_list (map (\<lambda>i. (xs ! i - m) * (xs ! (i - lag) - m)) [lag..<length xs]) / denom)"

definition mean_block_length :: "pyfloat list \<Rightarrow> pyfloat" where
  "mean_block_length xs =
     (let n = length xs in
      if n < 8 then 1
      else let threshold = 2 / sqrt (real n);
               decor = (case find (\<lambda>lag. \<bar>autocorrelation xs lag\<bar> < threshold) [1..<min (n div 2) 64 + 1] of
                  Some lag \<Rightarrow> int lag | None \<Rightarrow> max 1 (round_half_even (real n powr (1 / 3))))
           in of_int (min (max 1 decor) (max 1 (int n div 2))))"

definition block_bootstrap_ci :: "'g rng \<Rightarrow> int option \<Rightarrow> pyfloat list \<Rightarrow> statistic \<Rightarrow> nat \<Rightarrow> pyfloat \<Rightarrow> nat \<Rightarrow> interval" where
  "block_bootstrap_ci r seed series stat n_resamples confidence max_draws =
     (if length series < 8 then None
      else ci_from_stats (replicates (block_resample r series (1 / mean_block_length series)) stat
             (resample_count n_resamples max_draws (length series)) (rng_seeded r seed)) confidence)"

section \<open>All metrics of a run\<close>

type_synonym metric_ci = "pyfloat \<times> interval"

record backtest_metrics =
  bm_return_usd :: pyfloat
  bm_return_pct :: pyfloat
  bm_annualized_pct :: pyfloat
  bm_sharpe :: metric_ci
  bm_sortino :: metric_ci
  bm_calmar :: metric_ci
  bm_drawdown_usd :: pyfloat
  bm_drawdown_pct :: pyfloat
  bm_drawdown_seconds :: pyfloat
  bm_hit_rate :: metric_ci
  bm_profit_factor :: metric_ci
  bm_avg_win :: pyfloat
  bm_avg_loss :: pyfloat
  bm_expectancy :: metric_ci
  bm_trade_count :: nat
  bm_fees :: pyfloat
  bm_final_equity :: pyfloat
  bm_initial_capital :: pyfloat
  bm_shortfall_5 :: metric_ci
  bm_shortfall_1 :: metric_ci
  bm_tail_ratio :: metric_ci
  bm_gain_to_pain :: metric_ci

text \<open>Annual growth, or the plain return for windows of an hour or less.\<close>

definition annualize :: "pyfloat \<Rightarrow> pyfloat \<Rightarrow> pyfloat \<Rightarrow> pyfloat" where
  "annualize years growth plain = (if years > 1 / (24 * 365) then (max (1 / 100) growth powr (1 / years) - 1) * 100 else plain)"

fun compound :: "pyfloat \<Rightarrow> pyfloat list \<Rightarrow> pyfloat list" where
  "compound e [] = [e]"
| "compound e (r # rs) = e # compound (e * (1 + r)) rs"

definition calmar_resample :: "pyfloat \<Rightarrow> pyfloat \<Rightarrow> pyfloat \<Rightarrow> statistic" where
  "calmar_resample initial years calmar_pt r =
     (let eq = compound initial r; peak = Max (set eq); low = Min (set eq);
          local_dd = (if peak > 0 then (peak - low) / peak else 0)
      in if local_dd \<le> 0 then Some calmar_pt
         else if initial = 0 then None
         else Some (annualize years (last eq / initial) ((last eq / initial - 1) * 100) / 100 / local_dd))"

definition compute_metrics ::
    "'g rng \<Rightarrow> pyfloat \<Rightarrow> pyfloat \<Rightarrow> curve \<Rightarrow> trade_outcome list \<Rightarrow> pyfloat \<Rightarrow> int option \<Rightarrow> nat \<Rightarrow> int option \<Rightarrow> backtest_metrics" where
  "compute_metrics r initial final hist trades fees ppy n_resamples seed =
     (let total_usd = final - initial;
          total_pct = (if initial > 0 then total_usd / initial * 100 else 0);
          duration = (if length hist \<ge> 2 then total_seconds (fst (last hist) - fst (hd hist)) else 0);
          annualized = (if duration > 0 \<and> initial > 0 then annualize (duration / ann_calendar_seconds) (final / initial) total_pct else 0);
          (rets, ppy') = derive_returns_and_ppy hist ppy;
          block = (\<lambda>stat. block_bootstrap_ci r seed rets stat n_resamples (95 / 100) 8000000);
          iid = (\<lambda>stat. bootstrap_ci r seed (map to_pnl trades) stat n_resamples (95 / 100) 2000 250000);
          (dd_usd, dd_pct, dd_dur) = max_drawdown hist;
          calmar = (if dd_pct > 0 then annualized / 100 / dd_pct else 0);
          wins = filter (\<lambda>x. x > 0) (map to_pnl trades); losses = filter (\<lambda>x. x < 0) (map to_pnl trades)
      in \<lparr>bm_return_usd = total_usd, bm_return_pct = total_pct, bm_annualized_pct = annualized,
          bm_sharpe = (sharpe_of_returns rets ppy', block (\<lambda>x. Some (sharpe_of_returns x ppy'))),
          bm_sortino = (sortino_of_returns rets ppy', block (\<lambda>x. Some (sortino_of_returns x ppy'))),
          bm_calmar = (calmar, if rets \<noteq> [] \<and> dd_pct > 0
             then block (calmar_resample initial (if duration > 0 then duration / ann_calendar_seconds else 0) calmar) else None),
          bm_drawdown_usd = dd_usd, bm_drawdown_pct = dd_pct * 100, bm_drawdown_seconds = dd_dur,
          bm_hit_rate = (hit_rate_of trades, iid (\<lambda>x. Some (if x = [] then 0 else real (length (filter (\<lambda>y. y > 0) x)) / real (length x)))),
          bm_profit_factor = (profit_factor_of trades, iid (\<lambda>x. Some (if x = [] then 0 else gain_ratio (gains_of x) (pains_of x)))),
          bm_avg_win = mean_of wins, bm_avg_loss = mean_of losses,
          bm_expectancy = (expectancy_of trades, iid (\<lambda>x. Some (mean_of x))), bm_trade_count = length trades, bm_fees = fees,
          bm_final_equity = final, bm_initial_capital = initial,
          bm_shortfall_5 = (expected_shortfall rets (5 / 100), block (\<lambda>x. Some (expected_shortfall x (5 / 100)))),
          bm_shortfall_1 = (expected_shortfall rets (1 / 100), block (\<lambda>x. Some (expected_shortfall x (1 / 100)))),
          bm_tail_ratio = (tail_ratio rets (5 / 100), block (\<lambda>x. Some (tail_ratio x (5 / 100)))),
          bm_gain_to_pain = (gain_to_pain rets, block (\<lambda>x. Some (gain_to_pain x)))\<rparr>)"

section \<open>Resampling preserves the total return\<close>

lemma advance_mark_bounds: "j < length ts \<Longrightarrow> j \<le> advance_mark ts g j \<and> advance_mark ts g j < length ts"
proof (induction ts g j rule: advance_mark.induct)
  case (1 ts g j)
  then show ?case by (subst (1 2) advance_mark.simps) (auto dest!: Suc_leD)
qed

lemma advance_mark_last:
  "j < length ts \<Longrightarrow> (\<And>i. i < length ts \<Longrightarrow> ts ! i \<le> g) \<Longrightarrow> advance_mark ts g j = length ts - 1"
proof (induction ts g j rule: advance_mark.induct)
  case (1 ts g j)
  then show ?case by (subst advance_mark.simps) auto
qed

definition mark_after :: "pyfloat list \<Rightarrow> pyfloat \<Rightarrow> pyfloat \<Rightarrow> nat list \<Rightarrow> nat \<Rightarrow> nat" where
  "mark_after ts bar width ks j = foldl (\<lambda>j k. advance_mark ts (min (real k * bar) width) j) j ks"

lemma mark_after_bounds: "j < length ts \<Longrightarrow> mark_after ts bar width ks j < length ts"
  unfolding mark_after_def by (induction ks arbitrary: j) (auto simp: advance_mark_bounds)

lemma resample_loop_compound:
  assumes pos: "\<And>i. i < length vals \<Longrightarrow> 0 < vals ! i" and len: "length vals = length ts"
  shows "j < length ts \<Longrightarrow> 0 < prev \<Longrightarrow>
     length (resample_loop ts vals bar width ks j prev) = length ks \<and>
     prev * prod_list (map (\<lambda>r. 1 + r) (resample_loop ts vals bar width ks j prev)) =
       (if ks = [] then prev else vals ! mark_after ts bar width ks j)"
proof (induction ks arbitrary: j prev)
  case (Cons k ks)
  let ?j = "advance_mark ts (min (real k * bar) width) j"
  have j': "?j < length ts" using advance_mark_bounds[OF Cons.prems(1)] by blast
  then have c: "0 < vals ! ?j" using pos len by simp
  have "prev * (1 + (vals ! ?j - prev) / prev) = vals ! ?j" using Cons.prems(2) by (simp add: field_simps)
  moreover have "mark_after ts bar width (k # ks) j = mark_after ts bar width ks ?j" by (simp add: mark_after_def)
  ultimately show ?case using Cons.IH[OF j' c] Cons.prems(2)
    by (auto simp: Let_def mult.assoc[symmetric] mark_after_def)
qed simp

lemma mark_after_final:
  assumes "0 < length ts" "\<And>i. i < length ts \<Longrightarrow> ts ! i \<le> width" "width \<le> real n * bar" "0 < n"
  shows "mark_after ts bar width [1..<n + 1] 0 = length ts - 1"
proof -
  obtain m where n: "n = Suc m" using assms(4) by (cases n) auto
  have "mark_after ts bar width [1..<n + 1] 0 = advance_mark ts (min (real n * bar) width) (mark_after ts bar width [1..<n] 0)"
    by (simp add: mark_after_def n)
  also have "\<dots> = length ts - 1"
    using assms mark_after_bounds[of 0 ts bar width "[1..<n]"] by (intro advance_mark_last) auto
  finally show ?thesis .
qed

lemma resample_grid:
  fixes width bar :: real
  assumes "0 < width" "0 < bar" "0 < max_bars"
    and "(bar', n) = (if max 1 \<lceil>width / bar\<rceil> > int max_bars then (width / real max_bars, max_bars) else (bar, nat (max 1 \<lceil>width / bar\<rceil>)))"
  shows "0 < n \<and> n \<le> max_bars \<and> width \<le> real n * bar'"
proof (cases "max 1 \<lceil>width / bar\<rceil> > int max_bars")
  case True
  then show ?thesis using assms by auto
next
  case False
  have "width / bar \<le> real (nat (max 1 \<lceil>width / bar\<rceil>))" by linarith
  then have "width \<le> real (nat (max 1 \<lceil>width / bar\<rceil>)) * bar" using assms(2) by (simp only: pos_divide_le_eq)
  moreover have "n = nat (max 1 \<lceil>width / bar\<rceil>)" "bar' = bar" using assms(4) False by (simp_all del: max_less_iff_conj)
  moreover have "nat (max 1 \<lceil>width / bar\<rceil>) \<le> max_bars" using False by linarith
  moreover have "0 < nat (max 1 \<lceil>width / bar\<rceil>)" by simp
  ultimately show ?thesis by (simp only:)
qed

lemma marks_within:
  assumes "sorted (map fst hist)" "i < length hist"
  shows "total_seconds (fst (hist ! i) - t0) \<le> total_seconds (fst (last hist) - t0)"
proof -
  have "map fst hist ! i \<le> map fst hist ! (length hist - 1)" using assms by (intro sorted_nth_mono) auto
  moreover have "hist \<noteq> []" using assms(2) by auto
  ultimately show ?thesis using assms(2) by (simp add: total_seconds_def last_conv_nth divide_right_mono)
qed

text \<open>
  Putting an equity curve on a uniform time grid loses no return: for a curve in time order with positive values the
  resampled returns compound exactly to the curve's total return, and the grid never has more than the allowed bars.
\<close>

theorem resampling_preserves_return:
  assumes "sorted (map fst hist)" "fst (hd hist) < fst (last hist)" "hist \<noteq> []" "\<forall>p\<in>set hist. 0 < snd p" "0 < bar" "0 < max_bars"
  shows "prod_list (map (\<lambda>r. 1 + r) (resample_equity_returns hist bar max_bars)) = snd (last hist) / snd (hd hist) \<and>
    0 < length (resample_equity_returns hist bar max_bars) \<and> length (resample_equity_returns hist bar max_bars) \<le> max_bars"
proof -
  note ne = assms(3)
  have len: "2 \<le> length hist" using assms(2,3) by (cases hist; cases "tl hist") auto
  let ?t0 = "fst (hd hist)" let ?w = "total_seconds (fst (last hist) - ?t0)"
  let ?ts = "map (\<lambda>(t, _). total_seconds (t - ?t0)) hist" and ?vs = "map snd hist"
  have w: "0 < ?w" using assms(2) by (simp add: total_seconds_def)
  obtain bar' n where g: "(bar', n) = (if max 1 \<lceil>?w / bar\<rceil> > int max_bars then (?w / real max_bars, max_bars) else (bar, nat (max 1 \<lceil>?w / bar\<rceil>)))"
    by (metis surj_pair)
  note gr = resample_grid[OF w assms(5,6) g]
  have eq: "resample_equity_returns hist bar max_bars = resample_loop ?ts ?vs bar' ?w [1..<n + 1] 0 (hd ?vs)"
  proof -
    have c: "\<not> (length hist < 2 \<or> bar \<le> 0)" "\<not> ?w \<le> 0" using len assms(5) w by simp_all
    show ?thesis unfolding resample_equity_returns_def Let_def if_not_P[OF c(1)] if_not_P[OF c(2)] g[symmetric] prod.case by (rule refl)
  qed
  have pos: "0 < ?vs ! i" if "i < length ?vs" for i using assms(4) that by simp
  have h: "0 < hd ?vs" "hd ?vs = snd (hd hist)" using pos[of 0] ne by (simp_all add: hd_conv_nth hd_map)
  have "mark_after ?ts bar' ?w [1..<n + 1] 0 = length ?ts - 1"
    by (rule mark_after_final) (use ne gr marks_within[OF assms(1)] in \<open>auto simp: case_prod_unfold\<close>)
  then have "?vs ! mark_after ?ts bar' ?w [1..<n + 1] 0 = snd (last hist)" using ne by (simp add: last_conv_nth)
  moreover have "[1..<n + 1] \<noteq> []" "length [1..<n + 1] = n" using gr by auto
  ultimately show ?thesis using resample_loop_compound[OF pos, where ts = ?ts and j = 0 and prev = "hd ?vs" and bar = bar' and width = ?w and ks = "[1..<n + 1]"]
      h gr ne unfolding eq by (auto simp: field_simps simp del: upt_Suc)
qed

theorem resampling_preserves_return_witness:
  "prod_list (map (\<lambda>r. 1 + r) (resample_equity_returns [(0, 100), (1500000, 120), (1600000, 90), (4000000, 110)] 1 10)) = 110 / 100"
  using resampling_preserves_return[of "[(0, 100), (1500000, 120), (1600000, 90), (4000000, 110)]" 1 10] by simp

section \<open>Drawdown\<close>

text \<open>The loop keeps the worst relative fall below one as long as the curve is positive.\<close>

lemma max_drawdown_agrees:
  "0 \<le> w \<Longrightarrow> fst (max_drawdown_loop pk (w, wp, wd) xs) = drawdown_loop (map_option fst pk) w (map snd xs)"
proof (induction pk "(w, wp, wd)" xs arbitrary: w wp wd rule: max_drawdown_loop.induct)
  case (2 pk w wp wd t eq xs)
  show ?case
  proof (cases pk)
    case None
    then show ?thesis using 2 by simp
  next
    case (Some p)
    obtain x pt where p: "p = (x, pt)" by (cases p)
    show ?thesis
    proof (cases "eq > x")
      case True
      then show ?thesis using 2 Some p by simp
    next
      case False
      then show ?thesis using 2(3-) Some p by (auto simp: Let_def max_def)
    qed
  qed
qed simp

lemma drawdown_pct_range:
  assumes "\<forall>p\<in>set xs. 0 < snd p" "\<forall>x t. pk = Some (x, t) \<longrightarrow> 0 < x" "0 \<le> wp" "wp < 1" "0 \<le> w"
  shows "0 \<le> fst (snd (max_drawdown_loop pk (w, wp, wd) xs)) \<and> fst (snd (max_drawdown_loop pk (w, wp, wd) xs)) < 1"
  using assms
proof (induction pk "(w, wp, wd)" xs arbitrary: w wp wd rule: max_drawdown_loop.induct)
  case (2 pk w wp wd t eq xs)
  show ?case
  proof (cases pk)
    case None
    then show ?thesis using 2 by simp
  next
    case (Some p)
    obtain x pt where p: "p = (x, pt)" by (cases p)
    have x: "0 < x" "0 < eq" using 2 Some p by auto
    show ?thesis
    proof (cases "eq > x")
      case True
      then show ?thesis using 2 Some p by simp
    next
      case False
      then have "0 \<le> (x - eq) / x" "(x - eq) / x < 1" using x by simp_all
      then show ?thesis using 2(3-) Some p False x by (auto simp: Let_def)
    qed
  qed
qed simp

text \<open>
  The two drawdown computations of the program agree: the dollar drawdown of the metrics module is the one the
  portfolio reports for its equity history, and for a curve that stays positive the relative drawdown is in [0, 1).
\<close>

theorem drawdown_implementations_agree:
  "fst (max_drawdown (equity_history pf)) = max_drawdown_usd pf \<and>
   ((\<forall>p\<in>set (equity_history pf). 0 < snd p) \<longrightarrow>
      0 \<le> fst (snd (max_drawdown (equity_history pf))) \<and> fst (snd (max_drawdown (equity_history pf))) < 1)"
  using max_drawdown_agrees[of 0 None 0 0 "equity_history pf"] drawdown_pct_range[of "equity_history pf" None 0 0 0]
  by (simp add: max_drawdown_def max_drawdown_usd_def)

theorem drawdown_implementations_agree_witness:
  "fst (snd (max_drawdown (equity_history ((init_portfolio default_portfolio_config)\<lparr>equity_history := [(0, 10), (1, 4), (2, 6)]\<rparr>)))) < 1"
  using drawdown_implementations_agree[of "(init_portfolio default_portfolio_config)\<lparr>equity_history := [(0, 10), (1, 4), (2, 6)]\<rparr>"]
  by simp

section \<open>Confidence intervals\<close>

lemma ci_bounds:
  assumes "0 < confidence" "confidence \<le> 1" "ci_from_stats stats confidence = Some (lo, hi)"
  shows "lo \<le> hi" "lo \<in> set stats" "hi \<in> set stats"
proof -
  let ?s = "sort stats" and ?a = "(1 - confidence) / 2"
  let ?n = "length ?s"
  let ?lo = "max 0 \<lfloor>?a * real ?n\<rfloor>" and ?hi = "min (int ?n - 1) (\<lceil>(1 - ?a) * real ?n\<rceil> - 1)"
  have ne: "stats \<noteq> []" and eq: "lo = ?s ! nat ?lo" "hi = ?s ! nat ?hi"
    using assms(3) by (auto simp: ci_from_stats_def Let_def split: if_splits)
  then have n: "0 < ?n" by simp
  have a: "0 \<le> ?a" "?a < 1 - ?a" using assms(1,2) by (simp_all add: field_simps)
  define u v where "u = ?a * real ?n" and "v = (1 - ?a) * real ?n"
  have uv: "u < v" "0 \<le> u" using mult_strict_right_mono[OF a(2), of "real ?n"] a(1) n by (simp_all add: u_def v_def)
  have "v \<le> real ?n" using mult_right_mono[of "1 - ?a" 1 "real ?n"] a(1) by (simp add: v_def)
  then have "\<lfloor>u\<rfloor> < \<lceil>v\<rceil>" "\<lfloor>u\<rfloor> < int ?n" using uv by linarith+
  moreover have "0 \<le> \<lfloor>u\<rfloor>" using uv(2) by simp
  ultimately have b: "max 0 \<lfloor>u\<rfloor> \<le> min (int ?n - 1) (\<lceil>v\<rceil> - 1)" "min (int ?n - 1) (\<lceil>v\<rceil> - 1) < int ?n" by simp_all
  then have "?lo \<le> ?hi" "?hi < int ?n" unfolding u_def v_def by blast+
  then have i: "nat ?lo \<le> nat ?hi" "nat ?hi < ?n" using n by linarith+
  show "lo \<le> hi" unfolding eq by (rule sorted_nth_mono[OF _ i]) simp
  have m: "?s ! j \<in> set stats" if "j < ?n" for j using nth_mem[OF that] by simp
  show "lo \<in> set stats" "hi \<in> set stats" unfolding eq by (rule m, use i in linarith)+
qed

lemma replicates_values: "v \<in> set (replicates draw stat k g) \<Longrightarrow> \<exists>ys. stat ys = Some v"
  by (induction k arbitrary: g) (auto simp: Let_def split: prod.splits option.splits)

text \<open>
  Bootstrap intervals are intervals of attained values: whatever the generator draws, the lower end of either
  bootstrap is at most its upper end, both are values of the statistic on some resample, and fewer than eight
  observations give no interval.
\<close>

theorem bootstrap_interval_sound:
  assumes "0 < confidence" "confidence \<le> 1"
    and "bootstrap_ci r seed samples stat n confidence sz draws = Some (lo, hi) \<or>
         block_bootstrap_ci r seed samples stat n confidence draws = Some (lo, hi)"
  shows "lo \<le> hi \<and> (\<exists>ys. stat ys = Some lo) \<and> (\<exists>ys. stat ys = Some hi) \<and> 8 \<le> length samples"
proof -
  have "8 \<le> length samples" using assms(3) by (auto simp: bootstrap_ci_def block_bootstrap_ci_def split: if_splits)
  moreover obtain draw k where "ci_from_stats (replicates draw stat k (rng_seeded r seed)) confidence = Some (lo, hi)"
    using assms(3) by (auto simp: bootstrap_ci_def block_bootstrap_ci_def Let_def split: if_splits)
  ultimately show ?thesis using ci_bounds[OF assms(1,2)] replicates_values by metis
qed

definition sample_rng :: "unit rng" where
  "sample_rng = \<lparr>rng_seeded = (\<lambda>_. ()), rng_range = (\<lambda>n g. (0, g)), rng_random = (\<lambda>g. (0, g))\<rparr>"

theorem bootstrap_interval_sound_witness:
  "\<exists>lo hi. bootstrap_ci sample_rng None [1, 2, 3, 4, 5, 6, 7, 8] (\<lambda>x. Some (mean_of x)) 1 (95 / 100) 2000 0 = Some (lo, hi) \<and> lo \<le> hi"
proof -
  obtain lo hi where b: "bootstrap_ci sample_rng None [1, 2, 3, 4, 5, 6, 7, 8] (\<lambda>x. Some (mean_of x)) 1 (95 / 100) 2000 0 = Some (lo, hi)"
    by (simp add: bootstrap_ci_def thin_sample_def resample_count_def ci_from_stats_def Let_def case_prod_unfold)
  show ?thesis using bootstrap_interval_sound[OF _ _ disjI1[OF b]] b by simp
qed

end
