(* ===== verification/BacktestResult.thy ===== *)
theory BacktestResult
  imports BacktestTotal Metrics
begin

text \<open>
  The result of a run, \<open>_build_result\<close> of \<open>services/backtest/engine.py\<close>: trade outcomes, metrics, counts and the
  per-position summary. The note on the fill-probability model, which only copies attributes of that model, is left out.
\<close>

section \<open>Building the result\<close>

definition outcome_of :: "position \<Rightarrow> trade_outcome" where
  "outcome_of p =
     (let entry_notional = max 0 (p_entry p * (p_size p + p_realized p / max (1 / 10000) (p_entry p)));
          denom = (if p_basis p > 0 then p_basis p + p_realized p else max (1 / 10 ^ 9) entry_notional);
          holding = (case (p_opened_at p, p_closed_at p) of
             (Some t0, Some t1) \<Rightarrow> max 0 (total_seconds (t1 - t0)) | _ \<Rightarrow> 0)
      in \<lparr>to_pnl = p_realized p, to_return_pct = (if denom > 0 then p_realized p / denom * 100 else 0), to_holding = holding,
          to_won = (p_realized p > 0)\<rparr>)"

record position_summary =
  ps_token :: string
  ps_side :: string
  ps_slug :: "string option"
  ps_size :: pyfloat
  ps_entry :: pyfloat
  ps_basis :: pyfloat
  ps_realized :: pyfloat
  ps_fees :: pyfloat
  ps_fill_count :: int
  ps_opened_at :: "timestamp option"
  ps_closed_at :: "timestamp option"
  ps_is_open :: bool

definition summary_of :: "position \<Rightarrow> position_summary" where
  "summary_of p =
     \<lparr>ps_token = p_token p, ps_side = p_side p, ps_slug = p_slug p, ps_size = p_size p, ps_entry = p_entry p,
      ps_basis = p_basis p, ps_realized = p_realized p, ps_fees = p_fees p, ps_fill_count = p_fill_count p,
      ps_opened_at = p_opened_at p, ps_closed_at = p_closed_at p, ps_is_open = (p_closed_at p = None \<and> p_size p > eps12)\<rparr>"

record backtest_result =
  br_final_equity :: pyfloat
  br_initial_capital :: pyfloat
  br_metrics :: backtest_metrics
  br_closed_count :: nat
  br_open_count :: nat
  br_total_fills :: nat
  br_rejected :: nat
  br_cancelled :: nat
  br_equity_history :: curve
  br_fills :: "fill list"
  br_outcomes :: "trade_outcome list"
  br_correlations :: "(string \<times> string, pyfloat) dict"
  br_fees_per_fill :: pyfloat
  br_fees_resolution :: pyfloat
  br_positions :: "position_summary list"
  br_processed :: nat
  br_settled :: nat
  br_marked_to_mid :: nat
  br_settlements :: nat

definition orders_in_state :: "order_state \<Rightarrow> engine \<Rightarrow> nat" where
  "orders_in_state st e = length (filter (\<lambda>o'. o_state o' = st) (all_orders e))"

definition build_result :: "'st backtest_config \<Rightarrow> 'g rng \<Rightarrow> 'st backtest \<Rightarrow> backtest_result" where
  "build_result cfg r s =
     (let pf = b_portfolio s; fills = all_fills (b_matching s); outcomes = map outcome_of (closed_positions pf);
          initial = initial_capital_usd (bc_portfolio cfg)
      in \<lparr>br_final_equity = equity_usd pf, br_initial_capital = initial,
          br_metrics = compute_metrics r initial (equity_usd pf) (equity_history pf) outcomes (fees_paid_usd pf) None 2000 (bc_seed cfg),
          br_closed_count = closed_position_count pf, br_open_count = open_position_count pf, br_total_fills = length fills,
          br_rejected = orders_in_state REJECTED (b_matching s), br_cancelled = orders_in_state CANCELLED (b_matching s),
          br_equity_history = equity_history pf, br_fills = fills, br_outcomes = outcomes,
          br_correlations = correlation_matrix (portfolio_cfg cfg) pf, br_fees_per_fill = per_fill_fees_paid_usd pf,
          br_fees_resolution = resolution_fees_paid pf,
          br_positions = map summary_of (closed_positions pf @ map snd (positions pf)),
          br_processed = b_processed s, br_settled = b_settled s, br_marked_to_mid = b_marked_to_mid s,
          br_settlements = length (bc_settlements cfg)\<rparr>)"

definition run_backtest ::
    "'st backtest_config \<Rightarrow> 'g rng \<Rightarrow> book_snapshot list \<Rightarrow> trade_intent list \<Rightarrow> 'st backtest \<Rightarrow> py_error + backtest_result" where
  "run_backtest cfg r snaps intents s = ebind (run cfg snaps intents s) (\<lambda>t. ok (build_result cfg r t))"

section \<open>Properties of the result\<close>

lemma outcome_pnl [simp]: "to_pnl (outcome_of p) = p_realized p" "to_won (outcome_of p) = (p_realized p > 0)"
  by (simp_all add: outcome_of_def Let_def)

lemma gains_pains: "gains_of xs - pains_of xs = sum_list xs"
proof (induction xs)
  case (Cons x xs)
  then show ?case by (cases "x > 0"; cases "x < 0") (auto simp: gains_of_def pains_of_def)
qed (simp add: gains_of_def pains_of_def)


definition emptied_backtest :: "unit backtest" where
  "emptied_backtest = final_mark_to_market sample_backtest_config holding_backtest"

lemma emptied_backtest_ok:
  "positions_ok (b_portfolio emptied_backtest)" "books_balance (initial_capital_usd default_portfolio_config) 0 (b_portfolio emptied_backtest)"
  "positions (b_portfolio emptied_backtest) = []"
proof -
  note sw = closing_out.sweep_all[OF holding_ok refl, of sample_backtest_config]
  define u where "u = foldl (\<lambda>s kp. final_close sample_backtest_config kp s) holding_backtest (positions (b_portfolio holding_backtest))"
  note sw = sw[folded u_def]
  have f: "positions (b_portfolio emptied_backtest) = positions (b_portfolio u)" "cash_usd (b_portfolio emptied_backtest) = cash_usd (b_portfolio u)"
    "closed_positions (b_portfolio emptied_backtest) = closed_positions (b_portfolio u)"
    by (simp_all add: emptied_backtest_def final_mark_to_market_def Let_def u_def)
  show "positions_ok (b_portfolio emptied_backtest)" using sw(1) unfolding f positions_ok_def .
  show "books_balance (initial_capital_usd default_portfolio_config) 0 (b_portfolio emptied_backtest)"
    using sw(2) unfolding f books_balance_def realized_dict_sum closed_basis_def .
  have "dict_get (positions (b_portfolio u)) k = None" for k
    using sw(3)[of k] by (cases "dict_get (positions (b_portfolio u)) k")
      (auto simp: holding_backtest_def dict_get_def held_def eps12_def split: if_splits)
  then show "positions (b_portfolio emptied_backtest) = []" unfolding f dict_get_None_iff by (cases "positions (b_portfolio u)") force+
qed


text \<open>
  The return percentage of a fully closed trade does not measure its return: with size and cost basis back at zero
  every winner that gained at least 1e-9 dollars is reported at exactly 100 percent, whatever it cost, and every loser at
  its loss in dollars times 1e11 percent.
\<close>

theorem closed_trade_return_degenerate:
  assumes "p_size p = 0" "p_basis p = 0" "1 / 10000 \<le> p_entry p"
  shows "(1 / 10 ^ 9 \<le> p_realized p \<longrightarrow> to_return_pct (outcome_of p) = 100) \<and>
    (p_realized p < 0 \<longrightarrow> to_return_pct (outcome_of p) = p_realized p * 10 ^ 11)"
proof -
  have e: "p_entry p * (p_size p + p_realized p / max (1 / 10000) (p_entry p)) = p_realized p"
    using assms by (simp add: max_def)
  show ?thesis unfolding outcome_of_def Let_def e using assms(2) by (auto simp: max_def)
qed

definition closed_winner :: position where
  "closed_winner = apply_close_fill (sample_fill ''SELL'' (6 / 10) 100 0) (apply_open_fill (sample_fill ''BUY'' (1 / 2) 100 0) (new_position ''t'' ''BUY'' None))"

theorem closed_trade_return_degenerate_witness:
  "p_realized closed_winner = 10 \<and> to_return_pct (outcome_of closed_winner) = 100"
proof -
  have c: "p_size closed_winner = 0" "p_basis closed_winner = 0" "p_entry closed_winner = 1 / 2" "p_realized closed_winner = 10"
    by (simp_all add: closed_winner_def apply_close_fill_def apply_open_fill_def new_position_def sample_fill_def Let_def notional_usd_def)
  then show ?thesis using closed_trade_return_degenerate[of closed_winner] by simp
qed

end
