(* ===== verification/ExitPass.thy ===== *)
theory ExitPass
  imports ExitRow
begin

text \<open>
  One reconcile pass over a laddered exit, \<open>run_exit_pass\<close> of \<open>services/trader_orchestrator/exit_executor.py\<close>:
  planned children are submitted, overdue ones escalated, drifted ones repriced, all within a budget.

  The venue is code the executor receives as two callables: \<open>place_order\<close> and \<open>cancel_fn\<close> are arguments, functions
  on a venue state that may raise. An error of \<open>place_order\<close> carries the text \<open>type: message\<close> of the exception.
\<close>

section \<open>The venue callables\<close>

record order_request =
  q_token :: string
  q_side :: string
  q_size :: pyfloat
  q_price :: pyfloat
  q_min_usd :: pyfloat
  q_tif :: string
  q_post_only :: bool
  q_metadata :: string

record order_reply =
  rp_status :: "string option"
  rp_order_id :: "string option"
  rp_clob_id :: "string option"
  rp_filled :: "pyfloat option"
  rp_avg :: "pyfloat option"
  rp_error :: "string option"

type_synonym 'v place_order = "order_request \<Rightarrow> 'v \<Rightarrow> (string + order_reply) \<times> 'v"
type_synonym 'v cancel_fn = "string \<Rightarrow> 'v \<Rightarrow> (string + bool) \<times> 'v"

text \<open>The arguments of a pass that every child shares.\<close>

record 'v pass_env =
  v_token :: string
  v_side :: string
  v_min_usd :: pyfloat
  v_place :: "'v place_order"
  v_cancel :: "'v cancel_fn"
  v_mid :: "pyfloat option"
  v_tick :: pyfloat
  v_now :: timestamp

definition str_or_none :: "string option \<Rightarrow> string option" where
  "str_or_none x = (case x of None \<Rightarrow> None | Some s \<Rightarrow> if s = [] then None else Some s)"

section \<open>One child\<close>

definition booked_fill :: "order_reply \<Rightarrow> child_record \<Rightarrow> child_record" where
  "booked_fill r c =
     (let inc = max 0 (case rp_filled r of None \<Rightarrow> 0 | Some x \<Rightarrow> x) in
      if inc > 0 then
        let c1 = c\<lparr>ch_filled := Some (max 0 (case ch_filled c of None \<Rightarrow> 0 | Some x \<Rightarrow> x) + inc)\<rparr>
        in (case rp_avg r of Some a \<Rightarrow> if a > 0 then c1\<lparr>ch_avg_price := Some a\<rparr> else c1 | None \<Rightarrow> c1)
      else c)"

definition reply_status :: "order_reply \<Rightarrow> string" where
  "reply_status r = py_lower (py_strip (case rp_status r of None \<Rightarrow> [] | Some s \<Rightarrow> s))"

definition settle_reply :: "timestamp \<Rightarrow> order_reply \<Rightarrow> child_record \<Rightarrow> py_error + child_record" where
  "settle_reply now r c =
     (let c1 = booked_fill r (c\<lparr>ch_order_id := str_or_none (rp_order_id r), ch_clob_id := str_or_none (rp_clob_id r)\<rparr>) in
      if reply_status r = ''executed'' then
        (case ch_filled c1 of
           None \<Rightarrow> raise (TypeError ''filled_size'')
         | Some f \<Rightarrow> ok (c1\<lparr>ch_status := (if f + eps9 \<ge> ch_size c1 then ''filled'' else ''partial'')\<rparr>))
      else if reply_status r \<in> {''open'', ''submitted''} then
        ok (c1\<lparr>ch_status := ''submitted'',
              ch_submitted_at := (case ch_submitted_at c1 of None \<Rightarrow> Some now | Some t \<Rightarrow> Some t)\<rparr>)
      else ok (c1\<lparr>ch_status := ''failed'',
              ch_error := (case str_or_none (rp_error r) of
                 None \<Rightarrow> Some (''submit_status:'' @ (if reply_status r = [] then ''unknown'' else reply_status r))
               | Some e \<Rightarrow> Some e)\<rparr>))"

definition none_message :: string where
  "none_message = ''TypeError: float() argument must be a string or a real number, not '' @ CHR 0x27 # ''NoneType'' @ [CHR 0x27]"

definition submit_child_order :: "'v pass_env \<Rightarrow> child_record \<Rightarrow> 'v \<Rightarrow> py_error + (child_record \<times> 'v)" where
  "submit_child_order env c v =
     (let c1 = c\<lparr>ch_last_attempt_at := Some (v_now env)\<rparr> in
      case ch_price c of
        None \<Rightarrow> ok (c1\<lparr>ch_status := ''failed'', ch_error := Some none_message\<rparr>, v)
      | Some p \<Rightarrow>
          (case v_place env \<lparr>q_token = v_token env, q_side = v_side env, q_size = ch_size c, q_price = p, q_min_usd = v_min_usd env,
                q_tif = (if ch_tif c = [] then ''GTC'' else ch_tif c), q_post_only = ch_post_only c, q_metadata = ch_metadata c\<rparr> v of
             (Inl msg, v1) \<Rightarrow> ok (c1\<lparr>ch_status := ''failed'', ch_error := Some msg\<rparr>, v1)
           | (Inr r, v1) \<Rightarrow> ebind (settle_reply (v_now env) r c1) (\<lambda>c2. ok (c2, v1))))"

definition cancel_child_order :: "'v cancel_fn \<Rightarrow> child_record \<Rightarrow> 'v \<Rightarrow> bool \<times> 'v" where
  "cancel_child_order cancel_fn c v =
     (let clob_id = py_strip (case str_or_none (ch_clob_id c) of Some i \<Rightarrow> i | None \<Rightarrow> (case ch_order_id c of Some i \<Rightarrow> i | None \<Rightarrow> [])) in
      if clob_id = [] then (True, v)
      else (case cancel_fn clob_id v of (Inl _, v1) \<Rightarrow> (False, v1) | (Inr b, v1) \<Rightarrow> (b, v1)))"

text \<open>The price and order type an escalation resubmits with.\<close>

definition escalated_child :: "'v pass_env \<Rightarrow> escalation_spec \<Rightarrow> string \<Rightarrow> child_record \<Rightarrow> py_error + child_record" where
  "escalated_child env es action c =
     (if action = ''marketable_ioc'' then
        (case v_mid env of
           Some m \<Rightarrow> if m > 0
             then ok (c\<lparr>ch_price := Some (clamp_binary_price m (v_tick env)), ch_tif := ''IOC'', ch_post_only := False\<rparr>)
             else (case ch_price c of None \<Rightarrow> raise (TypeError ''price'') | Some p \<Rightarrow> ok (c\<lparr>ch_tif := ''IOC'', ch_post_only := False\<rparr>))
         | None \<Rightarrow> (case ch_price c of None \<Rightarrow> raise (TypeError ''price'') | Some p \<Rightarrow> ok (c\<lparr>ch_tif := ''IOC'', ch_post_only := False\<rparr>)))
      else if action = ''widen_bps'' then
        (case ch_price c of
           None \<Rightarrow> raise (TypeError ''price'')
         | Some p \<Rightarrow>
             let widen = (case es_widen_bps es of None \<Rightarrow> 25 | Some w \<Rightarrow> if w \<le> 0 then 25 else w);
                 new_raw = (if py_upper (if v_side env = [] then ''SELL'' else v_side env) = ''SELL''
                            then p * (1 - widen / 10000) else p * (1 + widen / 10000))
             in ok (c\<lparr>ch_price := Some (clamp_binary_price new_raw (v_tick env))\<rparr>))
      else ok c)"

definition reset_child :: "child_record \<Rightarrow> child_record" where
  "reset_child c = c\<lparr>ch_clob_id := None, ch_order_id := None, ch_submitted_at := None\<rparr>"

definition escalate_child_order ::
    "'v pass_env \<Rightarrow> escalation_spec option \<Rightarrow> child_record \<Rightarrow> 'v \<Rightarrow> py_error + (child_record \<times> 'v)" where
  "escalate_child_order env esc c v =
     (case esc of
        None \<Rightarrow> ok (c, v)
      | Some es \<Rightarrow>
          let action = py_lower (py_strip (if es_action es = [] then ''marketable_ioc'' else es_action es)) in
          (case cancel_child_order (v_cancel env) c v of
             (False, v1) \<Rightarrow> ok (c\<lparr>ch_error := Some ''escalation_cancel_failed''\<rparr>, v1)
           | (True, v1) \<Rightarrow>
               let c1 = c\<lparr>ch_status := ''escalated'', ch_escalations := ch_escalations c + 1\<rparr> in
               if action = ''abort'' then ok (c1\<lparr>ch_status := ''cancelled''\<rparr>, v1)
               else ebind (escalated_child env es action c1) (\<lambda>c2. submit_child_order env (reset_child c2) v1)))"

definition reprice_child_order :: "'v pass_env \<Rightarrow> pyfloat \<Rightarrow> child_record \<Rightarrow> 'v \<Rightarrow> py_error + (child_record \<times> 'v)" where
  "reprice_child_order env new_price c v =
     (case cancel_child_order (v_cancel env) c v of
        (False, v1) \<Rightarrow> ok (c\<lparr>ch_error := Some ''reprice_cancel_failed''\<rparr>, v1)
      | (True, v1) \<Rightarrow>
          submit_child_order env (reset_child (c\<lparr>ch_price := Some (clamp_binary_price new_price (v_tick env)), ch_status := ''planned''\<rparr>)) v1)"

section \<open>The pass\<close>

record pass_budget =
  b_submits :: int
  b_escalations :: int
  b_reprices :: int

definition default_child_cap :: int where "default_child_cap = 8"

record pass_report =
  pr_submitted :: nat
  pr_escalated :: nat
  pr_repriced :: nat
  pr_filled :: pyfloat
  pr_complete :: bool

text \<open>
  Each of the three loops visits the picked indices, stops when its part of the budget is used up, applies one
  operation to the child in place and counts it.
\<close>

fun pass_loop ::
    "(child_record \<Rightarrow> 'v \<Rightarrow> py_error + (child_record \<times> 'v)) \<Rightarrow> nat list \<Rightarrow> int \<Rightarrow> nat \<Rightarrow> child_record list \<Rightarrow> 'v
     \<Rightarrow> py_error + (int \<times> nat \<times> child_record list \<times> 'v)" where
  "pass_loop f [] left n cs v = ok (left, n, cs, v)"
| "pass_loop f (i # is) left n cs v =
     (if left \<le> 0 then ok (left, n, cs, v)
      else ebind (f (cs ! i) v) (\<lambda>(c, v1). pass_loop f is (left - 1) (n + 1) (cs[i := c]) v1))"

definition reprice_one :: "'v pass_env \<Rightarrow> pyfloat option \<Rightarrow> pyfloat \<Rightarrow> child_record \<Rightarrow> 'v \<Rightarrow> py_error + (child_record \<times> 'v)" where
  "reprice_one env trigger m c v =
     (case ch_price c of
        None \<Rightarrow> raise (TypeError ''price'')
      | Some p \<Rightarrow> reprice_child_order env (m + (p - py_or trigger m)) c v)"

definition reprice_stage ::
    "'v pass_env \<Rightarrow> pending_exit \<Rightarrow> int \<Rightarrow> child_record list \<Rightarrow> 'v \<Rightarrow> py_error + (int \<times> nat \<times> child_record list \<times> 'v)" where
  "reprice_stage env pe reprices cs v =
     (case v_mid env of
        None \<Rightarrow> ok (reprices, 0, cs, v)
      | Some m \<Rightarrow> if m > 0
          then pass_loop (reprice_one env (pe_trigger pe) m) (pick_children_to_reprice (pe\<lparr>pe_children := cs\<rparr>) m (v_now env)) reprices 0 cs v
          else ok (reprices, 0, cs, v))"

definition budget_of :: "pass_budget option \<Rightarrow> pass_budget" where
  "budget_of budget = (case budget of Some b \<Rightarrow> b
     | None \<Rightarrow> \<lparr>b_submits = default_child_cap, b_escalations = default_child_cap, b_reprices = default_child_cap\<rparr>)"

definition run_exit_pass ::
    "'v pass_env \<Rightarrow> pass_budget option \<Rightarrow> pending_exit \<Rightarrow> 'v \<Rightarrow> py_error + (pass_report \<times> pending_exit \<times> 'v)" where
  "run_exit_pass env budget pe v =
     (if pe_children pe = [] then ok (\<lparr>pr_submitted = 0, pr_escalated = 0, pr_repriced = 0, pr_filled = 0, pr_complete = True\<rparr>, pe, v)
      else
        let b = budget_of budget in
        ebind (pass_loop (submit_child_order env) (pick_children_to_submit pe (b_submits b)) (b_submits b) 0 (pe_children pe) v)
          (\<lambda>(_, n1, cs1, v1).
        ebind (pass_loop (escalate_child_order env (x_escalation (pe_policy pe)))
            (pick_children_to_escalate (pe\<lparr>pe_children := cs1\<rparr>) (v_now env)) (b_escalations b) 0 cs1 v1)
          (\<lambda>(_, n2, cs2, v2).
        ebind (reprice_stage env pe (b_reprices b) cs2 v2)
          (\<lambda>(_, n3, cs3, v3).
        let pe3 = pe\<lparr>pe_children := cs3, pe_totals := Some (aggregate_children_fills cs3), pe_last_pass_at := Some (v_now env),
                     pe_last_report := Some (n1, n2, n3)\<rparr> in
        ok (\<lparr>pr_submitted = n1, pr_escalated = n2, pr_repriced = n3,
              pr_filled = t_size (aggregate_children_fills cs3), pr_complete = is_exit_complete pe3 1\<rparr>, pe3, v3)))))"

section \<open>What an operation on a child may do\<close>

text \<open>A child keeps its identity and size, its recorded fills and escalation count never fall.\<close>

definition child_progress :: "child_record \<Rightarrow> child_record \<Rightarrow> bool" where
  "child_progress c c' \<longleftrightarrow> ch_id c' = ch_id c \<and> ch_index c' = ch_index c \<and> ch_size c' = ch_size c \<and> ch_bucket c' = ch_bucket c \<and>
     ch_metadata c' = ch_metadata c \<and> child_fill c \<le> child_fill c' \<and> ch_escalations c \<le> ch_escalations c'"

text \<open>A row as \<open>child_plan_to_record\<close> writes it: price and filled size are numbers.\<close>

definition row_ok :: "child_record \<Rightarrow> bool" where
  "row_ok c \<longleftrightarrow> ch_price c \<noteq> None \<and> ch_filled c \<noteq> None"

lemma child_progress_refl [simp]: "child_progress c c"
  by (simp add: child_progress_def)

lemma child_progress_trans: "child_progress a b \<Longrightarrow> child_progress b c \<Longrightarrow> child_progress a c"
  by (auto simp: child_progress_def)

text \<open>
  The contract of the three operations: from a well-formed row they return, whatever the venue answers, and
  each places at most one order, as counted by a measure of the venue state.
\<close>

locale child_operation =
  fixes f :: "child_record \<Rightarrow> 'v \<Rightarrow> py_error + (child_record \<times> 'v)"
    and placed :: "'v \<Rightarrow> nat"
    and gain :: int
  assumes f_progress: "f c v = Inr (c', v') \<Longrightarrow> child_progress c c' \<and> ch_escalations c' \<le> ch_escalations c + gain"
    and f_placed: "f c v = Inr (c', v') \<Longrightarrow> placed v' \<le> placed v + 1"
    and f_total: "row_ok c \<Longrightarrow> \<exists>c' v'. f c v = Inr (c', v') \<and> row_ok c'"
begin

lemma loop_step:
  assumes "pass_loop f (i # is) left n cs v = Inr res" "0 < left"
  obtains c v1 where "f (cs ! i) v = Inr (c, v1)" "pass_loop f is (left - 1) (n + 1) (cs[i := c]) v1 = Inr res"
  using assms by (auto simp: ebind_def split: sum.splits)

lemma loop_keeps:
  "pass_loop f is left n cs v = Inr (l', n', cs', v') \<Longrightarrow> distinct is \<Longrightarrow> \<forall>i\<in>set is. i < length cs \<Longrightarrow>
   length cs' = length cs \<and> n \<le> n' \<and> int n' \<le> int n + max 0 left \<and> placed v' \<le> placed v + (n' - n) \<and>
   (\<forall>j. j \<notin> set is \<longrightarrow> cs' ! j = cs ! j) \<and>
   (\<forall>j < length cs. child_progress (cs ! j) (cs' ! j) \<and> ch_escalations (cs' ! j) \<le> ch_escalations (cs ! j) + max 0 gain)"
proof (induction "is" arbitrary: left n cs v)
  case (Cons i "is")
  show ?case
  proof (cases "left \<le> 0")
    case False
    then have "0 < left" by simp
    then obtain c v1 where s: "f (cs ! i) v = Inr (c, v1)" "pass_loop f is (left - 1) (n + 1) (cs[i := c]) v1 = Inr (l', n', cs', v')"
      using loop_step[OF Cons.prems(1)] by blast
    have i: "i < length cs" "i \<notin> set is" "distinct is" "\<forall>j\<in>set is. j < length (cs[i := c])" using Cons.prems by auto
    note ih = Cons.IH[OF s(2) i(3,4)]
    have c: "child_progress (cs ! i) c" "ch_escalations c \<le> ch_escalations (cs ! i) + gain" using f_progress[OF s(1)] by blast+
    have at_i: "cs' ! i = c" using ih i by simp
    have "child_progress (cs ! j) (cs' ! j) \<and> ch_escalations (cs' ! j) \<le> ch_escalations (cs ! j) + max 0 gain" if "j < length cs" for j
    proof (cases "j = i")
      case True
      then show ?thesis using c at_i by auto
    next
      case False
      then show ?thesis using ih that by (metis length_list_update nth_list_update_neq)
    qed
    moreover have "cs' ! j = cs ! j" if "j \<notin> set (i # is)" for j using ih that by simp
    ultimately show ?thesis using ih f_placed[OF s(1)] False by auto
  qed (use Cons.prems in auto)
qed simp

lemma loop_total:
  "\<forall>c\<in>set cs. row_ok c \<Longrightarrow> \<forall>i\<in>set is. i < length cs \<Longrightarrow>
   \<exists>l' n' cs' v'. pass_loop f is left n cs v = Inr (l', n', cs', v') \<and> (\<forall>c\<in>set cs'. row_ok c) \<and> length cs' = length cs"
proof (induction "is" arbitrary: left n cs v)
  case (Cons i "is")
  then have "row_ok (cs ! i)" by auto
  then obtain c v1 where c: "f (cs ! i) v = Inr (c, v1)" "row_ok c" using f_total by blast
  have "\<forall>x\<in>set (cs[i := c]). row_ok x" using Cons.prems(1) c(2) set_update_subset_insert[of cs i c] by blast
  then show ?case using Cons.IH[of "cs[i := c]" "left - 1" "n + 1" v1] Cons.prems c(1) by simp
qed simp

end

section \<open>The three operations meet the contract\<close>

lemma booked_fill_fields:
  "ch_id (booked_fill r c) = ch_id c" "ch_index (booked_fill r c) = ch_index c" "ch_size (booked_fill r c) = ch_size c"
  "ch_bucket (booked_fill r c) = ch_bucket c" "ch_metadata (booked_fill r c) = ch_metadata c"
  "ch_escalations (booked_fill r c) = ch_escalations c" "ch_price (booked_fill r c) = ch_price c"
  "child_fill c \<le> child_fill (booked_fill r c)" "ch_filled c \<noteq> None \<Longrightarrow> ch_filled (booked_fill r c) \<noteq> None"
  by (auto simp: booked_fill_def Let_def child_fill_def split: option.split)

text \<open>Changes outside identity, size, price, fills and escalation count.\<close>

definition same_core :: "child_record \<Rightarrow> child_record \<Rightarrow> bool" where
  "same_core c c' \<longleftrightarrow> ch_id c' = ch_id c \<and> ch_index c' = ch_index c \<and> ch_size c' = ch_size c \<and> ch_bucket c' = ch_bucket c \<and>
     ch_metadata c' = ch_metadata c \<and> ch_filled c' = ch_filled c \<and> ch_escalations c' = ch_escalations c"

lemma same_core_progress: "same_core a b \<Longrightarrow> child_progress b c \<Longrightarrow> child_progress a c \<and> ch_escalations a = ch_escalations b"
  by (auto simp: same_core_def child_progress_def child_fill_def)

lemma same_core_refl_progress: "same_core a b \<Longrightarrow> child_progress a b \<and> ch_escalations b = ch_escalations a"
  by (auto simp: same_core_def child_progress_def child_fill_def)

lemma settle_progress:
  assumes "settle_reply now r c = Inr c'"
  shows "child_progress c c'" "ch_escalations c' = ch_escalations c"
proof -
  let ?a = "c\<lparr>ch_order_id := str_or_none (rp_order_id r), ch_clob_id := str_or_none (rp_clob_id r)\<rparr>"
  have a: "same_core c ?a" by (simp add: same_core_def)
  have b: "child_progress ?a (booked_fill r ?a)" using booked_fill_fields[where r = r and c = ?a] by (simp add: child_progress_def)
  have "same_core (booked_fill r ?a) c'"
    using assms unfolding settle_reply_def Let_def by (auto simp: same_core_def split: if_splits option.splits)
  then have d: "child_progress (booked_fill r ?a) c'" "ch_escalations c' = ch_escalations (booked_fill r ?a)"
    using same_core_refl_progress by blast+
  show "child_progress c c'" using same_core_progress[OF a child_progress_trans[OF b d(1)]] by blast
  show "ch_escalations c' = ch_escalations c" using d(2) booked_fill_fields(6)[of r ?a] by simp
qed

lemma submit_child_progress:
  assumes "submit_child_order env c v = Inr (c', v')"
  shows "child_progress c c'" "ch_escalations c' = ch_escalations c"
proof -
  let ?c1 = "c\<lparr>ch_last_attempt_at := Some (v_now env)\<rparr>"
  have one: "same_core c ?c1" by (simp add: same_core_def)
  have "same_core ?c1 c' \<or> (\<exists>r. settle_reply (v_now env) r ?c1 = Inr c')"
    using assms unfolding submit_child_order_def Let_def
    by (auto simp: same_core_def ebind_def split: option.splits prod.splits sum.splits)
  then have "child_progress ?c1 c' \<and> ch_escalations c' = ch_escalations ?c1"
    using same_core_refl_progress settle_progress by blast
  then show "child_progress c c'" "ch_escalations c' = ch_escalations c" using same_core_progress[OF one] by auto
qed

lemma settle_total: "row_ok c \<Longrightarrow> \<exists>c'. settle_reply now r c = Inr c' \<and> row_ok c'"
proof -
  assume ok: "row_ok c"
  let ?a = "c\<lparr>ch_order_id := str_or_none (rp_order_id r), ch_clob_id := str_or_none (rp_clob_id r)\<rparr>"
  have b: "row_ok (booked_fill r ?a)" using ok booked_fill_fields(7,9)[where r = r and c = ?a] by (simp add: row_ok_def)
  then obtain f where "ch_filled (booked_fill r ?a) = Some f" by (auto simp: row_ok_def)
  then show ?thesis using b unfolding settle_reply_def Let_def by (auto simp: row_ok_def)
qed

lemma submit_child_total: "row_ok c \<Longrightarrow> \<exists>c' v'. submit_child_order env c v = Inr (c', v') \<and> row_ok c'"
proof -
  assume ok: "row_ok c"
  let ?c1 = "c\<lparr>ch_last_attempt_at := Some (v_now env)\<rparr>"
  have one: "row_ok ?c1" using ok by (simp add: row_ok_def)
  obtain p where p: "ch_price c = Some p" using ok by (auto simp: row_ok_def)
  obtain x v1 where x: "v_place env \<lparr>q_token = v_token env, q_side = v_side env, q_size = ch_size c, q_price = p, q_min_usd = v_min_usd env,
      q_tif = (if ch_tif c = [] then ''GTC'' else ch_tif c), q_post_only = ch_post_only c, q_metadata = ch_metadata c\<rparr> v = (x, v1)"
    by fastforce
  show ?thesis
  proof (cases x)
    case (Inl msg)
    then show ?thesis using one by (simp add: submit_child_order_def p x row_ok_def)
  next
    case (Inr r)
    obtain c2 where "settle_reply (v_now env) r ?c1 = Inr c2" "row_ok c2" using settle_total[OF one] by blast
    then show ?thesis using Inr by (simp add: submit_child_order_def p x)
  qed
qed

lemma escalated_core: "escalated_child env es action c = Inr c' \<Longrightarrow> same_core c c'"
  by (auto simp: escalated_child_def Let_def same_core_def split: if_splits option.splits)

lemma escalated_total: "row_ok c \<Longrightarrow> \<exists>c'. escalated_child env es action c = Inr c' \<and> row_ok c'"
  by (auto simp: escalated_child_def Let_def row_ok_def split: option.split)

lemma reset_core: "same_core c (reset_child c)" "row_ok c \<Longrightarrow> row_ok (reset_child c)"
  by (simp_all add: reset_child_def same_core_def row_ok_def)

lemma escalate_progress:
  assumes "escalate_child_order env esc c v = Inr (c', v')"
  shows "child_progress c c' \<and> ch_escalations c' \<le> ch_escalations c + 1"
proof (cases esc)
  case None
  then show ?thesis using assms by (simp add: escalate_child_order_def)
next
  case (Some es)
  let ?act = "py_lower (py_strip (if es_action es = [] then ''marketable_ioc'' else es_action es))"
  let ?c1 = "c\<lparr>ch_status := ''escalated'', ch_escalations := ch_escalations c + 1\<rparr>"
  obtain b v1 where b: "cancel_child_order (v_cancel env) c v = (b, v1)" by fastforce
  have c1: "child_progress c ?c1" by (simp add: child_progress_def child_fill_def)
  consider "\<not> b" | "b" "?act = ''abort''" | "b" "?act \<noteq> ''abort''" by blast
  then show ?thesis
  proof cases
    case 1
    then show ?thesis using assms by (auto simp: escalate_child_order_def Some b Let_def child_progress_def child_fill_def)
  next
    case 2
    then show ?thesis using assms by (auto simp: escalate_child_order_def Some b Let_def child_progress_def child_fill_def)
  next
    case 3
    then obtain c2 where c2: "escalated_child env es ?act ?c1 = Inr c2" "submit_child_order env (reset_child c2) v1 = Inr (c', v')"
      using assms by (auto simp: escalate_child_order_def Some b Let_def ebind_def split: sum.splits)
    have p2: "child_progress c2 c'" "ch_escalations c' = ch_escalations c2"
      using same_core_progress[OF reset_core(1) submit_child_progress(1)[OF c2(2)]] submit_child_progress(2)[OF c2(2)] by auto
    have "child_progress ?c1 c'" "ch_escalations c' = ch_escalations ?c1"
      using same_core_progress[OF escalated_core[OF c2(1)] p2(1)] p2(2) by (blast, simp)
    then show ?thesis using child_progress_trans[OF c1] by simp
  qed
qed

lemma escalate_total:
  assumes ok: "row_ok c"
  shows "\<exists>c' v'. escalate_child_order env esc c v = Inr (c', v') \<and> row_ok c'"
proof (cases esc)
  case None
  then show ?thesis using ok by (simp add: escalate_child_order_def)
next
  case (Some es)
  let ?act = "py_lower (py_strip (if es_action es = [] then ''marketable_ioc'' else es_action es))"
  let ?c1 = "c\<lparr>ch_status := ''escalated'', ch_escalations := ch_escalations c + 1\<rparr>"
  obtain b v1 where b: "cancel_child_order (v_cancel env) c v = (b, v1)" by fastforce
  have "row_ok ?c1" using ok by (simp add: row_ok_def)
  then obtain c2 where c2: "escalated_child env es ?act ?c1 = Inr c2" "row_ok c2" using escalated_total by blast
  obtain c3 v3 where "submit_child_order env (reset_child c2) v1 = Inr (c3, v3)" "row_ok c3"
    using submit_child_total[OF reset_core(2)[OF c2(2)], of env v1] by blast
  then show ?thesis using ok c2 by (cases b) (auto simp: escalate_child_order_def Some b Let_def row_ok_def)
qed

lemma reprice_progress:
  assumes "reprice_one env tr m c v = Inr (c', v')"
  shows "child_progress c c' \<and> ch_escalations c' = ch_escalations c"
proof -
  obtain b v1 where b: "cancel_child_order (v_cancel env) c v = (b, v1)" by fastforce
  obtain p where p: "ch_price c = Some p" using assms by (auto simp: reprice_one_def split: option.splits)
  let ?c = "reset_child (c\<lparr>ch_price := Some (clamp_binary_price (m + (p - py_or tr m)) (v_tick env)), ch_status := ''planned''\<rparr>)"
  have core: "same_core c ?c" by (simp add: same_core_def reset_child_def)
  show ?thesis
  proof (cases b)
    case True
    then have a: "submit_child_order env ?c v1 = Inr (c', v')" using assms by (simp add: reprice_one_def p reprice_child_order_def b)
    show ?thesis using same_core_progress[OF core submit_child_progress(1)[OF a]] submit_child_progress(2)[OF a] by (metis core same_core_def)
  next
    case False
    then have "same_core c c'" using assms by (auto simp: reprice_one_def p reprice_child_order_def b same_core_def)
    then show ?thesis by (rule same_core_refl_progress)
  qed
qed

lemma reprice_total: "row_ok c \<Longrightarrow> \<exists>c' v'. reprice_one env tr m c v = Inr (c', v') \<and> row_ok c'"
proof -
  assume ok: "row_ok c"
  then obtain p where p: "ch_price c = Some p" by (auto simp: row_ok_def)
  obtain b v1 where b: "cancel_child_order (v_cancel env) c v = (b, v1)" by fastforce
  let ?c = "reset_child (c\<lparr>ch_price := Some (clamp_binary_price (m + (p - py_or tr m)) (v_tick env)), ch_status := ''planned''\<rparr>)"
  have rok: "row_ok ?c" using ok by (simp add: row_ok_def reset_child_def)
  show ?thesis
  proof (cases b)
    case True
    then have "reprice_one env tr m c v = submit_child_order env ?c v1"
      by (simp add: reprice_one_def p reprice_child_order_def b)
    then show ?thesis using submit_child_total[OF rok, of env v1] by simp
  next
    case False
    then show ?thesis using ok by (simp add: reprice_one_def p reprice_child_order_def b row_ok_def)
  qed
qed

section \<open>Any venue, and a venue that counts orders\<close>

text \<open>
  What a pass needs to know of the venue to bound its orders: a measure that one \<open>place_order\<close> raises by at most
  one and a cancel leaves alone.
\<close>

locale exit_venue =
  fixes env :: "'v pass_env" and placed :: "'v \<Rightarrow> nat"
  assumes place_cost: "placed (snd (v_place env q v)) \<le> placed v + 1"
    and cancel_cost: "placed (snd (v_cancel env i v)) = placed v"
begin

lemma submit_placed: "submit_child_order env c v = Inr (c', v') \<Longrightarrow> placed v' \<le> placed v + 1"
  unfolding submit_child_order_def Let_def using place_cost
  by (auto simp: ebind_def split: option.splits prod.splits sum.splits) (metis snd_conv add.commute plus_1_eq_Suc)+

lemma cancel_placed: "cancel_child_order (v_cancel env) c v = (b, v') \<Longrightarrow> placed v' = placed v"
  unfolding cancel_child_order_def Let_def using cancel_cost
  by (auto split: prod.splits sum.splits if_splits) (metis snd_conv)+

lemma escalate_placed:
  assumes "escalate_child_order env esc c v = Inr (c', v')"
  shows "placed v' \<le> placed v + 1"
proof -
  obtain b v1 where b: "cancel_child_order (v_cancel env) c v = (b, v1)" by fastforce
  have "v' = v \<or> v' = v1 \<or> (\<exists>c2. submit_child_order env c2 v1 = Inr (c', v'))"
    using assms by (cases b) (auto simp: escalate_child_order_def b Let_def ebind_def split: option.splits sum.splits if_splits)
  then show ?thesis using cancel_placed[OF b] submit_placed by fastforce
qed

lemma reprice_placed:
  assumes "reprice_one env tr m c v = Inr (c', v')"
  shows "placed v' \<le> placed v + 1"
proof -
  obtain b v1 where b: "cancel_child_order (v_cancel env) c v = (b, v1)" by fastforce
  have "v' = v1 \<or> (\<exists>c2. submit_child_order env c2 v1 = Inr (c', v'))"
    using assms by (cases b) (auto simp: reprice_one_def reprice_child_order_def b split: option.splits)
  then show ?thesis using cancel_placed[OF b] submit_placed by fastforce
qed

end

sublocale exit_venue \<subseteq> submitting: child_operation "submit_child_order env" placed 0
proof unfold_locales
  fix c v c' v' assume a: "submit_child_order env c v = Inr (c', v')"
  show "child_progress c c' \<and> ch_escalations c' \<le> ch_escalations c + 0" using submit_child_progress[OF a] by simp
  show "placed v' \<le> placed v + 1" by (rule submit_placed[OF a])
qed (rule submit_child_total)

sublocale exit_venue \<subseteq> escalating: child_operation "escalate_child_order env esc" placed 1 for esc
  by unfold_locales (rule escalate_progress escalate_placed escalate_total, assumption)+

sublocale exit_venue \<subseteq> repricing: child_operation "reprice_one env tr m" placed 0 for tr m
proof unfold_locales
  fix c v c' v' assume a: "reprice_one env tr m c v = Inr (c', v')"
  show "child_progress c c' \<and> ch_escalations c' \<le> ch_escalations c + 0" using reprice_progress[OF a] by simp
  show "placed v' \<le> placed v + 1" by (rule reprice_placed[OF a])
qed (rule reprice_total)

text \<open>The indices a pass visits.\<close>

lemma indices_where_facts: "distinct (indices_where P cs)" "i \<in> set (indices_where P cs) \<longleftrightarrow> i < length cs \<and> P (cs ! i)"
  by (auto simp: indices_where_def)

lemma picked_to_submit:
  "distinct (pick_children_to_submit pe k)"
  "i \<in> set (pick_children_to_submit pe k) \<Longrightarrow> i < length (pe_children pe) \<and> status_norm (pe_children pe ! i) = ''planned''"
proof -
  have t: "pick_children_to_submit pe k = take (nat (max 1 k)) (indices_where (\<lambda>c. status_norm c = ''planned'') (pe_children pe))"
    using submit_loop_take[of "[]" k 0 "pe_children pe"] by (simp add: pick_children_to_submit_def)
  show "distinct (pick_children_to_submit pe k)" unfolding t using indices_where_facts(1) by (rule distinct_take)
  show "i \<in> set (pick_children_to_submit pe k) \<Longrightarrow> i < length (pe_children pe) \<and> status_norm (pe_children pe ! i) = ''planned''"
    unfolding t by (drule in_set_takeD) (simp add: indices_where_facts(2))
qed

lemma picked_to_escalate:
  "distinct (pick_children_to_escalate pe now)"
  "i \<in> set (pick_children_to_escalate pe now) \<longleftrightarrow> i < length (pe_children pe) \<and>
     (\<exists>es. x_escalation (pe_policy pe) = Some es \<and> overdue_child es now (pe_children pe ! i))"
  by (cases "x_escalation (pe_policy pe)"; simp add: pick_children_to_escalate_def indices_where_facts)+

lemma picked_to_reprice:
  "distinct (pick_children_to_reprice pe m now)"
  "i \<in> set (pick_children_to_reprice pe m now) \<Longrightarrow> i < length (pe_children pe) \<and> child_working (pe_children pe ! i)"
  by (auto simp: pick_children_to_reprice_def indices_where_facts stale_child_def split: option.splits if_splits)

section \<open>The whole pass\<close>

definition finished_child :: "child_record \<Rightarrow> bool" where
  "finished_child c \<longleftrightarrow> status_norm c \<in> {''filled'', ''cancelled'', ''failed''}"

definition escalation_cap :: "pending_exit \<Rightarrow> int" where
  "escalation_cap pe = (case x_escalation (pe_policy pe) of None \<Rightarrow> 0 | Some es \<Rightarrow> es_max_escalations es)"

lemma overdue_facts:
  assumes "i \<in> set (pick_children_to_escalate pe now)"
  shows "i < length (pe_children pe) \<and> child_working (pe_children pe ! i) \<and> ch_escalations (pe_children pe ! i) < escalation_cap pe"
  using assms unfolding picked_to_escalate(2) escalation_cap_def overdue_child_def by force

context exit_venue
begin

lemma reprice_stage_keeps:
  assumes "reprice_stage env pe left cs v = Inr (l', n', cs', v')"
  shows "length cs' = length cs \<and> int n' \<le> max 0 left \<and> placed v' \<le> placed v + n' \<and>
    (\<forall>j < length cs. (\<not> child_working (cs ! j) \<longrightarrow> cs' ! j = cs ! j) \<and> child_progress (cs ! j) (cs' ! j) \<and>
       ch_escalations (cs' ! j) \<le> ch_escalations (cs ! j))"
proof (cases "v_mid env")
  case None
  then show ?thesis using assms by (simp add: reprice_stage_def)
next
  case (Some m)
  let ?is = "pick_children_to_reprice (pe\<lparr>pe_children := cs\<rparr>) m (v_now env)"
  have ix: "distinct ?is" "\<forall>i\<in>set ?is. i < length cs \<and> child_working (cs ! i)"
    using picked_to_reprice[where pe = "pe\<lparr>pe_children := cs\<rparr>" and m = m and now = "v_now env"] by auto
  show ?thesis
  proof (cases "m > 0")
    case True
    then have l: "pass_loop (reprice_one env (pe_trigger pe) m) ?is left 0 cs v = Inr (l', n', cs', v')"
      using assms by (simp add: reprice_stage_def Some)
    show ?thesis using repricing.loop_keeps[OF l ix(1)] ix(2) by auto
  qed (use assms in \<open>simp add: reprice_stage_def Some\<close>)
qed

lemma reprice_stage_total:
  assumes "\<forall>c\<in>set cs. row_ok c"
  shows "\<exists>l' n' cs' v'. reprice_stage env pe left cs v = Inr (l', n', cs', v') \<and> (\<forall>c\<in>set cs'. row_ok c) \<and> length cs' = length cs"
proof (cases "v_mid env")
  case (Some m)
  have "\<forall>i\<in>set (pick_children_to_reprice (pe\<lparr>pe_children := cs\<rparr>) m (v_now env)). i < length cs"
    using picked_to_reprice(2)[where pe = "pe\<lparr>pe_children := cs\<rparr>" and m = m and now = "v_now env"] by auto
  then show ?thesis using repricing.loop_total[OF assms] assms by (simp add: reprice_stage_def Some)
qed (simp add: reprice_stage_def assms)

lemma pass_parts:
  assumes "run_exit_pass env budget pe v = Inr (rep, pe', v')" "pe_children pe \<noteq> []"
  obtains l1 n1 cs1 v1 l2 n2 cs2 v2 l3 n3 cs3 where
    "pass_loop (submit_child_order env) (pick_children_to_submit pe (b_submits (budget_of budget))) (b_submits (budget_of budget)) 0 (pe_children pe) v = Inr (l1, n1, cs1, v1)"
    "pass_loop (escalate_child_order env (x_escalation (pe_policy pe)))
       (pick_children_to_escalate (pe\<lparr>pe_children := cs1\<rparr>) (v_now env)) (b_escalations (budget_of budget)) 0 cs1 v1 = Inr (l2, n2, cs2, v2)"
    "reprice_stage env pe (b_reprices (budget_of budget)) cs2 v2 = Inr (l3, n3, cs3, v')"
    "pr_submitted rep = n1" "pr_escalated rep = n2" "pr_repriced rep = n3" "pe_children pe' = cs3"
  using assms unfolding run_exit_pass_def Let_def
  by (auto simp: ebind_def split: sum.splits prod.splits)

lemma pass_keeps:
  assumes run: "run_exit_pass env budget pe v = Inr (rep, pe', v')"
  shows "length (pe_children pe') = length (pe_children pe) \<and>
    int (pr_submitted rep) \<le> max 0 (b_submits (budget_of budget)) \<and> int (pr_escalated rep) \<le> max 0 (b_escalations (budget_of budget)) \<and>
    int (pr_repriced rep) \<le> max 0 (b_reprices (budget_of budget)) \<and>
    placed v' \<le> placed v + pr_submitted rep + pr_escalated rep + pr_repriced rep \<and>
    (\<forall>j < length (pe_children pe). child_progress (pe_children pe ! j) (pe_children pe' ! j) \<and>
       (finished_child (pe_children pe ! j) \<longrightarrow> pe_children pe' ! j = pe_children pe ! j) \<and>
       ch_escalations (pe_children pe' ! j) \<le> max (ch_escalations (pe_children pe ! j)) (escalation_cap pe))"
proof (cases "pe_children pe = []")
  case True
  then show ?thesis using run by (auto simp: run_exit_pass_def)
next
  case False
  let ?b = "budget_of budget" and ?cs = "pe_children pe"
  obtain l1 n1 cs1 v1 l2 n2 cs2 v2 l3 n3 cs3 where p:
    "pass_loop (submit_child_order env) (pick_children_to_submit pe (b_submits ?b)) (b_submits ?b) 0 ?cs v = Inr (l1, n1, cs1, v1)"
    "pass_loop (escalate_child_order env (x_escalation (pe_policy pe)))
       (pick_children_to_escalate (pe\<lparr>pe_children := cs1\<rparr>) (v_now env)) (b_escalations ?b) 0 cs1 v1 = Inr (l2, n2, cs2, v2)"
    "reprice_stage env pe (b_reprices ?b) cs2 v2 = Inr (l3, n3, cs3, v')"
    "pr_submitted rep = n1" "pr_escalated rep = n2" "pr_repriced rep = n3" "pe_children pe' = cs3"
    using pass_parts[OF run False] by blast
  let ?is2 = "pick_children_to_escalate (pe\<lparr>pe_children := cs1\<rparr>) (v_now env)"
  have is2: "distinct ?is2" "\<And>i. i \<in> set ?is2 \<Longrightarrow> i < length cs1 \<and> child_working (cs1 ! i) \<and> ch_escalations (cs1 ! i) < escalation_cap pe"
    using picked_to_escalate(1) overdue_facts[where pe = "pe\<lparr>pe_children := cs1\<rparr>" and now = "v_now env"]
    by (simp_all add: escalation_cap_def)
  let ?is1 = "pick_children_to_submit pe (b_submits ?b)"
  have is1: "\<forall>i\<in>set ?is1. i < length ?cs" "\<And>j. finished_child (?cs ! j) \<Longrightarrow> j \<notin> set ?is1"
    using picked_to_submit(2)[of _ pe "b_submits ?b"] by (auto simp: finished_child_def)
  note one = submitting.loop_keeps[OF p(1) picked_to_submit(1) is1(1)]
  have s1: "length cs1 = length ?cs" "int n1 \<le> max 0 (b_submits ?b)" "placed v1 \<le> placed v + n1"
    "\<And>j. j < length ?cs \<Longrightarrow> child_progress (?cs ! j) (cs1 ! j) \<and> ch_escalations (cs1 ! j) \<le> ch_escalations (?cs ! j) \<and>
       (finished_child (?cs ! j) \<longrightarrow> cs1 ! j = ?cs ! j)"
    using one is1(2) by simp_all
  have s2: "length cs2 = length cs1" "int n2 \<le> max 0 (b_escalations ?b)" "placed v2 \<le> placed v1 + n2"
    "\<And>j. j < length cs1 \<Longrightarrow> child_progress (cs1 ! j) (cs2 ! j) \<and> ch_escalations (cs2 ! j) \<le> ch_escalations (cs1 ! j) + 1 \<and>
       (j \<notin> set ?is2 \<longrightarrow> cs2 ! j = cs1 ! j)"
    using escalating.loop_keeps[OF p(2) is2(1)] is2(2) by auto
  note s3 = reprice_stage_keeps[OF p(3)]
  have "child_progress (?cs ! j) (cs3 ! j) \<and> (finished_child (?cs ! j) \<longrightarrow> cs3 ! j = ?cs ! j) \<and>
      ch_escalations (cs3 ! j) \<le> max (ch_escalations (?cs ! j)) (escalation_cap pe)" if j: "j < length ?cs" for j
  proof -
    have fin: "\<not> child_working c" if "finished_child c" for c using that by (auto simp: finished_child_def child_working_def)
    have j1: "j < length cs1" "j < length cs2" using j s1(1) s2(1) by simp_all
    have "finished_child (?cs ! j) \<Longrightarrow> cs3 ! j = ?cs ! j"
      using s1(4)[OF j] s2(4)[OF j1(1)] is2(2)[of j] s3 j1(2) fin by metis
    moreover have "ch_escalations (cs2 ! j) \<le> max (ch_escalations (?cs ! j)) (escalation_cap pe)"
      using s1(4)[OF j] s2(4)[OF j1(1)] is2(2)[of j] by (cases "j \<in> set ?is2") auto
    ultimately show ?thesis using s1(4)[OF j] s2(4)[OF j1(1)] s3 j1(2) child_progress_trans
      by (meson order_trans)
  qed
  then show ?thesis using s1(1-3) s2(1-3) s3 unfolding p(4-7) by simp
qed

lemma pass_total:
  assumes rows: "\<forall>c\<in>set (pe_children pe). row_ok c"
  shows "\<exists>rep pe' v'. run_exit_pass env budget pe v = Inr (rep, pe', v') \<and> (\<forall>c\<in>set (pe_children pe'). row_ok c)"
proof (cases "pe_children pe = []")
  case True
  then show ?thesis by (simp add: run_exit_pass_def)
next
  case False
  let ?b = "budget_of budget"
  obtain l1 n1 cs1 v1 where 1: "pass_loop (submit_child_order env) (pick_children_to_submit pe (b_submits ?b)) (b_submits ?b) 0 (pe_children pe) v
      = Inr (l1, n1, cs1, v1)" "\<forall>c\<in>set cs1. row_ok c"
    using submitting.loop_total[OF rows] picked_to_submit(2) by blast
  have "\<forall>i\<in>set (pick_children_to_escalate (pe\<lparr>pe_children := cs1\<rparr>) (v_now env)). i < length cs1"
    using picked_to_escalate(2)[where pe = "pe\<lparr>pe_children := cs1\<rparr>"] by auto
  then obtain l2 n2 cs2 v2 where 2: "pass_loop (escalate_child_order env (x_escalation (pe_policy pe)))
       (pick_children_to_escalate (pe\<lparr>pe_children := cs1\<rparr>) (v_now env)) (b_escalations ?b) 0 cs1 v1 = Inr (l2, n2, cs2, v2)"
      "\<forall>c\<in>set cs2. row_ok c"
    using escalating.loop_total[OF 1(2)] by blast
  obtain l3 n3 cs3 v3 where 3: "reprice_stage env pe (b_reprices ?b) cs2 v2 = Inr (l3, n3, cs3, v3)" "\<forall>c\<in>set cs3. row_ok c"
    using reprice_stage_total[OF 2(2)] by blast
  show ?thesis using False 1(1) 2(1) 3 by (simp add: run_exit_pass_def Let_def)
qed

end

text \<open>Every venue meets the contract with a constant measure; the counting venue with its counter.\<close>

definition counting :: "'v pass_env \<Rightarrow> ('v \<times> nat) pass_env" where
  "counting env =
     \<lparr>v_token = v_token env, v_side = v_side env, v_min_usd = v_min_usd env,
      v_place = (\<lambda>q vn. let (r, v) = v_place env q (fst vn) in (r, (v, snd vn + 1))),
      v_cancel = (\<lambda>i vn. let (r, v) = v_cancel env i (fst vn) in (r, (v, snd vn))),
      v_mid = v_mid env, v_tick = v_tick env, v_now = v_now env\<rparr>"

interpretation any_venue: exit_venue env "\<lambda>_. 0" for env
  by unfold_locales simp_all

interpretation counted_venue: exit_venue "counting env" snd for env
  by unfold_locales (simp_all add: counting_def case_prod_unfold Let_def)

section \<open>Properties\<close>

definition filling_env :: "unit pass_env" where
  "filling_env = \<lparr>v_token = ''t'', v_side = ''SELL'', v_min_usd = 1,
     v_place = (\<lambda>q v. (Inr \<lparr>rp_status = Some ''executed'', rp_order_id = Some ''o'', rp_clob_id = None, rp_filled = Some (q_size q),
        rp_avg = Some (q_price q), rp_error = None\<rparr>, v)),
     v_cancel = (\<lambda>i v. (Inr True, v)), v_mid = None, v_tick = default_tick_size, v_now = 10000000\<rparr>"

definition half_filled_child :: child_record where
  "half_filled_child = (child_plan_to_record ''e'' \<lparr>cp_index = 0, cp_price = 1 / 2, cp_size = 10, cp_tif = ''GTC'', cp_post_only = True, cp_bucket = 0\<rparr>)
     \<lparr>ch_status := ''partial'', ch_filled := Some 4, ch_submitted_at := Some 0\<rparr>"

definition escalating_exit :: pending_exit where
  "escalating_exit = \<lparr>pe_target = Some 10, pe_trigger = Some (1 / 2), pe_children = [half_filled_child],
     pe_policy = default_policy\<lparr>x_escalation := Some \<lparr>es_after_seconds = 5, es_action = ''marketable_ioc'', es_widen_bps = None,
        es_max_escalations = 1\<rparr>\<rparr>, pe_totals = None, pe_last_pass_at = None, pe_last_report = None\<rparr>"

lemma escalating_rows: "\<forall>c\<in>set (pe_children escalating_exit). row_ok c"
  by (simp add: escalating_exit_def half_filled_child_def row_ok_def child_plan_to_record_def)

text \<open>
  C4: A venue cannot crash an exit pass: from rows as the planner writes them every pass returns, whatever the order and
  cancel callables answer and whichever of them raise, and the rows it leaves are well-formed again.
\<close>

theorem exit_pass_never_raises:
  assumes "\<forall>c\<in>set (pe_children pe). row_ok c"
  shows "\<exists>rep pe' v'. run_exit_pass env budget pe v = Inr (rep, pe', v') \<and> (\<forall>c\<in>set (pe_children pe'). row_ok c)"
  by (rule any_venue.pass_total[OF assms])

theorem exit_pass_never_raises_witness:
  "\<exists>rep pe' v'. run_exit_pass (filling_env\<lparr>v_place := \<lambda>q v. (Inl ''TimeoutError: timed out'', v)\<rparr>) None escalating_exit () = Inr (rep, pe', v')"
  using exit_pass_never_raises[OF escalating_rows, where env = "filling_env\<lparr>v_place := \<lambda>q v. (Inl ''TimeoutError: timed out'', v)\<rparr>"
      and budget = None and v = "()"] by blast



text \<open>
  C6: A pass never loses track of a child: no child is added or dropped, each keeps its id and size, its recorded fill only
  grows, a filled, cancelled or failed child is left exactly as it was, and no child is escalated more often than the
  policy allows.
\<close>

theorem exit_pass_respects_children:
  assumes "run_exit_pass env budget pe v = Inr (rep, pe', v')" and "j < length (pe_children pe)"
  shows "length (pe_children pe') = length (pe_children pe) \<and> child_progress (pe_children pe ! j) (pe_children pe' ! j) \<and>
    (finished_child (pe_children pe ! j) \<longrightarrow> pe_children pe' ! j = pe_children pe ! j) \<and>
    ch_escalations (pe_children pe' ! j) \<le> max (ch_escalations (pe_children pe ! j)) (escalation_cap pe)"
  using any_venue.pass_keeps[OF assms(1)] assms(2) by blast

theorem exit_pass_respects_children_witness:
  "\<exists>rep pe' v'. run_exit_pass filling_env None escalating_exit () = Inr (rep, pe', v') \<and> child_fill (pe_children pe' ! 0) \<ge> 4 \<and>
     ch_escalations (pe_children pe' ! 0) \<le> 1"
proof -
  obtain rep pe' v' where r: "run_exit_pass filling_env None escalating_exit () = Inr (rep, pe', v')"
    using any_venue.pass_total[OF escalating_rows, where env = filling_env and budget = None and v = "()"] by blast
  have "0 < length (pe_children escalating_exit)" by (simp add: escalating_exit_def)
  from exit_pass_respects_children[OF r this] r show ?thesis
    by (auto simp: escalating_exit_def child_progress_def half_filled_child_def child_fill_def escalation_cap_def child_plan_to_record_def)
qed


end
