(* ===== verification/Validation.thy ===== *)
theory Validation
  imports Metrics
begin

text \<open>
  Out-of-sample validation of \<open>services/backtest/walk_forward.py\<close> and \<open>services/backtest/cpcv.py\<close>: the window
  geometry of walk-forward analysis and of combinatorial purged cross-validation, the runs over the windows and their
  summaries.

  The backtest of one window, \<open>run_execution_backtest\<close>, is an argument: a function of the window that may raise.
  Its result is read through the fields the code reads. ISO renderings of times are kept as the times themselves, and
  the concurrent runs, which share nothing and are gathered in order, are a map.
\<close>

definition timedelta_seconds :: "pyfloat \<Rightarrow> int" where
  "timedelta_seconds s = round_half_even (s * 1000000)"

section \<open>Walk-forward windows\<close>

record wf_config =
  wf_mode :: string
  wf_n_folds :: int
  wf_train_ratio :: pyfloat
  wf_embargo :: pyfloat

definition default_wf_config :: wf_config where
  "default_wf_config = \<lparr>wf_mode = ''rolling'', wf_n_folds = 5, wf_train_ratio = 7 / 10, wf_embargo = 0\<rparr>"

record wf_window =
  ww_index :: nat
  ww_train_start :: timestamp
  ww_train_end :: timestamp
  ww_test_start :: timestamp
  ww_test_end :: timestamp

text \<open>One fold: the test window follows the training end after the embargo, clipped at the period's end.\<close>

definition fold_window :: "timestamp \<Rightarrow> int \<Rightarrow> int \<Rightarrow> nat \<Rightarrow> timestamp \<Rightarrow> timestamp \<Rightarrow> wf_window option" where
  "fold_window period_end embargo test_w i train_start train_end =
     (let test_start = train_end + embargo; test_end = min (test_start + test_w) period_end
      in if test_start \<ge> test_end then None
         else Some \<lparr>ww_index = i, ww_train_start = train_start, ww_train_end = train_end, ww_test_start = test_start,
                ww_test_end = test_end\<rparr>)"

definition rolling_windows :: "timestamp \<Rightarrow> timestamp \<Rightarrow> nat \<Rightarrow> int \<Rightarrow> wf_window list" where
  "rolling_windows start period_end n embargo =
     (let fold_w = round_half_even (of_int (period_end - start) / real (n + 1))
      in List.map_filter (\<lambda>i. let train_start = start + fold_w * int i
           in fold_window period_end embargo fold_w i train_start (train_start + fold_w)) [0..<n])"

definition anchored_windows :: "timestamp \<Rightarrow> timestamp \<Rightarrow> nat \<Rightarrow> pyfloat \<Rightarrow> int \<Rightarrow> wf_window list" where
  "anchored_windows start period_end n train_ratio embargo =
     (let tot = period_end - start; ratio = max (1 / 10) (min (95 / 100) train_ratio);
          initial_train = round_half_even (of_int tot * ratio); remaining = tot - initial_train - embargo
      in if total_seconds remaining \<le> 0 then []
         else let test_w = round_half_even (of_int remaining / real n)
              in List.map_filter (\<lambda>i. fold_window period_end embargo test_w i start (start + initial_train + test_w * int i)) [0..<n])"

definition walk_forward_split :: "timestamp \<Rightarrow> timestamp \<Rightarrow> wf_config option \<Rightarrow> py_error + wf_window list" where
  "walk_forward_split start period_end config =
     (let cfg = (case config of None \<Rightarrow> default_wf_config | Some c \<Rightarrow> c) in
      if period_end \<le> start then raise (ValueError ''invalid range'')
      else let n = nat (max 1 (wf_n_folds cfg)); embargo = timedelta_seconds (max 0 (wf_embargo cfg))
           in if wf_mode cfg = ''anchored'' then ok (anchored_windows start period_end n (wf_train_ratio cfg) embargo)
              else ok (rolling_windows start period_end n embargo))"

section \<open>Walk-forward runs\<close>

record exec_result =
  er_success :: bool
  er_error :: "string option"
  er_intents :: int
  er_trades :: int
  er_fills :: int
  er_rejected :: int
  er_cancelled :: int
  er_initial :: pyfloat
  er_final :: pyfloat
  er_return_pct :: pyfloat
  er_sharpe :: "pyfloat option"
  er_sortino :: "pyfloat option"
  er_hit_rate :: "pyfloat option"
  er_curve :: curve

type_synonym exec_fn = "timestamp \<Rightarrow> timestamp \<Rightarrow> string + exec_result"

record wf_run_window =
  rw_window :: wf_window
  rw_result :: exec_result

definition failed_result :: "pyfloat \<Rightarrow> string \<Rightarrow> exec_result" where
  "failed_result initial msg =
     \<lparr>er_success = False, er_error = Some msg, er_intents = 0, er_trades = 0, er_fills = 0, er_rejected = 0, er_cancelled = 0,
      er_initial = initial, er_final = 0, er_return_pct = 0, er_sharpe = None, er_sortino = None, er_hit_rate = None, er_curve = []\<rparr>"

definition run_fold :: "exec_fn \<Rightarrow> pyfloat \<Rightarrow> wf_window \<Rightarrow> wf_run_window" where
  "run_fold exec initial w =
     \<lparr>rw_window = w, rw_result = (case exec (ww_test_start w) (ww_test_end w) of Inr r \<Rightarrow> r | Inl msg \<Rightarrow> failed_result initial msg)\<rparr>"

definition mean_opt :: "pyfloat list \<Rightarrow> pyfloat option" where
  "mean_opt xs = (if xs = [] then None else Some (sum_list xs / real (length xs)))"

definition min_opt :: "pyfloat list \<Rightarrow> pyfloat option" where "min_opt xs = (if xs = [] then None else Some (Min (set xs)))"
definition max_opt :: "pyfloat list \<Rightarrow> pyfloat option" where "max_opt xs = (if xs = [] then None else Some (Max (set xs)))"

definition stable_pct :: "pyfloat list \<Rightarrow> pyfloat" where
  "stable_pct rets = (if rets = [] then 0 else real (length (filter (\<lambda>r. r \<ge> 0) rets)) / real (length rets) * 100)"

record wf_summary =
  ws_run :: nat
  ws_succeeded :: nat
  ws_mean_return :: pyfloat
  ws_min_return :: pyfloat
  ws_max_return :: pyfloat
  ws_stable_pct :: pyfloat
  ws_mean_sharpe :: "pyfloat option"
  ws_min_sharpe :: "pyfloat option"
  ws_max_sharpe :: "pyfloat option"

definition zero_default :: "pyfloat option \<Rightarrow> pyfloat" where
  "zero_default x = (case x of None \<Rightarrow> 0 | Some v \<Rightarrow> v)"

definition wf_summarize :: "exec_result list \<Rightarrow> wf_summary" where
  "wf_summarize rs =
     (let rets = map er_return_pct (filter er_success rs); sharpes = List.map_filter er_sharpe rs
      in \<lparr>ws_run = length rs, ws_succeeded = length (filter er_success rs), ws_mean_return = zero_default (mean_opt rets),
          ws_min_return = zero_default (min_opt rets), ws_max_return = zero_default (max_opt rets), ws_stable_pct = stable_pct rets,
          ws_mean_sharpe = mean_opt sharpes, ws_min_sharpe = min_opt sharpes, ws_max_sharpe = max_opt sharpes\<rparr>)"

definition run_walk_forward ::
    "exec_fn \<Rightarrow> timestamp \<Rightarrow> timestamp \<Rightarrow> pyfloat \<Rightarrow> wf_config \<Rightarrow> py_error + (wf_run_window list \<times> wf_summary)" where
  "run_walk_forward exec start period_end initial cfg =
     (case walk_forward_split start period_end (Some cfg) of
        Inl e \<Rightarrow> Inl e
      | Inr ws \<Rightarrow> let done_ws = map (run_fold exec initial) ws in ok (done_ws, wf_summarize (map rw_result done_ws)))"

text \<open>The aggregate of a metric over the folds: the mean with the extremes as its band.\<close>

definition aggregate_test_metric :: "pyfloat list \<Rightarrow> metric_ci" where
  "aggregate_test_metric vs = (if vs = [] then (0, None) else (sum_list vs / real (length vs), Some (Min (set vs), Max (set vs))))"

section \<open>Combinatorial purged cross-validation\<close>

record cpcv_fold =
  cf_index :: nat
  cf_start :: timestamp
  cf_end :: timestamp

definition build_folds :: "timestamp \<Rightarrow> timestamp \<Rightarrow> nat \<Rightarrow> cpcv_fold list" where
  "build_folds start period_end n =
     (let tot = max 1 (total_seconds (period_end - start)); fold_seconds = tot / real n
      in map (\<lambda>i. \<lparr>cf_index = i, cf_start = start + timedelta_seconds (real i * fold_seconds),
                cf_end = start + timedelta_seconds (real (i + 1) * fold_seconds)\<rparr>) [0..<n])"

definition test_fold_windows :: "cpcv_fold list \<Rightarrow> nat list \<Rightarrow> pyfloat \<Rightarrow> (timestamp \<times> timestamp) list" where
  "test_fold_windows folds idx embargo =
     (let emb = timedelta_seconds (max 0 embargo) in
      List.map_filter (\<lambda>i. let f = folds ! i; s = (if i > 0 then cf_start f + emb else cf_start f)
        in if s < cf_end f then Some (s, cf_end f) else None) (sort (remdups idx)))"

text \<open>\<open>itertools.combinations\<close>, in its order.\<close>

fun combinations :: "nat list \<Rightarrow> nat \<Rightarrow> nat list list" where
  "combinations xs 0 = [[]]"
| "combinations [] (Suc k) = []"
| "combinations (x # xs) (Suc k) = map ((#) x) (combinations xs k) @ combinations xs (Suc k)"

definition cpcv_paths :: "nat \<Rightarrow> nat \<Rightarrow> nat \<Rightarrow> nat list list" where
  "cpcv_paths n k max_paths =
     (let cs = combinations [0..<n] k in
      if length cs > max_paths
      then map (\<lambda>i. cs ! nat \<lfloor>real i * (real (length cs) / real max_paths)\<rfloor>) [0..<max_paths]
      else cs)"

record cpcv_path =
  cp_path_index :: nat
  cp_folds :: "nat list"
  cp_window :: "(timestamp \<times> timestamp) option"
  cp_intents :: int
  cp_trades :: int
  cp_fills :: int
  cp_success :: bool
  cp_error :: "string option"
  cp_return_pct :: pyfloat
  cp_sharpe :: "pyfloat option"
  cp_sortino :: "pyfloat option"
  cp_drawdown_pct :: pyfloat

text \<open>Accumulated over the windows of a path: returns, annualisation, counts, success and the first error.\<close>

record path_acc =
  pa_pooled :: "pyfloat list"
  pa_ppy :: "int option"
  pa_counts :: "int \<times> int \<times> int"
  pa_ok :: bool
  pa_err :: "string option"

definition or_else :: "string option \<Rightarrow> string option \<Rightarrow> string option" where
  "or_else a b = (case a of None \<Rightarrow> b | Some s \<Rightarrow> if s = [] then b else Some s)"

definition path_window :: "exec_fn \<Rightarrow> path_acc \<Rightarrow> timestamp \<times> timestamp \<Rightarrow> path_acc" where
  "path_window exec a w =
     (case exec (fst w) (snd w) of
        Inl msg \<Rightarrow> a\<lparr>pa_ok := False, pa_err := Some msg\<rparr>
      | Inr r \<Rightarrow>
          let (ni, nt, nf) = pa_counts a;
              a1 = a\<lparr>pa_counts := (ni + er_intents r, nt + er_trades r, nf + er_fills r)\<rparr>;
              a2 = (if er_success r then a1 else a1\<lparr>pa_ok := False, pa_err := or_else (pa_err a1) (er_error r)\<rparr>)
          in if length (er_curve r) \<ge> 3 then
               let fold_ppy = infer_periods_per_year (er_curve r)
               in a2\<lparr>pa_ppy := Some (case pa_ppy a2 of None \<Rightarrow> fold_ppy | Some p \<Rightarrow> max p fold_ppy),
                     pa_pooled := pa_pooled a2 @ resample_equity_returns (er_curve r) (ann_calendar_seconds / of_int (max 1 fold_ppy)) default_max_bars\<rparr>
             else a2)"

text \<open>Growth, peak and worst relative fall over the pooled returns.\<close>

fun pooled_drawdown :: "pyfloat \<times> pyfloat \<times> pyfloat \<Rightarrow> pyfloat list \<Rightarrow> pyfloat \<times> pyfloat \<times> pyfloat" where
  "pooled_drawdown acc [] = acc"
| "pooled_drawdown (growth, peak, worst) (r # rs) =
     (let growth' = growth * (1 + r); peak' = max peak growth'
      in pooled_drawdown (growth', peak', if peak' > 0 then max worst ((peak' - growth') / peak') else worst) rs)"

definition run_path :: "exec_fn \<Rightarrow> cpcv_fold list \<Rightarrow> pyfloat \<Rightarrow> nat \<Rightarrow> nat list \<Rightarrow> cpcv_path" where
  "run_path exec folds embargo i idx =
     (let ws = test_fold_windows folds idx embargo; ids = sort (remdups idx) in
      if ws = [] then
        \<lparr>cp_path_index = i, cp_folds = ids, cp_window = None, cp_intents = 0, cp_trades = 0, cp_fills = 0, cp_success = False,
         cp_error = Some ''no test window after embargo'', cp_return_pct = 0, cp_sharpe = None, cp_sortino = None, cp_drawdown_pct = 0\<rparr>
      else
        let a = foldl (path_window exec) \<lparr>pa_pooled = [], pa_ppy = None, pa_counts = (0, 0, 0), pa_ok = True, pa_err = None\<rparr> ws;
            (ni, nt, nf) = pa_counts a;
            (growth, peak, worst) = pooled_drawdown (1, 1, 0) (pa_pooled a);
            measured = (pa_pooled a \<noteq> [] \<and> pa_ppy a \<noteq> None \<and> pa_ppy a \<noteq> Some 0)
        in \<lparr>cp_path_index = i, cp_folds = ids, cp_window = Some (fst (hd ws), snd (last ws)), cp_intents = ni, cp_trades = nt, cp_fills = nf,
            cp_success = pa_ok a, cp_error = pa_err a,
            cp_return_pct = (if measured then (growth - 1) * 100 else 0),
            cp_sharpe = (if measured then map_option (sharpe_of_returns (pa_pooled a)) (pa_ppy a) else None),
            cp_sortino = (if measured then map_option (sortino_of_returns (pa_pooled a)) (pa_ppy a) else None),
            cp_drawdown_pct = (if measured then worst * 100 else 0)\<rparr>)"

definition pct_opt :: "pyfloat list \<Rightarrow> pyfloat \<Rightarrow> pyfloat option" where
  "pct_opt xs q =
     (if xs = [] then None
      else Some (sort xs ! nat (max 0 (min (int (length xs) - 1) (round_half_even (q * (real (length xs) - 1)))))))"

record cpcv_summary =
  cs_run :: nat
  cs_succeeded :: nat
  cs_sharpe_mean :: "pyfloat option"
  cs_sharpe_median :: "pyfloat option"
  cs_sharpe_p10 :: "pyfloat option"
  cs_sharpe_p90 :: "pyfloat option"
  cs_sharpe_min :: "pyfloat option"
  cs_sharpe_max :: "pyfloat option"
  cs_return_mean :: "pyfloat option"
  cs_return_min :: "pyfloat option"
  cs_return_max :: "pyfloat option"
  cs_dd_mean :: "pyfloat option"
  cs_dd_worst :: "pyfloat option"
  cs_negative_sharpe :: "pyfloat option"
  cs_stable_pct :: pyfloat

definition summarize_paths :: "cpcv_path list \<Rightarrow> cpcv_summary" where
  "summarize_paths ps =
     (let good = filter cp_success ps; sharpes = List.map_filter cp_sharpe good; rets = map cp_return_pct good; dd = map cp_drawdown_pct good
      in \<lparr>cs_run = length ps, cs_succeeded = length good, cs_sharpe_mean = mean_opt sharpes, cs_sharpe_median = pct_opt sharpes (1 / 2),
          cs_sharpe_p10 = pct_opt sharpes (1 / 10), cs_sharpe_p90 = pct_opt sharpes (9 / 10), cs_sharpe_min = min_opt sharpes,
          cs_sharpe_max = max_opt sharpes, cs_return_mean = mean_opt rets, cs_return_min = min_opt rets, cs_return_max = max_opt rets,
          cs_dd_mean = mean_opt dd, cs_dd_worst = max_opt dd,
          cs_negative_sharpe = (if sharpes = [] then None else Some (real (length (filter (\<lambda>s. s < 0) sharpes)) / real (length sharpes))),
          cs_stable_pct = stable_pct rets\<rparr>)"

definition run_cpcv :: "exec_fn \<Rightarrow> timestamp \<Rightarrow> timestamp \<Rightarrow> int \<Rightarrow> int \<Rightarrow> pyfloat \<Rightarrow> nat \<Rightarrow> cpcv_path list \<times> cpcv_summary" where
  "run_cpcv exec start period_end n_folds k_test embargo max_paths =
     (let n = nat (max 2 n_folds); k = nat (max 1 (min (int n - 1) k_test)); folds = build_folds start period_end n;
          paths = map (\<lambda>(i, idx). run_path exec folds embargo i idx) (enumerate 0 (cpcv_paths n k max_paths))
      in (paths, summarize_paths paths))"

section \<open>No look-ahead\<close>

lemma map_filter_Cons: "List.map_filter f (x # xs) = (case f x of None \<Rightarrow> [] | Some y \<Rightarrow> [y]) @ List.map_filter f xs"
  by (simp add: List.map_filter_def split: option.split)

lemma map_filter_mem: "y \<in> set (List.map_filter f xs) \<longleftrightarrow> (\<exists>x\<in>set xs. f x = Some y)"
  by (induction xs) (auto simp: map_filter_Cons List.map_filter_def split: option.split)

lemma map_filter_chain:
  assumes "sorted_wrt (<) xs"
    and "\<And>i k a b. i \<in> set xs \<Longrightarrow> k \<in> set xs \<Longrightarrow> i < k \<Longrightarrow> f i = Some a \<Longrightarrow> f k = Some b \<Longrightarrow> P a b"
  shows "sorted_wrt P (List.map_filter f xs)"
  using assms
proof (induction xs)
  case (Cons x xs)
  have ih: "sorted_wrt P (List.map_filter f xs)" by (rule Cons.IH) (use Cons.prems in auto)
  have "P a b" if fx: "f x = Some a" and b: "b \<in> set (List.map_filter f xs)" for a b
  proof -
    obtain y where y: "y \<in> set xs" "f y = Some b" using b unfolding map_filter_mem by blast
    show ?thesis by (rule Cons.prems(2)[OF _ _ _ fx y(2)]) (use Cons.prems(1) y(1) in auto)
  qed
  then show ?case using ih by (auto simp: map_filter_Cons split: option.split)
qed (simp add: List.map_filter_def)

lemma round_half_even_nonneg: "0 \<le> x \<Longrightarrow> 0 \<le> round_half_even x"
  using round_half_even_error[of x] by linarith

definition follows :: "wf_window \<Rightarrow> wf_window \<Rightarrow> bool" where
  "follows w w' \<longleftrightarrow> ww_test_end w \<le> ww_test_start w' \<and> ww_index w < ww_index w'"

definition window_ok :: "timestamp \<Rightarrow> timestamp \<Rightarrow> int \<Rightarrow> wf_window \<Rightarrow> bool" where
  "window_ok start period_end embargo w \<longleftrightarrow> start \<le> ww_train_start w \<and> ww_train_start w \<le> ww_train_end w \<and>
     ww_test_start w = ww_train_end w + embargo \<and> ww_test_start w < ww_test_end w \<and> ww_test_end w \<le> period_end"

text \<open>
  The contract of a walk-forward geometry: training starts inside the period and ends at an edge; each fold's edge lies
  at least one test width behind the next one's.
\<close>

locale fold_geometry =
  fixes start period_end embargo test_w :: int and train_start edge :: "nat \<Rightarrow> int"
  assumes train_inside: "start \<le> train_start i \<and> train_start i \<le> edge i"
    and edges_apart: "i < k \<Longrightarrow> edge i + test_w \<le> edge k"
begin

lemma windows_chronological:
  "sorted_wrt follows (List.map_filter (\<lambda>i. fold_window period_end embargo test_w i (train_start i) (edge i)) [0..<n])"
proof (rule map_filter_chain)
  fix i k a b assume "i < k" "fold_window period_end embargo test_w i (train_start i) (edge i) = Some a"
    "fold_window period_end embargo test_w k (train_start k) (edge k) = Some b"
  then show "follows a b" using edges_apart[of i k] by (auto simp: fold_window_def Let_def follows_def split: if_splits)
qed simp

lemma windows_ok:
  "w \<in> set (List.map_filter (\<lambda>i. fold_window period_end embargo test_w i (train_start i) (edge i)) [0..<n]) \<Longrightarrow>
   window_ok start period_end embargo w"
  using train_inside unfolding map_filter_mem by (auto simp: fold_window_def Let_def window_ok_def split: if_splits)

end

text \<open>The two modes are instances: sliding training windows of one width, and training from the period's start.\<close>

interpretation rolling: fold_geometry start period_end embargo "max 0 fold_w" "\<lambda>i. start + max 0 fold_w * int i"
    "\<lambda>i. start + max 0 fold_w * int i + max 0 fold_w" for start period_end embargo fold_w
proof unfold_locales
  fix i k :: nat assume "i < k"
  then have "max 0 fold_w * (int i + 1) \<le> max 0 fold_w * int k" by (intro mult_left_mono) auto
  then show "start + max 0 fold_w * int i + max 0 fold_w + max 0 fold_w \<le> start + max 0 fold_w * int k + max 0 fold_w"
    by (simp add: algebra_simps)
qed simp

interpretation anchored: fold_geometry start period_end embargo "max 0 test_w" "\<lambda>i. start"
    "\<lambda>i. start + max 0 train + max 0 test_w * int i" for start period_end embargo test_w train
proof unfold_locales
  fix i k :: nat assume "i < k"
  then have "max 0 test_w * (int i + 1) \<le> max 0 test_w * int k" by (intro mult_left_mono) auto
  then show "start + max 0 train + max 0 test_w * int i + max 0 test_w \<le> start + max 0 train + max 0 test_w * int k"
    by (simp add: algebra_simps)
qed simp

lemma rolling_facts:
  assumes "start < period_end"
  shows "sorted_wrt follows (rolling_windows start period_end n embargo)"
    "w \<in> set (rolling_windows start period_end n embargo) \<Longrightarrow> window_ok start period_end embargo w"
proof -
  let ?f = "round_half_even (of_int (period_end - start) / real (n + 1))"
  have "0 \<le> ?f" using assms by (intro round_half_even_nonneg) simp
  then have eq: "rolling_windows start period_end n embargo = List.map_filter (\<lambda>i. fold_window period_end embargo (max 0 ?f) i
      (start + max 0 ?f * int i) (start + max 0 ?f * int i + max 0 ?f)) [0..<n]"
    by (simp add: rolling_windows_def Let_def max_def)
  show "sorted_wrt follows (rolling_windows start period_end n embargo)"
    "w \<in> set (rolling_windows start period_end n embargo) \<Longrightarrow> window_ok start period_end embargo w"
    unfolding eq by (rule rolling.windows_chronological, rule rolling.windows_ok)
qed

lemma anchored_facts:
  assumes "start < period_end"
  shows "sorted_wrt follows (anchored_windows start period_end n ratio embargo)"
    "w \<in> set (anchored_windows start period_end n ratio embargo) \<Longrightarrow> window_ok start period_end embargo w"
proof -
  let ?tr = "round_half_even (of_int (period_end - start) * max (1 / 10) (min (95 / 100) ratio))"
  let ?rem = "period_end - start - ?tr - embargo" let ?tw = "round_half_even (of_int ?rem / real n)"
  have tr: "max 0 ?tr = ?tr" using assms by (intro max_absorb2 round_half_even_nonneg) simp
  show "sorted_wrt follows (anchored_windows start period_end n ratio embargo)"
    "w \<in> set (anchored_windows start period_end n ratio embargo) \<Longrightarrow> window_ok start period_end embargo w"
  proof (atomize (full), cases "total_seconds ?rem \<le> 0")
    case True
    then show "sorted_wrt follows (anchored_windows start period_end n ratio embargo) \<and>
      (w \<in> set (anchored_windows start period_end n ratio embargo) \<longrightarrow> window_ok start period_end embargo w)"
      by (simp add: anchored_windows_def Let_def)
  next
    case False
    then have "0 \<le> ?tw" by (intro round_half_even_nonneg) (simp add: total_seconds_def)
    then have tw: "max 0 ?tw = ?tw" by simp
    have eq: "anchored_windows start period_end n ratio embargo =
        List.map_filter (\<lambda>i. fold_window period_end embargo (max 0 ?tw) i start (start + max 0 ?tr + max 0 ?tw * int i)) [0..<n]"
      unfolding anchored_windows_def Let_def if_not_P[OF False] tr tw by (rule refl)
    show "sorted_wrt follows (anchored_windows start period_end n ratio embargo) \<and>
      (w \<in> set (anchored_windows start period_end n ratio embargo) \<longrightarrow> window_ok start period_end embargo w)"
      unfolding eq using anchored.windows_chronological anchored.windows_ok by blast
  qed
qed

text \<open>
  C31: Walk-forward windows never look ahead: an inverted period is refused; otherwise every fold trains inside the period,
  tests exactly the embargo after its training end and not past the period's end, and the folds come in chronological order
  with test windows that do not overlap.
\<close>

theorem walk_forward_no_lookahead:
  "(period_end \<le> start \<longrightarrow> walk_forward_split start period_end (Some cfg) = raise (ValueError ''invalid range'')) \<and>
   (start < period_end \<longrightarrow> (\<exists>ws. walk_forward_split start period_end (Some cfg) = ok ws \<and> sorted_wrt follows ws \<and>
      (\<forall>w\<in>set ws. window_ok start period_end (timedelta_seconds (max 0 (wf_embargo cfg))) w)))"
  using rolling_facts anchored_facts by (auto simp: walk_forward_split_def Let_def)

theorem walk_forward_no_lookahead_witness:
  "\<exists>ws. walk_forward_split 0 86400000000 (Some default_wf_config) = ok ws \<and> sorted_wrt follows ws"
  using walk_forward_no_lookahead[of 86400000000 0 default_wf_config] by auto

section \<open>No leak between folds\<close>

lemma timedelta_seconds_mono: "x \<le> y \<Longrightarrow> timedelta_seconds x \<le> timedelta_seconds y"
  unfolding timedelta_seconds_def by (rule round_half_even_mono) simp

lemma build_folds_facts:
  assumes "i < n"
  shows "length (build_folds start period_end n) = n" "cf_start (build_folds start period_end n ! i) \<le> cf_end (build_folds start period_end n ! i)"
    "i < k \<Longrightarrow> k < n \<Longrightarrow> cf_end (build_folds start period_end n ! i) \<le> cf_start (build_folds start period_end n ! k)"
    "i + 1 < n \<Longrightarrow> cf_start (build_folds start period_end n ! (i + 1)) = cf_end (build_folds start period_end n ! i)"
proof -
  let ?w = "max 1 (total_seconds (period_end - start)) / real n"
  have w: "0 \<le> ?w" by simp
  have m: "timedelta_seconds (real a * ?w) \<le> timedelta_seconds (real b * ?w)" if "a \<le> b" for a b
    by (rule timedelta_seconds_mono) (intro mult_right_mono w, use that in simp)
  show "length (build_folds start period_end n) = n" by (simp add: build_folds_def Let_def)
  show "cf_start (build_folds start period_end n ! i) \<le> cf_end (build_folds start period_end n ! i)"
    using assms m[of i "i + 1"] by (simp add: build_folds_def Let_def)
  show "i < k \<Longrightarrow> k < n \<Longrightarrow> cf_end (build_folds start period_end n ! i) \<le> cf_start (build_folds start period_end n ! k)"
    using assms m[of "i + 1" k] by (simp add: build_folds_def Let_def)
  show "i + 1 < n \<Longrightarrow> cf_start (build_folds start period_end n ! (i + 1)) = cf_end (build_folds start period_end n ! i)"
    using assms by (simp add: build_folds_def Let_def)
qed

lemma timedelta_seconds_nonneg: "0 \<le> timedelta_seconds (max 0 e)"
  unfolding timedelta_seconds_def by (rule round_half_even_nonneg) simp

lemma test_window_fold:
  "w \<in> set (test_fold_windows folds idx e) \<Longrightarrow> \<exists>i\<in>set idx. cf_start (folds ! i) \<le> fst w \<and> snd w = cf_end (folds ! i) \<and> fst w < snd w \<and>
     (0 < i \<longrightarrow> fst w = cf_start (folds ! i) + timedelta_seconds (max 0 e))"
  unfolding test_fold_windows_def Let_def map_filter_mem
proof (elim bexE)
  fix i assume "i \<in> set (sort (remdups idx))" and "(if (if 0 < i then cf_start (folds ! i) + timedelta_seconds (max 0 e) else cf_start (folds ! i)) < cf_end (folds ! i)
      then Some (if 0 < i then cf_start (folds ! i) + timedelta_seconds (max 0 e) else cf_start (folds ! i), cf_end (folds ! i)) else None) = Some w"
  then show ?thesis using timedelta_seconds_nonneg[of e] by (intro bexI[of _ i]) (auto split: if_splits)
qed

text \<open>
  C32: Purged cross-validation leaks no fold into a test: the windows run for a set of test folds are disjoint and in time
  order, each ends with its own fold and starts at least the embargo after it (the first fold has nothing before it to
  purge), and none overlaps a fold that was not selected.
\<close>

theorem cpcv_windows_do_not_leak:
  assumes idx: "\<forall>i\<in>set idx. i < n" and ws: "ws = test_fold_windows (build_folds start period_end n) idx e"
  shows "sorted_wrt (\<lambda>w w'. snd w \<le> fst w') ws \<and>
    (\<forall>w\<in>set ws. fst w < snd w \<and> (\<exists>i\<in>set idx. cf_start (build_folds start period_end n ! i) \<le> fst w \<and>
        snd w = cf_end (build_folds start period_end n ! i) \<and>
        (0 < i \<longrightarrow> fst w = cf_start (build_folds start period_end n ! i) + timedelta_seconds (max 0 e))) \<and>
      (\<forall>j<n. j \<notin> set idx \<longrightarrow> snd w \<le> cf_start (build_folds start period_end n ! j) \<or> cf_end (build_folds start period_end n ! j) \<le> fst w))"
proof (intro conjI ballI)
  let ?fs = "build_folds start period_end n"
  have ix: "sorted_wrt (<) (sort (remdups idx))" by (simp add: strict_sorted_iff)
  show "sorted_wrt (\<lambda>w w'. snd w \<le> fst w') ws" unfolding ws test_fold_windows_def Let_def
  proof (rule map_filter_chain[OF ix])
    fix i k a b assume i: "i \<in> set (sort (remdups idx))" "k \<in> set (sort (remdups idx))" "i < k"
      and ab: "(if (if 0 < i then cf_start (?fs ! i) + timedelta_seconds (max 0 e) else cf_start (?fs ! i)) < cf_end (?fs ! i)
          then Some (if 0 < i then cf_start (?fs ! i) + timedelta_seconds (max 0 e) else cf_start (?fs ! i), cf_end (?fs ! i)) else None) = Some a"
        "(if (if 0 < k then cf_start (?fs ! k) + timedelta_seconds (max 0 e) else cf_start (?fs ! k)) < cf_end (?fs ! k)
          then Some (if 0 < k then cf_start (?fs ! k) + timedelta_seconds (max 0 e) else cf_start (?fs ! k), cf_end (?fs ! k)) else None) = Some b"
    have "i < n" "k < n" using i idx by auto
    then show "snd a \<le> fst b" using build_folds_facts(3)[of i n k start period_end] i(3) ab timedelta_seconds_nonneg[of e]
      by (auto split: if_splits)
  qed
  fix w assume "w \<in> set ws"
  then obtain i where i: "i \<in> set idx" "cf_start (?fs ! i) \<le> fst w" "snd w = cf_end (?fs ! i)" "fst w < snd w"
    "0 < i \<longrightarrow> fst w = cf_start (?fs ! i) + timedelta_seconds (max 0 e)"
    using test_window_fold unfolding ws by blast
  then show "fst w < snd w" "\<exists>i\<in>set idx. cf_start (?fs ! i) \<le> fst w \<and> snd w = cf_end (?fs ! i) \<and>
        (0 < i \<longrightarrow> fst w = cf_start (?fs ! i) + timedelta_seconds (max 0 e))" by blast+
  have "i < n" using i(1) idx by blast
  show "\<forall>j<n. j \<notin> set idx \<longrightarrow> snd w \<le> cf_start (?fs ! j) \<or> cf_end (?fs ! j) \<le> fst w"
  proof (intro allI impI)
    fix j assume j: "j < n" "j \<notin> set idx"
    then have "i < j \<or> j < i" using i(1) by (metis linorder_neqE_nat)
    then show "snd w \<le> cf_start (?fs ! j) \<or> cf_end (?fs ! j) \<le> fst w"
      using build_folds_facts(3)[of i n j start period_end] build_folds_facts(3)[of j n i start period_end] \<open>i < n\<close> j(1) i(2,3) by auto
  qed
qed

theorem cpcv_windows_do_not_leak_witness:
  "sorted_wrt (\<lambda>w w'. snd w \<le> fst w') (test_fold_windows (build_folds 0 86400000000 6) [4, 1] 3600)"
  using cpcv_windows_do_not_leak[of "[4, 1]" 6 _ 0 86400000000 3600, OF _ refl] by auto

end
