(* ===== verification/Fifo.thy ===== *)
theory Fifo
  imports Book
begin

text \<open>
  First-in-first-out profit and loss, \<open>utils/fifo_pnl.py\<close>: buys queue up as open lots, each sell closes the oldest
  lots first.

  A trade is a dictionary with optional entries: a timestamp is absent, a \<open>datetime\<close>, a number of seconds or
  milliseconds, or a text. Reading a text as a date (\<open>float\<close>, then six \<open>strptime\<close> formats) is an argument.
\<close>

section \<open>Reading the trades\<close>

datatype raw_ts = Absent | Moment timestamp | Number pyfloat | Text string

record raw_trade =
  rt_timestamp :: raw_ts
  rt_created_at :: raw_ts
  rt_price :: "pyfloat option"
  rt_size :: "pyfloat option"
  rt_amount :: "pyfloat option"
  rt_side :: "string option"

record fifo_trade =
  ft_ts :: timestamp
  ft_price :: pyfloat
  ft_size :: pyfloat
  ft_side :: string

definition ts_from_epoch :: "pyfloat \<Rightarrow> timestamp" where
  "ts_from_epoch v = round_half_even (v * 1000000)"

definition parse_ts :: "(string \<Rightarrow> timestamp option) \<Rightarrow> raw_ts \<Rightarrow> timestamp option" where
  "parse_ts read_text v =
     (case v of
        Absent \<Rightarrow> None
      | Moment t \<Rightarrow> Some t
      | Number x \<Rightarrow> Some (ts_from_epoch (if x > 1000000000000 then x / 1000 else x))
      | Text s \<Rightarrow> (let s' = py_strip s in if s' = [] then None else read_text s'))"

definition raw_or :: "raw_ts \<Rightarrow> raw_ts \<Rightarrow> raw_ts" where
  "raw_or a b = (if a = Absent \<or> a = Number 0 \<or> a = Text [] then b else a)"

definition parse_trade :: "(string \<Rightarrow> timestamp option) \<Rightarrow> raw_trade \<Rightarrow> fifo_trade option" where
  "parse_trade read_text t =
     (case parse_ts read_text (raw_or (rt_timestamp t) (rt_created_at t)) of
        None \<Rightarrow> None
      | Some ts \<Rightarrow>
          let price = py_or (rt_price t) 0; sz = py_or (rt_size t) (py_or (rt_amount t) 0);
              side = py_upper (case rt_side t of None \<Rightarrow> [] | Some s \<Rightarrow> s)
          in if side \<notin> {''BUY'', ''SELL''} \<or> sz \<le> 0 then None
             else Some \<lparr>ft_ts = ts, ft_price = price, ft_size = sz, ft_side = side\<rparr>)"

section \<open>Matching\<close>

record open_lot =
  ol_ts :: timestamp
  ol_price :: pyfloat
  ol_remaining :: pyfloat

record trade_lot =
  tl_open :: timestamp
  tl_close :: "timestamp option"
  tl_entry :: pyfloat
  tl_exit :: "pyfloat option"
  tl_size :: pyfloat
  tl_side :: string
  tl_market :: string
  tl_pnl :: "pyfloat option"

record fifo_state =
  fs_queue :: "open_lot list"
  fs_closed :: "trade_lot list"
  fs_total :: pyfloat

definition close_lot :: "string \<Rightarrow> fifo_trade \<Rightarrow> open_lot \<Rightarrow> pyfloat \<Rightarrow> trade_lot" where
  "close_lot market t l matched =
     \<lparr>tl_open = ol_ts l, tl_close = Some (ft_ts t), tl_entry = ol_price l, tl_exit = Some (ft_price t), tl_size = matched,
      tl_side = ''buy'', tl_market = market, tl_pnl = Some ((ft_price t - ol_price l) * matched)\<rparr>"

text \<open>One round of the sell loop on the oldest lot; the lot leaves the queue when less than \<open>1e-12\<close> is left of it.\<close>

definition match_oldest :: "string \<Rightarrow> fifo_trade \<Rightarrow> open_lot \<Rightarrow> open_lot list \<Rightarrow> pyfloat \<Rightarrow> fifo_state \<Rightarrow> fifo_state" where
  "match_oldest market t l q matched s =
     (let l' = l\<lparr>ol_remaining := ol_remaining l - matched\<rparr> in
      s\<lparr>fs_queue := (if ol_remaining l' < eps12 then q else l' # q), fs_closed := fs_closed s @ [close_lot market t l matched],
        fs_total := fs_total s + (ft_price t - ol_price l) * matched\<rparr>)"

function sell_loop :: "string \<Rightarrow> fifo_trade \<Rightarrow> pyfloat \<Rightarrow> fifo_state \<Rightarrow> fifo_state" where
  "sell_loop market t left s =
     (case fs_queue s of
        [] \<Rightarrow> s
      | l # q \<Rightarrow>
          if left > eps12
          then sell_loop market t (left - min left (ol_remaining l)) (match_oldest market t l q (min left (ol_remaining l)) s)
          else s)"
  by pat_completeness auto
termination
  by (relation "measure (\<lambda>(market, t, left, s). length (fs_queue s) + (if left > eps12 then 1 else 0))")
    (auto simp: match_oldest_def Let_def min_def eps12_def)

declare sell_loop.simps [simp del]

definition fifo_step :: "string \<Rightarrow> fifo_state \<Rightarrow> fifo_trade \<Rightarrow> fifo_state" where
  "fifo_step market s t =
     (if ft_side t = ''BUY''
      then s\<lparr>fs_queue := fs_queue s @ [\<lparr>ol_ts = ft_ts t, ol_price = ft_price t, ol_remaining = ft_size t\<rparr>]\<rparr>
      else sell_loop market t (ft_size t) s)"

definition open_trade_lot :: "string \<Rightarrow> open_lot \<Rightarrow> trade_lot" where
  "open_trade_lot market l =
     \<lparr>tl_open = ol_ts l, tl_close = None, tl_entry = ol_price l, tl_exit = None, tl_size = ol_remaining l, tl_side = ''buy'',
      tl_market = market, tl_pnl = None\<rparr>"

record fifo_result =
  fr_closed :: "trade_lot list"
  fr_open :: "trade_lot list"
  fr_total :: pyfloat
  fr_trades :: nat
  fr_winning :: nat
  fr_losing :: nat
  fr_avg_hold :: pyfloat
  fr_accuracy :: pyfloat

definition empty_fifo_result :: fifo_result where
  "empty_fifo_result = \<lparr>fr_closed = [], fr_open = [], fr_total = 0, fr_trades = 0, fr_winning = 0, fr_losing = 0, fr_avg_hold = 0, fr_accuracy = 0\<rparr>"

definition lot_pnl :: "trade_lot \<Rightarrow> pyfloat" where
  "lot_pnl c = (case tl_pnl c of None \<Rightarrow> 0 | Some x \<Rightarrow> x)"

definition hold_times :: "trade_lot list \<Rightarrow> pyfloat list" where
  "hold_times cs = List.map_filter (\<lambda>c. case tl_close c of None \<Rightarrow> None | Some u \<Rightarrow> Some (total_seconds (u - tl_open c))) cs"

definition fifo_parsed :: "(string \<Rightarrow> timestamp option) \<Rightarrow> raw_trade list \<Rightarrow> fifo_trade list" where
  "fifo_parsed read_text trades = sort_key ft_ts (List.map_filter (parse_trade read_text) trades)"

definition fifo_summary :: "string \<Rightarrow> nat \<Rightarrow> fifo_state \<Rightarrow> fifo_result" where
  "fifo_summary market n s =
     (let cs = fs_closed s; winning = length (filter (\<lambda>c. lot_pnl c > 0) cs); holds = hold_times cs
      in \<lparr>fr_closed = cs, fr_open = map (open_trade_lot market) (filter (\<lambda>l. ol_remaining l > eps12) (fs_queue s)), fr_total = fs_total s,
          fr_trades = n, fr_winning = winning, fr_losing = length (filter (\<lambda>c. lot_pnl c < 0) cs),
          fr_avg_hold = (if holds = [] then 0 else sum_list holds / real (length holds)),
          fr_accuracy = (if cs = [] then 0 else real winning / real (length cs))\<rparr>)"

definition compute_fifo_pnl :: "(string \<Rightarrow> timestamp option) \<Rightarrow> raw_trade list \<Rightarrow> string \<Rightarrow> fifo_result" where
  "compute_fifo_pnl read_text trades market =
     (if trades = [] then empty_fifo_result
      else let parsed = fifo_parsed read_text trades
           in fifo_summary market (length parsed) (foldl (fifo_step market) \<lparr>fs_queue = [], fs_closed = [], fs_total = 0\<rparr> parsed))"

definition compute_fifo_pnl_multi_market ::
    "(string \<Rightarrow> timestamp option) \<Rightarrow> (string, raw_trade list) dict \<Rightarrow> (string, fifo_result) dict" where
  "compute_fifo_pnl_multi_market read_text by_market =
     foldl (\<lambda>d (market, trades). dict_set d market (compute_fifo_pnl read_text trades market)) [] by_market"


section \<open>What the matching keeps\<close>

definition queued :: "fifo_state \<Rightarrow> pyfloat" where "queued s = sum_list (map ol_remaining (fs_queue s))"
definition matched_size :: "fifo_state \<Rightarrow> pyfloat" where "matched_size s = sum_list (map tl_size (fs_closed s))"

definition closed_lot_ok :: "trade_lot \<Rightarrow> bool" where
  "closed_lot_ok c \<longleftrightarrow> (\<exists>u p. tl_close c = Some u \<and> tl_open c \<le> u \<and> tl_exit c = Some p \<and> tl_pnl c = Some ((p - tl_entry c) * tl_size c) \<and>
     0 < tl_size c)"

text \<open>
  The books after \<open>n\<close> buys of \<open>bought\<close> shares, when at most \<open>sold\<close> shares were sold, at time \<open>now\<close>: a lot that left the
  queue left less than \<open>1e-12\<close> behind.
\<close>

definition fifo_inv :: "pyfloat \<Rightarrow> pyfloat \<Rightarrow> nat \<Rightarrow> timestamp \<Rightarrow> fifo_state \<Rightarrow> bool" where
  "fifo_inv bought sold n now s \<longleftrightarrow>
     matched_size s + queued s \<le> bought \<and> bought \<le> matched_size s + queued s + eps12 * (real n - real (length (fs_queue s))) \<and>
     matched_size s \<le> sold \<and> fs_total s = sum_list (map lot_pnl (fs_closed s)) \<and>
     (\<forall>l\<in>set (fs_queue s). 0 < ol_remaining l) \<and> (\<forall>c\<in>set (fs_closed s). closed_lot_ok c) \<and>
     sorted (map tl_open (fs_closed s) @ map ol_ts (fs_queue s)) \<and> (\<forall>t\<in>set (map tl_open (fs_closed s) @ map ol_ts (fs_queue s)). t \<le> now)"

lemma close_lot_simps [simp]:
  "tl_open (close_lot m t l x) = ol_ts l" "tl_size (close_lot m t l x) = x" "lot_pnl (close_lot m t l x) = (ft_price t - ol_price l) * x"
  by (simp_all add: close_lot_def lot_pnl_def)

lemma match_oldest_inv:
  assumes inv: "fifo_inv bought (sold - left) n now s" and q: "fs_queue s = l # q" and x: "0 < x" "x \<le> left" "x \<le> ol_remaining l"
    and now: "ft_ts t = now"
  shows "fifo_inv bought (sold - (left - x)) n now (match_oldest m t l q x s)"
proof -
  let ?s = "match_oldest m t l q x s"
  have e: "0 < eps12" by (simp add: eps12_def)
  have msz: "matched_size ?s = matched_size s + x" by (simp add: match_oldest_def Let_def matched_size_def)
  have tot: "fs_total ?s = sum_list (map lot_pnl (fs_closed ?s))" using inv by (simp add: fifo_inv_def match_oldest_def Let_def)
  have lot: "closed_lot_ok (close_lot m t l x)"
    using inv q x now by (auto simp: closed_lot_ok_def close_lot_def fifo_inv_def)
  have opn: "map tl_open (fs_closed ?s) = map tl_open (fs_closed s) @ [ol_ts l]" by (simp add: match_oldest_def Let_def)
  have queue: "fs_queue ?s = (if ol_remaining l - x < eps12 then q else l\<lparr>ol_remaining := ol_remaining l - x\<rparr> # q)"
    by (simp add: match_oldest_def Let_def)
  have cls: "\<forall>c\<in>set (fs_closed ?s). closed_lot_ok c" using inv lot by (auto simp: fifo_inv_def match_oldest_def Let_def)
  have srt: "sorted (map tl_open (fs_closed s) @ ol_ts l # map ol_ts q)" using inv q by (simp add: fifo_inv_def)
  have cl: "fs_closed ?s = fs_closed s @ [close_lot m t l x]" by (simp add: match_oldest_def Let_def)
  have books: "matched_size s + queued s \<le> bought" "bought \<le> matched_size s + queued s + eps12 * (real n - real (length q) - 1)"
    "matched_size s \<le> sold - left" "queued s = ol_remaining l + sum_list (map ol_remaining q)"
    using inv q by (simp_all add: fifo_inv_def queued_def algebra_simps)
  show ?thesis
  proof (cases "ol_remaining l - x < eps12")
    case True
    have qd: "queued ?s = sum_list (map ol_remaining q)" "fs_queue ?s = q" using queue True by (simp_all add: queued_def)
    have b: "bought \<le> matched_size ?s + queued ?s + eps12 * (real n - real (length q))"
      unfolding msz qd using books(2,4) True by (simp add: algebra_simps)
    show ?thesis unfolding fifo_inv_def tot opn qd(2) using inv q srt cls b books(1,3,4) msz qd(1) x
      by (auto simp: fifo_inv_def sorted_append cl min_le_iff_disj)
  next
    case False
    have qd: "queued ?s = ol_remaining l - x + sum_list (map ol_remaining q)" "fs_queue ?s = l\<lparr>ol_remaining := ol_remaining l - x\<rparr> # q"
      using queue False by (simp_all add: queued_def)
    have b: "bought \<le> matched_size ?s + queued ?s + eps12 * (real n - real (length (fs_queue ?s)))"
      unfolding msz qd using books(2,4) by (simp add: algebra_simps)
    have r: "0 < ol_remaining l - x" using False e by linarith
    show ?thesis unfolding fifo_inv_def tot opn using inv q srt cls b books(1,3,4) msz qd r
      by (auto simp: fifo_inv_def sorted_append cl)
  qed
qed

lemma sell_loop_inv:
  "fifo_inv bought (sold - left) n now s \<Longrightarrow> 0 \<le> left \<Longrightarrow> ft_ts t = now \<Longrightarrow> fifo_inv bought sold n now (sell_loop m t left s)"
proof (induction m t left s rule: sell_loop.induct)
  case (1 m t left s)
  have fin: "fifo_inv bought sold n now s" using 1(2,3) by (auto simp: fifo_inv_def)
  show ?case
  proof (cases "fs_queue s")
    case Nil
    then show ?thesis using fin by (simp add: sell_loop.simps)
  next
    case (Cons l q)
    show ?thesis
    proof (cases "left > eps12")
      case True
      have "sell_loop m t left s = sell_loop m t (left - min left (ol_remaining l)) (match_oldest m t l q (min left (ol_remaining l)) s)"
        by (subst sell_loop.simps) (simp add: Cons True)
      moreover have "0 < min left (ol_remaining l)" using True 1(2) Cons by (auto simp: fifo_inv_def eps12_def)
      ultimately show ?thesis using 1(1)[OF Cons True match_oldest_inv[OF 1(2) Cons _ _ _ 1(4), of "min left (ol_remaining l)"]] 1(4) by simp
    next
      case False
      have "sell_loop m t left s = s" by (subst sell_loop.simps) (simp add: Cons False)
      then show ?thesis using fin by simp
    qed
  qed
qed

definition side_size :: "string \<Rightarrow> fifo_trade list \<Rightarrow> pyfloat" where
  "side_size side ts = sum_list (map ft_size (filter (\<lambda>t. ft_side t = side) ts))"

definition buy_count :: "fifo_trade list \<Rightarrow> nat" where
  "buy_count ts = length (filter (\<lambda>t. ft_side t = ''BUY'') ts)"

definition trade_ok :: "fifo_trade \<Rightarrow> bool" where
  "trade_ok t \<longleftrightarrow> 0 < ft_size t \<and> ft_side t \<in> {''BUY'', ''SELL''}"

lemma fifo_step_inv:
  assumes inv: "fifo_inv bought sold n now s" and t: "trade_ok t" "now \<le> ft_ts t"
  shows "fifo_inv (bought + (if ft_side t = ''BUY'' then ft_size t else 0)) (sold + (if ft_side t = ''SELL'' then ft_size t else 0))
     (n + (if ft_side t = ''BUY'' then 1 else 0)) (ft_ts t) (fifo_step m s t)"
proof (cases "ft_side t = ''BUY''")
  case True
  then show ?thesis using inv t
    by (auto simp: fifo_step_def fifo_inv_def matched_size_def queued_def sorted_append trade_ok_def intro: order_trans)
next
  case False
  then have side: "ft_side t = ''SELL''" using t(1) by (simp add: trade_ok_def)
  have "fifo_inv bought (sold + ft_size t - ft_size t) n (ft_ts t) s" using inv t(2) by (auto simp: fifo_inv_def intro: order_trans)
  then have "fifo_inv bought (sold + ft_size t) n (ft_ts t) (sell_loop m t (ft_size t) s)"
    by (rule sell_loop_inv) (use t(1) in \<open>simp_all add: trade_ok_def\<close>)
  then show ?thesis using side by (simp add: fifo_step_def)
qed

lemma fifo_run_inv:
  "fifo_inv bought sold n now s \<Longrightarrow> \<forall>t\<in>set ts. trade_ok t \<and> now \<le> ft_ts t \<Longrightarrow> sorted (map ft_ts ts) \<Longrightarrow>
   \<exists>now'. fifo_inv (bought + side_size ''BUY'' ts) (sold + side_size ''SELL'' ts) (n + buy_count ts) now' (foldl (fifo_step m) s ts)"
proof (induction ts arbitrary: bought sold n now s)
  case Nil
  then show ?case by (auto simp: side_size_def buy_count_def)
next
  case (Cons t ts)
  from Cons.IH[OF fifo_step_inv[OF Cons.prems(1), of t m]] Cons.prems(2,3) show ?case
    by (auto simp: side_size_def buy_count_def trade_ok_def algebra_simps)
qed

lemma fifo_parsed_ok: "(\<forall>t\<in>set (fifo_parsed read trades). trade_ok t) \<and> sorted (map ft_ts (fifo_parsed read trades))"
proof -
  have "trade_ok t" if "parse_trade read r = Some t" for r t
    using that by (auto simp: parse_trade_def Let_def trade_ok_def split: option.splits if_splits)
  then show ?thesis by (auto simp: fifo_parsed_def List.map_filter_def)
qed

lemma hold_times_nonneg: "\<forall>c\<in>set cs. closed_lot_ok c \<Longrightarrow> \<forall>h\<in>set (hold_times cs). 0 \<le> h"
  by (auto simp: hold_times_def List.map_filter_def closed_lot_ok_def total_seconds_def split: option.splits)

text \<open>
  C35: First-in-first-out accounting neither creates nor loses shares: closed and open lots add up to the shares bought, but
  for less than 1e-12 per buy; never more shares are closed than were sold; lots close oldest first, each after it was
  opened; the realised profit is the sum over closed lots of size times exit less entry price; hold time and accuracy are
  in range.
\<close>

theorem fifo_conserves_shares:
  "let r = compute_fifo_pnl read trades market; parsed = fifo_parsed read trades;
       closed = sum_list (map tl_size (fr_closed r)); still_open = sum_list (map tl_size (fr_open r))
   in closed + still_open \<le> side_size ''BUY'' parsed \<and>
      side_size ''BUY'' parsed - (closed + still_open) \<le> eps12 * real (buy_count parsed) \<and>
      closed \<le> side_size ''SELL'' parsed \<and> sorted (map tl_open (fr_closed r)) \<and> (\<forall>c\<in>set (fr_closed r). closed_lot_ok c) \<and>
      fr_total r = sum_list (map lot_pnl (fr_closed r)) \<and> 0 \<le> fr_avg_hold r \<and> 0 \<le> fr_accuracy r \<and> fr_accuracy r \<le> 1 \<and>
      fr_winning r + fr_losing r \<le> length (fr_closed r)"
proof (cases "trades = []")
  case True
  then show ?thesis
    by (simp add: compute_fifo_pnl_def empty_fifo_result_def fifo_parsed_def List.map_filter_def side_size_def buy_count_def)
next
  case False
  let ?ts = "fifo_parsed read trades"
  let ?s = "foldl (fifo_step market) \<lparr>fs_queue = [], fs_closed = [], fs_total = 0\<rparr> ?ts"
  have start: "fifo_inv 0 0 0 now \<lparr>fs_queue = [], fs_closed = [], fs_total = 0\<rparr>" for now
    by (simp add: fifo_inv_def queued_def matched_size_def)
  obtain t0 where "\<forall>t\<in>set ?ts. t0 \<le> ft_ts t" by (cases ?ts) (use fifo_parsed_ok[of read trades] in auto)
  then obtain now where inv: "fifo_inv (side_size ''BUY'' ?ts) (side_size ''SELL'' ?ts) (buy_count ?ts) now ?s"
    using fifo_run_inv[OF start[of t0], of ?ts market] fifo_parsed_ok[of read trades] by auto
  have lots: "sum_list (map tl_size (map (open_trade_lot market) (filter (\<lambda>l. ol_remaining l > eps12) q))) \<le> sum_list (map ol_remaining q) \<and>
     sum_list (map ol_remaining q) \<le>
       sum_list (map tl_size (map (open_trade_lot market) (filter (\<lambda>l. ol_remaining l > eps12) q))) + eps12 * real (length q)"
    if "\<forall>l\<in>set q. 0 < ol_remaining l" for q
    using that
  proof (induction q)
    case (Cons l q)
    have e: "0 < eps12" by (simp add: eps12_def)
    have ih: "sum_list (map tl_size (map (open_trade_lot market) (filter (\<lambda>l. ol_remaining l > eps12) q))) \<le> sum_list (map ol_remaining q)"
      "sum_list (map ol_remaining q) \<le>
         sum_list (map tl_size (map (open_trade_lot market) (filter (\<lambda>l. ol_remaining l > eps12) q))) + eps12 * real (length q)"
      using Cons by simp_all
    have d: "eps12 * real (length (l # q)) = eps12 + eps12 * real (length q)" by (simp add: distrib_left)
    show ?case unfolding d
    proof (cases "eps12 < ol_remaining l")
      case True
      then show "sum_list (map tl_size (map (open_trade_lot market) (filter (\<lambda>l. ol_remaining l > eps12) (l # q)))) \<le> sum_list (map ol_remaining (l # q)) \<and>
         sum_list (map ol_remaining (l # q)) \<le>
           sum_list (map tl_size (map (open_trade_lot market) (filter (\<lambda>l. ol_remaining l > eps12) (l # q)))) + (eps12 + eps12 * real (length q))"
        using ih by (simp add: open_trade_lot_def) (use e in linarith)
    next
      case False
      then show "sum_list (map tl_size (map (open_trade_lot market) (filter (\<lambda>l. ol_remaining l > eps12) (l # q)))) \<le> sum_list (map ol_remaining (l # q)) \<and>
         sum_list (map ol_remaining (l # q)) \<le>
           sum_list (map tl_size (map (open_trade_lot market) (filter (\<lambda>l. ol_remaining l > eps12) (l # q)))) + (eps12 + eps12 * real (length q))"
        using ih Cons.prems by simp
    qed
  qed simp
  have q: "\<forall>l\<in>set (fs_queue ?s). 0 < ol_remaining l" and lot_ok: "\<forall>c\<in>set (fs_closed ?s). closed_lot_ok c" using inv by (simp_all add: fifo_inv_def)
  have r: "compute_fifo_pnl read trades market = fifo_summary market (length ?ts) ?s" by (simp add: compute_fifo_pnl_def Let_def False)
  have hold: "0 \<le> sum_list (hold_times (fs_closed ?s))" by (rule sum_list_nonneg) (use hold_times_nonneg[OF lot_ok] in auto)
  have count: "length (filter (\<lambda>c. lot_pnl c > 0) cs) + length (filter (\<lambda>c. lot_pnl c < 0) cs) \<le> length cs" for cs
    by (induction cs) auto
  show ?thesis unfolding r Let_def fifo_summary_def
    using inv lots[OF q] lot_ok hold count[of "fs_closed ?s"]
    by (auto simp: fifo_inv_def matched_size_def queued_def sorted_append algebra_simps divide_le_eq)
qed

definition sample_raw_trade :: "string \<Rightarrow> timestamp \<Rightarrow> pyfloat \<Rightarrow> raw_trade" where
  "sample_raw_trade side t sz =
     \<lparr>rt_timestamp = Moment t, rt_created_at = Absent, rt_price = Some (1 / 2), rt_size = Some sz, rt_amount = None, rt_side = Some side\<rparr>"

theorem fifo_conserves_shares_witness:
  "let r = compute_fifo_pnl Map.empty [sample_raw_trade ''sell'' 2 4, sample_raw_trade ''buy'' 1 10] ''m''
   in sum_list (map tl_size (fr_closed r)) \<le> 4 \<and> sum_list (map tl_size (fr_closed r)) + sum_list (map tl_size (fr_open r)) \<le> 10"
proof -
  have up: "py_upper ''sell'' = ''SELL''" "py_upper ''buy'' = ''BUY''" by code_simp+
  have parsed: "fifo_parsed Map.empty [sample_raw_trade ''sell'' 2 4, sample_raw_trade ''buy'' 1 10] =
      [\<lparr>ft_ts = 1, ft_price = 1 / 2, ft_size = 10, ft_side = ''BUY''\<rparr>, \<lparr>ft_ts = 2, ft_price = 1 / 2, ft_size = 4, ft_side = ''SELL''\<rparr>]"
    by (simp add: fifo_parsed_def List.map_filter_def parse_trade_def sample_raw_trade_def parse_ts_def raw_or_def py_or_def up)
  from fifo_conserves_shares[of Map.empty "[sample_raw_trade ''sell'' 2 4, sample_raw_trade ''buy'' 1 10]" "''m''"]
  show ?thesis by (simp add: parsed Let_def side_size_def)
qed

end
