(* ===== verification/RateLimiter.thy ===== *)
theory RateLimiter
  imports Prelude
begin

text \<open>
  The client-side rate limiter of \<open>utils/rate_limiter.py\<close>: one token bucket per endpoint, and an in-flight cap.

  Every reading of the monotonic clock is an argument. The per-endpoint lock makes one round of \<open>acquire\<close> atomic, so a
  concurrent run is a sequence of rounds, checks and status calls; only the sleep between two rounds is outside the lock.
\<close>

section \<open>The token bucket\<close>

record rate_limit_config =
  rl_requests :: int
  rl_window :: pyfloat
  rl_burst :: "int option"

record token_bucket =
  tb_capacity :: pyfloat
  tb_tokens :: pyfloat
  tb_rate :: pyfloat
  tb_last :: pyfloat

definition refill :: "pyfloat \<Rightarrow> token_bucket \<Rightarrow> token_bucket" where
  "refill now b = b\<lparr>tb_tokens := min (tb_capacity b) (tb_tokens b + (now - tb_last b) * tb_rate b), tb_last := now\<rparr>"

definition consume :: "pyfloat \<Rightarrow> int \<Rightarrow> token_bucket \<Rightarrow> bool \<times> token_bucket" where
  "consume now n b =
     (let b1 = refill now b in if tb_tokens b1 \<ge> of_int n then (True, b1\<lparr>tb_tokens := tb_tokens b1 - of_int n\<rparr>) else (False, b1))"

definition wait_time :: "pyfloat \<Rightarrow> int \<Rightarrow> token_bucket \<Rightarrow> pyfloat \<times> token_bucket" where
  "wait_time now n b =
     (let b1 = refill now b in if tb_tokens b1 \<ge> of_int n then (0, b1) else ((of_int n - tb_tokens b1) / tb_rate b1, b1))"

section \<open>The limiter\<close>

definition limit_of :: "int \<Rightarrow> int option \<Rightarrow> rate_limit_config" where
  "limit_of requests burst = \<lparr>rl_requests = requests, rl_window = 10, rl_burst = burst\<rparr>"

definition limits :: "(string, rate_limit_config) dict" where
  "limits =
     [(''gamma_general'', limit_of 4000 None), (''gamma_markets'', limit_of 120 (Some 12)), (''gamma_events'', limit_of 500 None),
      (''gamma_search'', limit_of 350 (Some 70)), (''clob_general'', limit_of 9000 None), (''clob_market'', limit_of 1500 None),
      (''clob_markets_batch'', limit_of 500 None), (''clob_prices_history'', limit_of 1000 None), (''data_general'', limit_of 1000 None),
      (''data_trades'', limit_of 120 (Some 12)), (''data_positions'', limit_of 30 (Some 3))]"

definition global_inflight_limit :: int where "global_inflight_limit = 16"

definition endpoint_inflight_limits :: "(string, int) dict" where
  "endpoint_inflight_limits =
     [(''data_positions'', 2), (''data_trades'', 4), (''gamma_events'', 6), (''gamma_markets'', 2), (''gamma_search'', 4),
      (''clob_prices_history'', 4), (''clob_market'', 8), (''clob_markets_batch'', 8)]"

text \<open>A semaphore is its number of slots; it is made at its first use.\<close>

record rate_limiter =
  lm_buckets :: "(string, token_bucket) dict"
  lm_semaphore :: "int option"
  lm_endpoint_semaphores :: "(string, int) dict"

definition init_limiter :: rate_limiter where
  "init_limiter = \<lparr>lm_buckets = [], lm_semaphore = None, lm_endpoint_semaphores = []\<rparr>"

definition bucket_capacity :: "rate_limit_config \<Rightarrow> int" where
  "bucket_capacity c = (case rl_burst c of Some b \<Rightarrow> if b = 0 then rl_requests c else b | None \<Rightarrow> rl_requests c)"

definition config_for :: "string \<Rightarrow> rate_limit_config" where
  "config_for endpoint = dict_get_or limits endpoint (limit_of 1000 None)"

definition new_bucket :: "pyfloat \<Rightarrow> string \<Rightarrow> token_bucket" where
  "new_bucket now endpoint =
     (let c = config_for endpoint
      in \<lparr>tb_capacity = of_int (bucket_capacity c), tb_tokens = of_int (bucket_capacity c), tb_rate = of_int (rl_requests c) / rl_window c,
          tb_last = now\<rparr>)"

definition get_bucket :: "pyfloat \<Rightarrow> string \<Rightarrow> rate_limiter \<Rightarrow> token_bucket \<times> rate_limiter" where
  "get_bucket now endpoint lm =
     (case dict_get (lm_buckets lm) endpoint of
        Some b \<Rightarrow> (b, lm)
      | None \<Rightarrow> (new_bucket now endpoint, lm\<lparr>lm_buckets := dict_set (lm_buckets lm) endpoint (new_bucket now endpoint)\<rparr>))"

definition put_bucket :: "string \<Rightarrow> token_bucket \<Rightarrow> rate_limiter \<Rightarrow> rate_limiter" where
  "put_bucket endpoint b lm = lm\<lparr>lm_buckets := dict_set (lm_buckets lm) endpoint b\<rparr>"

definition inflight_slot :: "rate_limiter \<Rightarrow> int \<times> rate_limiter" where
  "inflight_slot lm =
     (case lm_semaphore lm of Some k \<Rightarrow> (k, lm) | None \<Rightarrow> (global_inflight_limit, lm\<lparr>lm_semaphore := Some global_inflight_limit\<rparr>))"

definition endpoint_inflight_slot :: "string \<Rightarrow> rate_limiter \<Rightarrow> int \<times> rate_limiter" where
  "endpoint_inflight_slot endpoint lm =
     (let e = (if endpoint = [] then ''default'' else endpoint) in
      case dict_get (lm_endpoint_semaphores lm) e of
        Some k \<Rightarrow> (k, lm)
      | None \<Rightarrow> let k = max 1 (dict_get_or endpoint_inflight_limits e global_inflight_limit)
               in (k, lm\<lparr>lm_endpoint_semaphores := dict_set (lm_endpoint_semaphores lm) e k\<rparr>))"

text \<open>
  One round of \<open>acquire\<close> under the lock, with its three clock readings: the bucket's creation, the test of the wait time,
  the consumption. It returns the wait of a refused round.
\<close>

record readings =
  rd_create :: pyfloat
  rd_test :: pyfloat
  rd_take :: pyfloat

definition acquire_round :: "readings \<Rightarrow> string \<Rightarrow> int \<Rightarrow> rate_limiter \<Rightarrow> pyfloat option \<times> rate_limiter" where
  "acquire_round r endpoint n lm =
     (let (b, lm1) = get_bucket (rd_create r) endpoint lm; (w, b1) = wait_time (rd_test r) n b in
      if w \<le> 0 then (None, put_bucket endpoint (snd (consume (rd_take r) n b1)) lm1) else (Some w, put_bucket endpoint b1 lm1))"

text \<open>The loop of \<open>acquire\<close> for one caller, with the readings of each round; the fuel bounds the rounds.\<close>

fun acquire_loop :: "nat \<Rightarrow> (nat \<Rightarrow> readings) \<Rightarrow> nat \<Rightarrow> string \<Rightarrow> int \<Rightarrow> pyfloat \<Rightarrow> rate_limiter \<Rightarrow> (pyfloat \<times> rate_limiter) option" where
  "acquire_loop 0 clk i endpoint n waited lm = None"
| "acquire_loop (Suc k) clk i endpoint n waited lm =
     (case acquire_round (clk i) endpoint n lm of
        (None, lm1) \<Rightarrow> Some (waited, lm1)
      | (Some w, lm1) \<Rightarrow> acquire_loop k clk (i + 1) endpoint n (waited + w) lm1)"

definition acquire :: "nat \<Rightarrow> (nat \<Rightarrow> readings) \<Rightarrow> string \<Rightarrow> int \<Rightarrow> rate_limiter \<Rightarrow> (pyfloat \<times> rate_limiter) option" where
  "acquire fuel clk endpoint n lm = acquire_loop fuel clk 0 endpoint n 0 lm"

definition check_endpoint :: "readings \<Rightarrow> string \<Rightarrow> int \<Rightarrow> rate_limiter \<Rightarrow> bool \<times> rate_limiter" where
  "check_endpoint r endpoint n lm =
     (let (b, lm1) = get_bucket (rd_create r) endpoint lm; b1 = refill (rd_test r) b
      in (tb_tokens b1 \<ge> of_int n, put_bucket endpoint b1 lm1))"

record endpoint_status =
  es_available :: pyfloat
  es_capacity :: pyfloat
  es_rate :: pyfloat
  es_limit :: "(int \<times> pyfloat) option"
  es_inflight :: int

definition get_status :: "(string \<Rightarrow> pyfloat) \<Rightarrow> rate_limiter \<Rightarrow> (string, endpoint_status) dict \<times> rate_limiter" where
  "get_status now lm =
     (let bs = map (\<lambda>(e, b). (e, refill (now e) b)) (lm_buckets lm)
      in (map (\<lambda>(e, b). (e, \<lparr>es_available = tb_tokens b, es_capacity = tb_capacity b, es_rate = tb_rate b,
              es_limit = map_option (\<lambda>c. (rl_requests c, rl_window c)) (dict_get limits e),
              es_inflight = dict_get_or endpoint_inflight_limits e global_inflight_limit\<rparr>)) bs,
          lm\<lparr>lm_buckets := bs\<rparr>))"

text \<open>What a caller may do, and the tokens each call grants for one endpoint.\<close>

datatype limiter_event =
    Acquire readings string int
  | Check readings string int
  | Status "string \<Rightarrow> pyfloat" pyfloat
  | Slot string

definition limiter_event_step :: "string \<Rightarrow> rate_limiter \<Rightarrow> limiter_event \<Rightarrow> int \<times> rate_limiter" where
  "limiter_event_step endpoint lm e =
     (case e of
        Acquire r ep n \<Rightarrow> (case acquire_round r ep n lm of (w, lm1) \<Rightarrow> (if w = None \<and> ep = endpoint then n else 0, lm1))
      | Check r ep n \<Rightarrow> (0, snd (check_endpoint r ep n lm))
      | Status now t \<Rightarrow> (0, snd (get_status now lm))
      | Slot ep \<Rightarrow> (0, snd (endpoint_inflight_slot ep (snd (inflight_slot lm)))))"

section \<open>Endpoint of a URL\<close>

fun py_contains :: "string \<Rightarrow> string \<Rightarrow> bool" where
  "py_contains needle [] = (needle = [])"
| "py_contains needle (c # cs) = (take (length needle) (c # cs) = needle \<or> py_contains needle cs)"

definition endpoint_for_url :: "string \<Rightarrow> string" where
  "endpoint_for_url url =
     (if py_contains ''gamma-api'' url then
        (if py_contains ''/markets'' url then ''gamma_markets''
         else if py_contains ''/events'' url then ''gamma_events''
         else if py_contains ''/search'' url then ''gamma_search'' else ''gamma_general'')
      else if py_contains ''clob'' url then
        (if py_contains ''/prices-history'' url then ''clob_prices_history''
         else if py_contains ''/books'' url \<or> py_contains ''/prices'' url \<or> py_contains ''/midprices'' url then ''clob_markets_batch''
         else if py_contains ''/book'' url \<or> py_contains ''/price'' url \<or> py_contains ''/midpoint'' url then ''clob_market''
         else ''clob_general'')
      else if py_contains ''data-api'' url then
        (if py_contains ''/trades'' url then ''data_trades'' else if py_contains ''positions'' url then ''data_positions'' else ''data_general'')
      else ''default'')"

section \<open>Metered resources\<close>

text \<open>
  The contract behind a rate bound: a level between zero and a capacity that grows no faster than a rate and pays for every
  grant. A client of the contract gets no more than the capacity and the growth over the time of the run.
\<close>

primrec metered_run :: "('s \<Rightarrow> 'e \<Rightarrow> real \<times> 's) \<Rightarrow> 's \<Rightarrow> 'e list \<Rightarrow> real \<times> 's" where
  "metered_run step s [] = (0, s)"
| "metered_run step s (e # es) = (fst (step s e) + fst (metered_run step (snd (step s e)) es), snd (metered_run step (snd (step s e)) es))"

primrec fits_run :: "('s \<Rightarrow> 'e \<Rightarrow> real \<times> 's) \<Rightarrow> ('s \<Rightarrow> 'e \<Rightarrow> bool) \<Rightarrow> 's \<Rightarrow> 'e list \<Rightarrow> bool" where
  "fits_run step fits s [] = True"
| "fits_run step fits s (e # es) = (fits s e \<and> fits_run step fits (snd (step s e)) es)"

locale metered =
  fixes step :: "'s \<Rightarrow> 'e \<Rightarrow> real \<times> 's" and fits :: "'s \<Rightarrow> 'e \<Rightarrow> bool" and inv :: "'s \<Rightarrow> bool"
    and level clock :: "'s \<Rightarrow> real" and cap rate :: real
  assumes keeps: "inv s \<Longrightarrow> fits s e \<Longrightarrow> inv (snd (step s e))"
    and pays: "inv s \<Longrightarrow> fits s e \<Longrightarrow> fst (step s e) + level (snd (step s e)) \<le> level s + rate * (clock (snd (step s e)) - clock s)"
    and in_range: "inv s \<Longrightarrow> 0 \<le> level s \<and> level s \<le> cap"
begin

lemma run_pays:
  "inv s \<Longrightarrow> fits_run step fits s es \<Longrightarrow> inv (snd (metered_run step s es)) \<and>
   fst (metered_run step s es) + level (snd (metered_run step s es)) \<le> level s + rate * (clock (snd (metered_run step s es)) - clock s)"
proof (induction es arbitrary: s)
  case (Cons e es)
  from Cons.IH[OF keeps[OF Cons.prems(1), of e]] pays[OF Cons.prems(1), of e] Cons.prems(2) show ?case
    by (simp add: algebra_simps)
qed simp

lemma run_bound:
  assumes "inv s" "fits_run step fits s es"
  shows "fst (metered_run step s es) \<le> cap + rate * (clock (snd (metered_run step s es)) - clock s)"
  using run_pays[OF assms] in_range[OF assms(1)] in_range[of "snd (metered_run step s es)"] by linarith

end

section \<open>The token bucket is a metered resource\<close>

definition eff :: "pyfloat \<Rightarrow> token_bucket \<Rightarrow> pyfloat" where "eff t b = tb_tokens (refill t b)"

text \<open>A bucket of an endpoint at a time: its capacity and rate are the configured ones.\<close>

definition bucket_ok :: "pyfloat \<Rightarrow> string \<Rightarrow> token_bucket \<Rightarrow> bool" where
  "bucket_ok t e b \<longleftrightarrow> tb_capacity b = of_int (bucket_capacity (config_for e)) \<and> tb_rate b = of_int (rl_requests (config_for e)) / rl_window (config_for e) \<and>
     0 \<le> tb_tokens b \<and> tb_tokens b \<le> tb_capacity b \<and> tb_last b \<le> t"

definition cap_of :: "string \<Rightarrow> pyfloat" where "cap_of e = of_int (bucket_capacity (config_for e))"
definition rate_of :: "string \<Rightarrow> pyfloat" where "rate_of e = of_int (rl_requests (config_for e)) / rl_window (config_for e)"

lemma dict_get_or_cases: "P d0 \<Longrightarrow> (\<And>x. x \<in> snd ` set d \<Longrightarrow> P x) \<Longrightarrow> P (dict_get_or d k d0)"
  by (force simp: dict_get_or_def dest!: dict_get_mem split: option.splits)

lemma config_sane: "1 \<le> bucket_capacity (config_for e) \<and> 0 < rl_requests (config_for e) \<and> 0 < rl_window (config_for e)"
  unfolding config_for_def by (rule dict_get_or_cases) (auto simp: limits_def limit_of_def bucket_capacity_def)

lemma rate_pos: "0 < rate_of e" and cap_pos: "1 \<le> cap_of e"
  using config_sane[of e] by (simp_all add: rate_of_def cap_of_def)

lemma bucket_ok_rate: "bucket_ok t e b \<Longrightarrow> tb_rate b = rate_of e \<and> tb_capacity b = cap_of e"
  by (simp add: bucket_ok_def rate_of_def cap_of_def)

lemma new_bucket_ok: "bucket_ok t e (new_bucket t e)" and new_bucket_full: "eff u (new_bucket t e) \<le> cap_of e"
  using config_sane[of e] by (simp_all add: bucket_ok_def new_bucket_def Let_def eff_def refill_def cap_of_def)

lemma min_refill: "0 \<le> d \<Longrightarrow> min c (min c x + d) = min c (x + d)"
  and min_growth: "0 \<le> d \<Longrightarrow> min c x \<le> min c (x + d) \<and> min c (x + d) \<le> min c x + d" for c d x :: real
  by (simp_all add: min_def)

lemma refill_ok: "bucket_ok t e b \<Longrightarrow> t \<le> u \<Longrightarrow> bucket_ok u e (refill u b)"
proof -
  assume b: "bucket_ok t e b" "t \<le> u"
  have "0 \<le> (u - tb_last b) * tb_rate b"
    using b rate_pos[of e] bucket_ok_rate[OF b(1)] by (intro mult_nonneg_nonneg) (auto simp: bucket_ok_def)
  with b(1) show ?thesis by (auto simp: bucket_ok_def refill_def)
qed

lemma elapsed: "tb_tokens b + (v - tb_last b) * r = (tb_tokens b + (u - tb_last b) * r) + (v - u) * r"
  by (simp add: left_diff_distrib)

lemma refill_twice: "bucket_ok t e b \<Longrightarrow> u \<le> v \<Longrightarrow> eff v (refill u b) = eff v b"
proof -
  assume b: "bucket_ok t e b" "u \<le> v"
  have d: "0 \<le> (v - u) * tb_rate b"
    using b(2) rate_pos[of e] bucket_ok_rate[OF b(1)] by (intro mult_nonneg_nonneg) auto
  show ?thesis using min_refill[OF d, of "tb_capacity b" "tb_tokens b + (u - tb_last b) * tb_rate b"]
    unfolding elapsed[of b v "tb_rate b" u, symmetric] by (simp add: eff_def refill_def)
qed

lemma eff_range: "bucket_ok t e b \<Longrightarrow> t \<le> u \<Longrightarrow> 0 \<le> eff u b \<and> eff u b \<le> cap_of e"
  using refill_ok[of t e b u] unfolding bucket_ok_def eff_def cap_of_def by metis

lemma eff_grows: "bucket_ok t e b \<Longrightarrow> u \<le> v \<Longrightarrow> eff u b \<le> eff v b \<and> eff v b \<le> eff u b + rate_of e * (v - u)"
proof -
  assume b: "bucket_ok t e b" "u \<le> v"
  have r: "tb_rate b = rate_of e" using bucket_ok_rate[OF b(1)] by simp
  have d: "0 \<le> (v - u) * rate_of e" using b(2) rate_pos[of e] by (intro mult_nonneg_nonneg) auto
  show ?thesis using min_growth[OF d, of "tb_capacity b" "tb_tokens b + (u - tb_last b) * rate_of e"]
    unfolding elapsed[of b v "rate_of e" u, symmetric] by (simp add: eff_def refill_def r mult.commute)
qed

text \<open>
  A moment of the limiter: a time and its buckets. The level of an endpoint is what a refill would leave in its bucket now;
  an endpoint without a bucket has its full capacity.
\<close>

definition limiter_ok :: "pyfloat \<times> rate_limiter \<Rightarrow> bool" where
  "limiter_ok s \<longleftrightarrow> (\<forall>e b. dict_get (lm_buckets (snd s)) e = Some b \<longrightarrow> bucket_ok (fst s) e b)"

definition level :: "string \<Rightarrow> pyfloat \<times> rate_limiter \<Rightarrow> pyfloat" where
  "level e s = (case dict_get (lm_buckets (snd s)) e of None \<Rightarrow> cap_of e | Some b \<Rightarrow> eff (fst s) b)"

definition in_order :: "pyfloat \<Rightarrow> readings \<Rightarrow> bool" where
  "in_order now r \<longleftrightarrow> now \<le> rd_create r \<and> rd_create r \<le> rd_test r \<and> rd_test r \<le> rd_take r"

definition event_end :: "pyfloat \<Rightarrow> limiter_event \<Rightarrow> pyfloat" where
  "event_end now e = (case e of Acquire r ep n \<Rightarrow> rd_take r | Check r ep n \<Rightarrow> rd_take r | Status f t \<Rightarrow> t | Slot ep \<Rightarrow> now)"

definition event_fits :: "pyfloat \<times> rate_limiter \<Rightarrow> limiter_event \<Rightarrow> bool" where
  "event_fits s e = (case e of Acquire r ep n \<Rightarrow> in_order (fst s) r \<and> 0 \<le> n | Check r ep n \<Rightarrow> in_order (fst s) r
     | Status f t \<Rightarrow> (\<forall>ep. fst s \<le> f ep \<and> f ep \<le> t) | Slot ep \<Rightarrow> True)"

definition timed_step :: "string \<Rightarrow> pyfloat \<times> rate_limiter \<Rightarrow> limiter_event \<Rightarrow> pyfloat \<times> (pyfloat \<times> rate_limiter)" where
  "timed_step endpoint s e =
     (case limiter_event_step endpoint (snd s) e of (n, lm) \<Rightarrow> (of_int n, (event_end (fst s) e, lm)))"

lemma bucket_ok_later: "bucket_ok t e b \<Longrightarrow> t \<le> u \<Longrightarrow> bucket_ok u e b"
  by (simp add: bucket_ok_def)

lemma limiter_ok_later: "limiter_ok (t, lm) \<Longrightarrow> t \<le> u \<Longrightarrow> limiter_ok (u, lm)"
  by (auto simp: limiter_ok_def intro: bucket_ok_later)

lemma limiter_ok_put: "limiter_ok (t, lm) \<Longrightarrow> bucket_ok t e b \<Longrightarrow> limiter_ok (t, put_bucket e b lm)"
  by (auto simp: limiter_ok_def put_bucket_def)

lemma level_put: "level ep (t, put_bucket e b lm) = (if e = ep then eff t b else level ep (t, lm))"
  by (simp add: level_def put_bucket_def split: option.split)

lemma level_range: "limiter_ok s \<Longrightarrow> 0 \<le> level ep s \<and> level ep s \<le> cap_of ep"
  using cap_pos[of ep] eff_range[of "fst s" ep _ "fst s"] by (auto simp: level_def limiter_ok_def split: option.split)

lemma level_later: "limiter_ok (t, lm) \<Longrightarrow> t \<le> u \<Longrightarrow> level ep (u, lm) \<le> level ep (t, lm) + rate_of ep * (u - t)"
proof (cases "dict_get (lm_buckets lm) ep")
  case None
  assume "t \<le> u"
  then show ?thesis using None rate_pos[of ep] by (simp add: level_def)
next
  case (Some b)
  assume "limiter_ok (t, lm)" "t \<le> u"
  then show ?thesis using Some eff_grows[of t ep b t u] by (simp add: level_def limiter_ok_def)
qed

lemma new_bucket_full': "t \<le> u \<Longrightarrow> eff u (new_bucket t e) = cap_of e"
proof -
  assume "t \<le> u"
  then have "0 \<le> (u - t) * rate_of e" using rate_pos[of e] by (intro mult_nonneg_nonneg) auto
  then show ?thesis by (simp add: eff_def refill_def new_bucket_def Let_def cap_of_def rate_of_def)
qed

lemma get_bucket_facts:
  assumes "limiter_ok (now, lm)" "now \<le> r" "get_bucket r e lm = (b, lm1)"
  shows "bucket_ok r e b" "limiter_ok (r, lm1)" "r \<le> t \<Longrightarrow> level ep (t, lm1) = level ep (t, lm)" "r \<le> t \<Longrightarrow> eff t b = level e (t, lm)"
proof -
  have ok: "limiter_ok (r, lm)" using assms(1,2) by (rule limiter_ok_later)
  have "bucket_ok r e b \<and> limiter_ok (r, lm1) \<and> (r \<le> t \<longrightarrow> level ep (t, lm1) = level ep (t, lm)) \<and> (r \<le> t \<longrightarrow> eff t b = level e (t, lm))"
  proof (cases "dict_get (lm_buckets lm) e")
    case None
    then have new: "b = new_bucket r e" "lm1 = put_bucket e (new_bucket r e) lm" using assms(3) by (auto simp: get_bucket_def put_bucket_def)
    show ?thesis unfolding new using limiter_ok_put[OF ok new_bucket_ok] new_bucket_ok new_bucket_full' None
      by (auto simp: level_put) (simp_all add: level_def)
  next
    case (Some b')
    then show ?thesis using assms(3) ok by (auto simp: get_bucket_def limiter_ok_def level_def)
  qed
  then show "bucket_ok r e b" "limiter_ok (r, lm1)" "r \<le> t \<Longrightarrow> level ep (t, lm1) = level ep (t, lm)" "r \<le> t \<Longrightarrow> eff t b = level e (t, lm)"
    by blast+
qed

lemma wait_enough: "fst (wait_time t n b) \<le> 0 \<Longrightarrow> 0 < tb_rate b \<Longrightarrow> of_int n \<le> eff t b"
  by (auto simp: wait_time_def Let_def eff_def refill_def divide_le_0_iff split: if_splits)

lemma eff_at: "bucket_ok t e b \<Longrightarrow> tb_last b = t \<Longrightarrow> eff t b = tb_tokens b"
  by (simp add: eff_def refill_def bucket_ok_def)

lemma consume_granted:
  assumes "bucket_ok t e b" "t \<le> u" "0 \<le> n" "of_int n \<le> eff u b"
  shows "fst (consume u n b)" "bucket_ok u e (snd (consume u n b))" "eff u (snd (consume u n b)) = eff u b - of_int n"
proof -
  have c: "consume u n b = (True, (refill u b)\<lparr>tb_tokens := tb_tokens (refill u b) - of_int n\<rparr>)"
    using assms(4) by (simp add: consume_def Let_def eff_def)
  show "fst (consume u n b)" by (simp add: c)
  show ok: "bucket_ok u e (snd (consume u n b))"
    using refill_ok[OF assms(1,2)] assms(3,4) by (auto simp: c bucket_ok_def eff_def)
  show "eff u (snd (consume u n b)) = eff u b - of_int n"
    using eff_at[OF ok] by (simp add: c eff_def) (simp add: refill_def)
qed

lemma acquire_round_facts:
  assumes ok: "limiter_ok (now, lm)" and r: "in_order now r" and n: "0 \<le> n" and a: "acquire_round r e n lm = (w, lm')"
  shows "limiter_ok (rd_take r, lm')"
    "level ep (rd_take r, lm') + (if w = None \<and> e = ep then of_int n else 0) = level ep (rd_take r, lm)"
    "w = None \<Longrightarrow> of_int n \<le> level e (rd_test r, lm)"
    "w = Some x \<Longrightarrow> level e (rd_test r, lm) < of_int n \<and> x = (of_int n - level e (rd_test r, lm)) / rate_of e"
proof -
  obtain b lm1 where g: "get_bucket (rd_create r) e lm = (b, lm1)" by (cases "get_bucket (rd_create r) e lm")
  have t: "now \<le> rd_create r" "rd_create r \<le> rd_test r" "rd_test r \<le> rd_take r" "rd_create r \<le> rd_take r" using r by (simp_all add: in_order_def)
  note gb = get_bucket_facts[OF ok t(1) g]
  have b1: "bucket_ok (rd_test r) e (refill (rd_test r) b)" by (rule refill_ok[OF gb(1) t(2)])
  have lm1: "limiter_ok (rd_take r, lm1)" by (rule limiter_ok_later[OF gb(2) t(4)])
  have wt: "wait_time (rd_test r) n b = (if eff (rd_test r) b \<ge> of_int n then 0 else (of_int n - eff (rd_test r) b) / rate_of e, refill (rd_test r) b)"
    using bucket_ok_rate[OF gb(1)] by (simp add: wait_time_def Let_def eff_def refill_def)
  have lev: "eff (rd_test r) b = level e (rd_test r, lm)" by (rule gb(4)[OF t(2)])
  have rate: "0 < rate_of e" by (rule rate_pos)
  have "limiter_ok (rd_take r, lm') \<and> level ep (rd_take r, lm') + (if w = None \<and> e = ep then of_int n else 0) = level ep (rd_take r, lm) \<and>
    (w = None \<longrightarrow> of_int n \<le> level e (rd_test r, lm)) \<and>
    (w = Some x \<longrightarrow> level e (rd_test r, lm) < of_int n \<and> x = (of_int n - level e (rd_test r, lm)) / rate_of e)"
  proof (cases "of_int n \<le> eff (rd_test r) b")
    case True
    let ?b2 = "snd (consume (rd_take r) n (refill (rd_test r) b))"
    have enough: "of_int n \<le> eff (rd_take r) (refill (rd_test r) b)"
      unfolding refill_twice[OF gb(1) t(3)] using True eff_grows[OF gb(1) t(3)] by linarith
    note c = consume_granted[OF b1 t(3) n enough]
    have w: "w = None" "lm' = put_bucket e ?b2 lm1" using a True by (simp_all add: acquire_round_def g wt)
    show ?thesis using limiter_ok_put[OF lm1 c(2)] c(3) refill_twice[OF gb(1) t(3)] gb(3)[OF t(4)] gb(4)[OF t(4)] True lev
      by (auto simp: w level_put)
  next
    case False
    have pos: "\<not> (of_int n - eff (rd_test r) b) / rate_of e \<le> 0" using False rate by (simp add: divide_le_0_iff)
    then have w: "w = Some ((of_int n - eff (rd_test r) b) / rate_of e)" "lm' = put_bucket e (refill (rd_test r) b) lm1"
      using a False by (simp_all add: acquire_round_def g wt)
    have ok': "limiter_ok (rd_take r, put_bucket e (refill (rd_test r) b) lm1)" by (rule limiter_ok_put[OF lm1 bucket_ok_later[OF b1 t(3)]])
    show ?thesis using ok' refill_twice[OF gb(1) t(3)] gb(3)[OF t(4)] gb(4)[OF t(4)] False lev
      by (auto simp: w level_put)
  qed
  then show "limiter_ok (rd_take r, lm')" "level ep (rd_take r, lm') + (if w = None \<and> e = ep then of_int n else 0) = level ep (rd_take r, lm)"
    "w = None \<Longrightarrow> of_int n \<le> level e (rd_test r, lm)"
    "w = Some x \<Longrightarrow> level e (rd_test r, lm) < of_int n \<and> x = (of_int n - level e (rd_test r, lm)) / rate_of e" by blast+
qed

lemma dict_get_map_snd: "dict_get (map (\<lambda>(k, v). (k, f k v)) d) k = map_option (f k) (dict_get d k)"
  by (induction d) (auto simp: dict_get_def)

lemma slot_buckets: "lm_buckets (snd (endpoint_inflight_slot ep (snd (inflight_slot lm)))) = lm_buckets lm"
  by (simp add: endpoint_inflight_slot_def inflight_slot_def Let_def split: option.split)

lemma check_facts:
  assumes ok: "limiter_ok (now, lm)" and r: "in_order now r"
  shows "limiter_ok (rd_take r, snd (check_endpoint r e n lm))" "level ep (rd_take r, snd (check_endpoint r e n lm)) = level ep (rd_take r, lm)"
proof -
  obtain b lm1 where g: "get_bucket (rd_create r) e lm = (b, lm1)" by (cases "get_bucket (rd_create r) e lm")
  have t: "now \<le> rd_create r" "rd_create r \<le> rd_test r" "rd_test r \<le> rd_take r" "rd_create r \<le> rd_take r" using r by (simp_all add: in_order_def)
  note gb = get_bucket_facts[OF ok t(1) g]
  have lm': "snd (check_endpoint r e n lm) = put_bucket e (refill (rd_test r) b) lm1" by (simp add: check_endpoint_def g Let_def)
  show "limiter_ok (rd_take r, snd (check_endpoint r e n lm))" unfolding lm'
    by (rule limiter_ok_put[OF limiter_ok_later[OF gb(2) t(4)] bucket_ok_later[OF refill_ok[OF gb(1) t(2)] t(3)]])
  show "level ep (rd_take r, snd (check_endpoint r e n lm)) = level ep (rd_take r, lm)" unfolding lm' level_put
    using refill_twice[OF gb(1) t(3)] gb(3,4)[OF t(4)] by auto
qed

lemma status_facts:
  assumes ok: "limiter_ok (now, lm)" and f: "\<forall>ep. now \<le> f ep \<and> f ep \<le> t"
  shows "limiter_ok (t, snd (get_status f lm))" "level ep (t, snd (get_status f lm)) = level ep (t, lm)"
proof -
  have b: "dict_get (lm_buckets (snd (get_status f lm))) e = map_option (refill (f e)) (dict_get (lm_buckets lm) e)" for e
    using dict_get_map_snd[of "\<lambda>e. refill (f e)" "lm_buckets lm" e] by (simp add: get_status_def Let_def)
  show "limiter_ok (t, snd (get_status f lm))" unfolding limiter_ok_def fst_conv snd_conv b
    using ok f by (auto simp: limiter_ok_def intro: bucket_ok_later[OF refill_ok])
  show "level ep (t, snd (get_status f lm)) = level ep (t, lm)" unfolding level_def fst_conv snd_conv b
    using ok f refill_twice[of now ep _ "f ep" t] by (auto simp: limiter_ok_def split: option.split)
qed

lemma timed_step_facts:
  assumes "limiter_ok s" "event_fits s e"
  shows "limiter_ok (snd (timed_step ep s e))"
    "fst (timed_step ep s e) + level ep (snd (timed_step ep s e)) \<le> level ep s + rate_of ep * (fst (snd (timed_step ep s e)) - fst s)"
proof -
  obtain now lm where s: "s = (now, lm)" by (cases s)
  have "limiter_ok (snd (timed_step ep s e)) \<and>
    fst (timed_step ep s e) + level ep (snd (timed_step ep s e)) \<le> level ep s + rate_of ep * (fst (snd (timed_step ep s e)) - fst s)"
  proof (cases e)
    case (Acquire r e' n)
    obtain w lm' where a: "acquire_round r e' n lm = (w, lm')" by (cases "acquire_round r e' n lm")
    have r: "in_order now r" "0 \<le> n" "now \<le> rd_take r" using assms(2) s Acquire by (auto simp: event_fits_def in_order_def)
    have ok: "limiter_ok (now, lm)" using assms(1) s by simp
    show ?thesis using acquire_round_facts(1)[OF ok r(1,2) a] acquire_round_facts(2)[OF ok r(1,2) a, of ep] level_later[OF ok r(3), of ep]
      by (auto simp: s Acquire timed_step_def limiter_event_step_def a event_end_def split: if_splits)
  next
    case (Check r e' n)
    have r: "in_order now r" "now \<le> rd_take r" using assms(2) s Check by (auto simp: event_fits_def in_order_def)
    have ok: "limiter_ok (now, lm)" using assms(1) s by simp
    show ?thesis using check_facts(1)[OF ok r(1), of e' n] check_facts(2)[OF ok r(1), of ep e' n] level_later[OF ok r(2), of ep]
      by (simp add: s Check timed_step_def limiter_event_step_def event_end_def)
  next
    case (Status f t)
    have f: "\<forall>ep. now \<le> f ep \<and> f ep \<le> t" using assms(2) s Status by (simp add: event_fits_def)
    then have t: "now \<le> t" using order_trans by blast
    have ok: "limiter_ok (now, lm)" using assms(1) s by simp
    show ?thesis using status_facts(1)[OF ok f] status_facts(2)[OF ok f, of ep] level_later[OF ok t, of ep]
      by (simp add: s Status timed_step_def limiter_event_step_def event_end_def)
  next
    case (Slot e')
    then show ?thesis using assms(1)
      by (auto simp: s timed_step_def limiter_event_step_def event_end_def limiter_ok_def level_def slot_buckets split: option.split)
  qed
  then show "limiter_ok (snd (timed_step ep s e))"
    "fst (timed_step ep s e) + level ep (snd (timed_step ep s e)) \<le> level ep s + rate_of ep * (fst (snd (timed_step ep s e)) - fst s)" by blast+
qed

interpretation bucket: metered "timed_step ep" event_fits limiter_ok "level ep" fst "cap_of ep" "rate_of ep" for ep
  by unfold_locales (rule timed_step_facts, assumption+, rule timed_step_facts, assumption+, rule level_range)

lemma init_limiter_ok: "limiter_ok (t, init_limiter)"
  by (simp add: limiter_ok_def init_limiter_def)

text \<open>
  C10: The rate ceiling holds under every interleaving: whatever sequence of acquire rounds, checks, status and slot calls
  any number of callers make on any endpoints, the tokens granted for one endpoint between two moments are at most its
  burst capacity plus its rate times the time between them.
\<close>

theorem rate_ceiling:
  assumes "limiter_ok s" "fits_run (timed_step ep) event_fits s es"
  shows "fst (metered_run (timed_step ep) s es) \<le> cap_of ep + rate_of ep * (fst (snd (metered_run (timed_step ep) s es)) - fst s) \<and>
    limiter_ok (snd (metered_run (timed_step ep) s es))"
  using bucket.run_bound[OF assms] bucket.run_pays[OF assms] by blast

definition sample_events :: "limiter_event list" where
  "sample_events =
     (let r = \<lambda>t. \<lparr>rd_create = t, rd_test = t, rd_take = t\<rparr>; ep = ''data_positions''
      in [Acquire (r 0) ep 1, Acquire (r 0) ep 1, Acquire (r 0) ep 1, Acquire (r 0) ep 1, Check (r 1) ep 1, Acquire (r 1) ep 1])"

theorem rate_ceiling_witness:
  "fst (metered_run (timed_step ''data_positions'') (0, init_limiter) sample_events) \<le> 6"
proof -
  have f: "fits_run (timed_step ''data_positions'') event_fits (0, init_limiter) sample_events"
    "fst (snd (metered_run (timed_step ''data_positions'') (0, init_limiter) sample_events)) = 1"
    by (simp_all add: sample_events_def Let_def timed_step_def event_fits_def in_order_def event_end_def case_prod_unfold)
  show ?thesis using rate_ceiling[OF init_limiter_ok f(1)] f(2)
    by (simp add: cap_of_def rate_of_def config_for_def limits_def limit_of_def bucket_capacity_def dict_get_or_def dict_get_def)
qed

section \<open>The loop of acquire\<close>

lemma acquire_loop_more: "acquire_loop k clk i e n waited lm = Some x \<Longrightarrow> k \<le> l \<Longrightarrow> acquire_loop l clk i e n waited lm = Some x"
proof (induction k arbitrary: l i waited lm)
  case (Suc k)
  then obtain l' where l: "l = Suc l'" "k \<le> l'" by (cases l) auto
  show ?case using Suc.prems(1) Suc.IH[OF _ l(2)] l(1) by (auto split: prod.splits option.splits)
qed simp


text \<open>The caller of the witness asks for two tokens of an empty bucket and sleeps as told.\<close>

definition drained_limiter :: rate_limiter where
  "drained_limiter = put_bucket ''data_positions'' ((new_bucket 0 ''data_positions'')\<lparr>tb_tokens := 0\<rparr>) init_limiter"

definition patient_clock :: "nat \<Rightarrow> readings" where
  "patient_clock i = (let t = real i * (2 / 3) in \<lparr>rd_create = t, rd_test = t, rd_take = t\<rparr>)"


lemma round_refused:
  assumes "limiter_ok (now, lm)" "in_order now r" "cap_of e < of_int n"
  shows "\<exists>w lm'. acquire_round r e n lm = (Some w, lm') \<and> limiter_ok (rd_take r, lm')"
proof -
  obtain w lm' where a: "acquire_round r e n lm = (w, lm')" by (cases "acquire_round r e n lm")
  have n: "0 \<le> n" using assms(3) cap_pos[of e] by linarith
  have ok: "limiter_ok (rd_test r, lm)" using assms(1,2) by (auto intro: limiter_ok_later simp: in_order_def)
  note f = acquire_round_facts[OF assms(1,2) n a]
  have "w \<noteq> None" using f(3) level_range[OF ok, of e] assms(3) by auto
  then show ?thesis using a f(1) by auto
qed

text \<open>
  A request larger than the endpoint's burst capacity is never served: its loop makes every round it is given and
  sleeps again, whatever the clock and the bucket.
\<close>

theorem acquire_oversized_starves:
  assumes "limiter_ok (now, lm)" "cap_of e < of_int n" "in_order now (clk i)" "\<forall>k. in_order (rd_take (clk k)) (clk (Suc k))"
  shows "acquire_loop fuel clk i e n waited lm = None"
  using assms
proof (induction fuel arbitrary: now i waited lm)
  case (Suc fuel)
  obtain w lm' where a: "acquire_round (clk i) e n lm = (Some w, lm')" "limiter_ok (rd_take (clk i), lm')"
    using round_refused[OF Suc.prems(1,3,2)] by blast
  show ?case using Suc.IH[OF a(2) Suc.prems(2), of "i + 1"] Suc.prems(4) by (simp add: a(1))
qed simp

theorem acquire_oversized_starves_witness:
  "acquire_loop 1000 patient_clock 0 ''data_positions'' 4 0 init_limiter = None"
  by (rule acquire_oversized_starves[OF init_limiter_ok[of 0]])
    (simp_all add: in_order_def patient_clock_def Let_def cap_of_def config_for_def limits_def limit_of_def bucket_capacity_def dict_get_or_def dict_get_def
      field_simps)

end
