(* ===== verification/Retry.thy ===== *)
theory Retry
  imports RateLimiter
begin

text \<open>
  Retrying, \<open>utils/retry.py\<close>: database operations and commits, the \<open>with_retry\<close> decorator and the HTTP client wrapper.

  An operation is a function of the attempt and of a state of the outside world; it returns a value or raises. A
  cancellation is not an \<open>Exception\<close> and passes every handler. The sleeps of a loop are returned as the list of its
  delays, the draws of the jitter are an argument. Logging is left out.
\<close>

section \<open>Database errors\<close>

definition db_retry_attempts :: int where "db_retry_attempts = 4"
definition db_retry_base_delay :: pyfloat where "db_retry_base_delay = 5 / 100"
definition db_retry_max_delay :: pyfloat where "db_retry_max_delay = 4 / 10"

definition connection_broken_markers :: "string list" where
  "connection_broken_markers =
     [''cannot switch to state'', ''another operation'', ''server disconnected'', ''connection is closed'',
      ''underlying connection is closed'', ''connection has been closed'', ''connection was closed'',
      ''connection has been invalidated'', ''connection invalidated'', ''closed the connection unexpectedly'',
      ''terminating connection'', ''connection reset by peer'', ''broken pipe'', ''connectiondoesnotexist'',
      ''closed in the middle of operation'', ''got result for unknown protocol state'']"

definition retryable_markers :: "string list" where
  "retryable_markers =
     [''deadlock detected'', ''serialization failure'', ''could not serialize access'', ''lock not available'', ''lock timeout'',
      ''canceling statement due to lock timeout'', ''statement timeout'', ''canceling statement due to statement timeout'',
      ''too many clients already'', ''sorry, too many clients already'', ''remaining connection slots are reserved'',
      ''cannot connect now''] @ connection_broken_markers"

text \<open>
  What the code reads of an exception: the text of its \<open>orig\<close> (of itself without one), whether it, its cause and its
  context are timeouts, and the \<open>sqlstate\<close> attributes of its \<open>orig\<close>, cause, context and its own.
\<close>

record db_error =
  de_text :: string
  de_timeout :: bool
  de_cause_timeout :: bool
  de_context_timeout :: bool
  de_orig_state :: string
  de_cause_state :: string
  de_context_state :: string
  de_own_state :: string

datatype 'e exn = Cancelled | Failed 'e | Exhausted string

definition db_error_message :: "db_error \<Rightarrow> string" where
  "db_error_message e = py_lower (de_text e)"

definition is_db_connection_broken :: "db_error \<Rightarrow> bool" where
  "is_db_connection_broken e = list_ex (\<lambda>marker. py_contains marker (db_error_message e)) connection_broken_markers"

definition first_nonempty :: "string list \<Rightarrow> string" where
  "first_nonempty xs = (case filter (\<lambda>s. s \<noteq> []) xs of [] \<Rightarrow> [] | s # _ \<Rightarrow> s)"

definition is_retryable_db_error :: "db_error \<Rightarrow> bool" where
  "is_retryable_db_error e =
     (if de_timeout e then False
      else if de_cause_timeout e then False
      else if de_context_timeout e then False
      else let sqlstate = py_strip (first_nonempty [de_orig_state e, de_cause_state e, de_context_state e, de_own_state e])
           in if sqlstate \<in> {''40P01'', ''40001'', ''55P03'', ''57014''} then True
              else list_ex (\<lambda>marker. py_contains marker (db_error_message e)) retryable_markers)"

definition is_retryable_db_operation_error :: "db_error \<Rightarrow> bool" where
  "is_retryable_db_operation_error e = (de_timeout e \<or> is_retryable_db_error e)"

definition db_retry_delay :: "pyfloat \<Rightarrow> pyfloat \<Rightarrow> nat \<Rightarrow> pyfloat" where
  "db_retry_delay base_delay max_delay attempt = min (base_delay * 2 ^ attempt) max_delay"

section \<open>Retrying a database operation\<close>

type_synonym ('e, 'a, 's) operation = "nat \<Rightarrow> 's \<Rightarrow> ('e exn + 'a) \<times> 's"
type_synonym ('e, 'a, 's) outcome = "('e exn + 'a) \<times> 's \<times> pyfloat list"

primrec db_loop ::
    "('e, 'a, 's) operation \<Rightarrow> ('e \<Rightarrow> bool) \<Rightarrow> (nat \<Rightarrow> pyfloat) \<Rightarrow> nat \<Rightarrow> nat \<Rightarrow> 's \<Rightarrow> ('e, 'a, 's) outcome" where
  "db_loop operation retryable delay 0 attempt s = (Inl (Exhausted ''DB retry loop exited without result''), s, [])"
| "db_loop operation retryable delay (Suc left) attempt s =
     (case operation attempt s of
        (Inr x, s1) \<Rightarrow> (Inr x, s1, [])
      | (Inl (Failed e), s1) \<Rightarrow>
          if left = 0 \<or> \<not> retryable e then (Inl (Failed e), s1, [])
          else (case db_loop operation retryable delay left (attempt + 1) s1 of (r, s2, ds) \<Rightarrow> (r, s2, delay attempt # ds))
      | (Inl x, s1) \<Rightarrow> (Inl x, s1, []))"

definition run_with_db_retries ::
    "('e, 'a, 's) operation \<Rightarrow> int \<Rightarrow> pyfloat \<Rightarrow> pyfloat \<Rightarrow> ('e \<Rightarrow> bool) \<Rightarrow> 's \<Rightarrow> ('e, 'a, 's) outcome" where
  "run_with_db_retries operation max_attempts base_delay max_delay retryable s =
     db_loop operation retryable (db_retry_delay base_delay max_delay) (nat (max 1 max_attempts)) 0 s"

text \<open>A session: its commit, rollback and invalidation may raise.\<close>

record 's session =
  se_commit :: "'s \<Rightarrow> (db_error exn + unit) \<times> 's"
  se_rollback :: "'s \<Rightarrow> (db_error exn + unit) \<times> 's"
  se_invalidate :: "'s \<Rightarrow> (db_error exn + unit) \<times> 's"

text \<open>\<open>try: await f() except Exception: pass\<close>: only a cancellation passes.\<close>

definition swallow :: "('s \<Rightarrow> (db_error exn + unit) \<times> 's) \<Rightarrow> 's \<Rightarrow> bool \<times> 's" where
  "swallow f s = (case f s of (Inl Cancelled, s1) \<Rightarrow> (False, s1) | (_, s1) \<Rightarrow> (True, s1))"

definition commit_once :: "'s session \<Rightarrow> (db_error, unit, 's) operation" where
  "commit_once se attempt s =
     (case se_commit se s of
        (Inl (Failed e), s1) \<Rightarrow>
          (case swallow (se_rollback se) s1 of
             (False, s2) \<Rightarrow> (Inl Cancelled, s2)
           | (True, s2) \<Rightarrow>
               if is_db_connection_broken e
               then (case swallow (se_invalidate se) s2 of (False, s3) \<Rightarrow> (Inl Cancelled, s3) | (True, s3) \<Rightarrow> (Inl (Failed e), s3))
               else (Inl (Failed e), s2))
      | (r, s1) \<Rightarrow> (r, s1))"

definition commit_is_retryable :: "(db_error \<Rightarrow> bool) \<Rightarrow> db_error \<Rightarrow> bool" where
  "commit_is_retryable retryable e = (if is_db_connection_broken e then False else retryable e)"

definition commit_with_retry ::
    "'s session \<Rightarrow> int \<Rightarrow> pyfloat \<Rightarrow> pyfloat \<Rightarrow> (db_error \<Rightarrow> bool) \<Rightarrow> 's \<Rightarrow> (db_error, unit, 's) outcome" where
  "commit_with_retry se max_attempts base_delay max_delay retryable s =
     run_with_db_retries (commit_once se) max_attempts base_delay max_delay (commit_is_retryable retryable) s"

section \<open>Retrying calls and HTTP requests\<close>

text \<open>An exception carries the names of its classes, a status error its code and the header \<open>Retry-After\<close>.\<close>

record call_error =
  ce_classes :: "string list"
  ce_status :: "int option"
  ce_retry_after :: "string option"

record retry_config =
  rc_max_attempts :: int
  rc_base_delay :: pyfloat
  rc_max_delay :: pyfloat
  rc_base :: pyfloat
  rc_jitter :: bool
  rc_exceptions :: "string list"
  rc_status_codes :: "int list"

definition default_retry_config :: retry_config where
  "default_retry_config =
     \<lparr>rc_max_attempts = 4, rc_base_delay = 1, rc_max_delay = 30, rc_base = 2, rc_jitter = True,
      rc_exceptions = [''httpx.TimeoutException'', ''httpx.NetworkError'', ''httpx.ConnectError'', ''ConnectionError'', ''asyncio.TimeoutError''],
      rc_status_codes = [429, 500, 502, 503, 504]\<rparr>"

definition calculate_delay :: "retry_config \<Rightarrow> (nat \<Rightarrow> pyfloat) \<Rightarrow> nat \<Rightarrow> pyfloat" where
  "calculate_delay cfg draw attempt =
     (let delay = min (rc_base_delay cfg * rc_base cfg ^ attempt) (rc_max_delay cfg)
      in if rc_jitter cfg then delay * (1 / 2 + draw attempt) else delay)"

definition is_retryable_error :: "retry_config \<Rightarrow> call_error \<Rightarrow> bool" where
  "is_retryable_error cfg e =
     (if list_ex (\<lambda>c. c \<in> set (rc_exceptions cfg)) (ce_classes e) then True
      else (case ce_status e of Some code \<Rightarrow> code \<in> set (rc_status_codes cfg) | None \<Rightarrow> False))"

text \<open>
  \<open>raise last_error\<close> after the loop: with no attempt at all it raises \<open>None\<close>, a \<open>TypeError\<close>.
\<close>

definition raise_last :: "'e option \<Rightarrow> 'e exn" where
  "raise_last e = (case e of Some x \<Rightarrow> Failed x | None \<Rightarrow> Exhausted ''exceptions must derive from BaseException'')"

primrec call_loop ::
    "('e, 'a, 's) operation \<Rightarrow> ('e \<Rightarrow> bool) \<Rightarrow> (nat \<Rightarrow> pyfloat) \<Rightarrow> nat \<Rightarrow> nat \<Rightarrow> 'e option \<Rightarrow> 's \<Rightarrow> ('e, 'a, 's) outcome" where
  "call_loop func retryable delay 0 attempt last_error s = (Inl (raise_last last_error), s, [])"
| "call_loop func retryable delay (Suc left) attempt last_error s =
     (case func attempt s of
        (Inr x, s1) \<Rightarrow> (Inr x, s1, [])
      | (Inl (Failed e), s1) \<Rightarrow>
          if \<not> retryable e then (Inl (Failed e), s1, [])
          else (case call_loop func retryable delay left (attempt + 1) (Some e) s1 of
                  (r, s2, ds) \<Rightarrow> (r, s2, if left > 0 then delay attempt # ds else ds))
      | (Inl x, s1) \<Rightarrow> (Inl x, s1, []))"

definition with_retry ::
    "retry_config \<Rightarrow> (nat \<Rightarrow> pyfloat) \<Rightarrow> (call_error, 'a, 's) operation \<Rightarrow> 's \<Rightarrow> (call_error, 'a, 's) outcome" where
  "with_retry cfg draw func s =
     call_loop func (is_retryable_error cfg) (calculate_delay cfg draw) (nat (rc_max_attempts cfg)) 0 None s"

text \<open>The client honours \<open>Retry-After\<close> on status 429; \<open>float\<close> of a header that is not a number raises.\<close>

definition request_delay :: "retry_config \<Rightarrow> (string \<Rightarrow> pyfloat option) \<Rightarrow> (nat \<Rightarrow> pyfloat) \<Rightarrow> nat \<Rightarrow> call_error \<Rightarrow> call_error exn + pyfloat" where
  "request_delay cfg read_float draw attempt e =
     (let delay = calculate_delay cfg draw attempt in
      if ce_status e = Some 429 then
        (case ce_retry_after e of
           None \<Rightarrow> Inr delay
         | Some h \<Rightarrow> if h = [] then Inr delay
             else (case read_float h of None \<Rightarrow> Inl (Exhausted ''could not convert string to float'') | Some x \<Rightarrow> Inr (max delay x)))
      else Inr delay)"

primrec request_loop ::
    "('e, 'a, 's) operation \<Rightarrow> ('e \<Rightarrow> bool) \<Rightarrow> (nat \<Rightarrow> 'e \<Rightarrow> 'e exn + pyfloat) \<Rightarrow> nat \<Rightarrow> nat \<Rightarrow> 'e option \<Rightarrow> 's \<Rightarrow> ('e, 'a, 's) outcome" where
  "request_loop send retryable delay 0 attempt last_error s = (Inl (raise_last last_error), s, [])"
| "request_loop send retryable delay (Suc left) attempt last_error s =
     (case send attempt s of
        (Inr x, s1) \<Rightarrow> (Inr x, s1, [])
      | (Inl (Failed e), s1) \<Rightarrow>
          if \<not> retryable e then (Inl (Failed e), s1, [])
          else if left > 0 then
            (case delay attempt e of
               Inl x \<Rightarrow> (Inl x, s1, [])
             | Inr d \<Rightarrow> (case request_loop send retryable delay left (attempt + 1) (Some e) s1 of (r, s2, ds) \<Rightarrow> (r, s2, d # ds)))
          else request_loop send retryable delay left (attempt + 1) (Some e) s1
      | (Inl x, s1) \<Rightarrow> (Inl x, s1, []))"

definition client_request ::
    "retry_config \<Rightarrow> (string \<Rightarrow> pyfloat option) \<Rightarrow> (nat \<Rightarrow> pyfloat) \<Rightarrow> (call_error, 'a, 's) operation \<Rightarrow> 's \<Rightarrow> (call_error, 'a, 's) outcome" where
  "client_request cfg read_float draw send s =
     request_loop send (is_retryable_error cfg) (request_delay cfg read_float draw) (nat (rc_max_attempts cfg)) 0 None s"

section \<open>The contract of a retry loop\<close>

text \<open>The outcomes of the first \<open>m\<close> attempts, one after the other.\<close>

primrec run_attempts :: "('e, 'a, 's) operation \<Rightarrow> nat \<Rightarrow> nat \<Rightarrow> 's \<Rightarrow> ('e exn + 'a) list \<times> 's" where
  "run_attempts f 0 a s = ([], s)"
| "run_attempts f (Suc m) a s = (fst (f a s) # fst (run_attempts f m (a + 1) (snd (f a s))), snd (run_attempts f m (a + 1) (snd (f a s))))"

definition will_retry :: "('e \<Rightarrow> bool) \<Rightarrow> 'e exn + 'a \<Rightarrow> bool" where
  "will_retry retryable r = (case r of Inl (Failed e) \<Rightarrow> retryable e | _ \<Rightarrow> False)"

definition delay_after :: "(nat \<Rightarrow> 'e \<Rightarrow> 'e exn + pyfloat) \<Rightarrow> nat \<Rightarrow> 'e exn + 'a \<Rightarrow> 'e exn + pyfloat" where
  "delay_after delay a r = (case r of Inl (Failed e) \<Rightarrow> delay a e | _ \<Rightarrow> Inr 0)"

text \<open>
  What a loop with \<open>k\<close> attempts left may return: every attempt but the last failed in a way worth retrying and was followed
  by its delay; the loop stops at a success, an error not worth retrying, its last attempt, or a delay that raises.
\<close>

definition retry_result :: "('e \<Rightarrow> bool) \<Rightarrow> (nat \<Rightarrow> 'e \<Rightarrow> 'e exn + pyfloat) \<Rightarrow> nat \<Rightarrow> nat \<Rightarrow> ('e exn + 'a) list \<Rightarrow> 'e exn + 'a \<Rightarrow> pyfloat list \<Rightarrow> bool" where
  "retry_result retryable delay k a os r ds \<longleftrightarrow>
     os \<noteq> [] \<and> length os \<le> k \<and> length os = length ds + 1 \<and>
     (\<forall>i<length ds. will_retry retryable (os ! i) \<and> delay_after delay (a + i) (os ! i) = Inr (ds ! i)) \<and>
     (if will_retry retryable (last os) \<and> length os < k then \<exists>x. delay_after delay (a + length ds) (last os) = Inl x \<and> r = Inl x
      else r = last os)"

lemma retry_result_one:
  "\<not> (will_retry retryable r \<and> 1 < k) \<Longrightarrow> 0 < k \<Longrightarrow> retry_result retryable delay k a [r] r []"
  by (auto simp: retry_result_def)

lemma retry_result_more:
  assumes "retry_result retryable delay k (a + 1) os r ds" "will_retry retryable x" "delay_after delay a x = Inr d"
  shows "retry_result retryable delay (Suc k) a (x # os) r (d # ds)"
proof -
  have "will_retry retryable ((x # os) ! i) \<and> delay_after delay (a + i) ((x # os) ! i) = Inr ((d # ds) ! i)" if "i < Suc (length ds)" for i
    using that assms by (cases i) (auto simp: retry_result_def)
  then show ?thesis using assms(1) by (auto simp: retry_result_def)
qed

locale retrying =
  fixes attempt :: "('e, 'a, 's) operation" and retryable :: "'e \<Rightarrow> bool" and delay :: "nat \<Rightarrow> 'e \<Rightarrow> 'e exn + pyfloat"
    and loop :: "nat \<Rightarrow> nat \<Rightarrow> 's \<Rightarrow> ('e, 'a, 's) outcome"
  assumes stops: "attempt a s = (r, s1) \<Longrightarrow> \<not> will_retry retryable r \<Longrightarrow> loop (Suc k) a s = (r, s1, [])"
    and gives_up: "attempt a s = (r, s1) \<Longrightarrow> will_retry retryable r \<Longrightarrow> loop (Suc 0) a s = (r, s1, [])"
    and no_delay: "attempt a s = (r, s1) \<Longrightarrow> will_retry retryable r \<Longrightarrow> delay_after delay a r = Inl x \<Longrightarrow> loop (Suc (Suc k)) a s = (Inl x, s1, [])"
    and again: "attempt a s = (r, s1) \<Longrightarrow> will_retry retryable r \<Longrightarrow> delay_after delay a r = Inr d \<Longrightarrow>
      loop (Suc (Suc k)) a s = (case loop (Suc k) (a + 1) s1 of (r2, s2, ds) \<Rightarrow> (r2, s2, d # ds))"
begin

lemma loop_result:
  assumes "loop (Suc k) a s = (r, s', ds)"
  shows "retry_result retryable delay (Suc k) a (fst (run_attempts attempt (Suc (length ds)) a s)) r ds \<and>
    s' = snd (run_attempts attempt (Suc (length ds)) a s)"
  using assms
proof (induction k arbitrary: a s r s' ds)
  case (0 a s)
  obtain r1 s1 where o1: "attempt a s = (r1, s1)" by (cases "attempt a s")
  have "loop (Suc 0) a s = (r1, s1, [])" using stops[OF o1] gives_up[OF o1] by blast
  then show ?case using 0 o1 by (auto intro: retry_result_one)
next
  case (Suc k a s)
  obtain r1 s1 where o1: "attempt a s = (r1, s1)" by (cases "attempt a s")
  show ?case
  proof (cases "will_retry retryable r1")
    case False
    then show ?thesis using stops[OF o1 False] Suc.prems o1 by (auto intro: retry_result_one)
  next
    case True
    show ?thesis
    proof (cases "delay_after delay a r1")
      case (Inl x)
      then show ?thesis using no_delay[OF o1 True Inl] Suc.prems o1 True by (auto simp: retry_result_def)
    next
      case (Inr d)
      obtain r2 s2 ds2 where o2: "loop (Suc k) (a + 1) s1 = (r2, s2, ds2)" by (cases "loop (Suc k) (a + 1) s1")
      then have eq: "r = r2" "s' = s2" "ds = d # ds2" using again[OF o1 True Inr] Suc.prems by auto
      show ?thesis using retry_result_more[OF _ True Inr] Suc.IH[OF o2] o1 by (simp add: eq)
    qed
  qed
qed

lemma at_most: "loop (Suc k) a s = (r, s', ds) \<Longrightarrow> length ds \<le> k"
  using loop_result[of k a s r s' ds] by (simp add: retry_result_def)

end

text \<open>When no delay raises, the caller gets the last outcome.\<close>

lemma retry_result_total:
  assumes "retry_result retryable (\<lambda>a e. Inr (dl a)) k a os r ds"
  shows "r = last os" "will_retry retryable r \<Longrightarrow> length os = k" "length os \<le> k" "length os = length ds + 1"
    "i < length ds \<Longrightarrow> will_retry retryable (os ! i) \<and> ds ! i = dl (a + i)"
proof -
  have d: "will_retry retryable x \<Longrightarrow> delay_after (\<lambda>a e. Inr (dl a)) j x = Inr (dl j)" for j and x :: "'a exn + 'b"
    by (auto simp: delay_after_def will_retry_def split: sum.splits exn.splits)
  show "r = last os" "will_retry retryable r \<Longrightarrow> length os = k" "length os \<le> k" "length os = length ds + 1"
    using assms d by (auto simp: retry_result_def split: if_splits)
  show "i < length ds \<Longrightarrow> will_retry retryable (os ! i) \<and> ds ! i = dl (a + i)"
    using assms d unfolding retry_result_def by fastforce
qed

lemma call_loop_last: "call_loop f re dl (Suc k) a e s = call_loop f re dl (Suc k) a None s"
  by simp

lemma request_loop_last: "request_loop f re dl (Suc k) a e s = request_loop f re dl (Suc k) a None s"
  by simp

interpretation db: retrying operation retryable "\<lambda>a e. Inr (delay a)" "\<lambda>k a s. db_loop operation retryable delay k a s"
  for operation retryable delay
  by unfold_locales (auto simp: will_retry_def delay_after_def split: sum.splits exn.splits)

interpretation call: retrying func retryable "\<lambda>a e. Inr (delay a)" "\<lambda>k a s. call_loop func retryable delay k a None s"
  for func retryable delay
  by unfold_locales (auto simp: will_retry_def delay_after_def raise_last_def split: sum.splits exn.splits)

interpretation client: retrying send retryable delay "\<lambda>k a s. request_loop send retryable delay k a None s"
  for send retryable delay
  by unfold_locales (auto simp: will_retry_def delay_after_def raise_last_def split: sum.splits exn.splits)

section \<open>Database retries\<close>

lemma sum_list_le_bound: "\<forall>x\<in>set xs. x \<le> m \<Longrightarrow> sum_list xs \<le> m * real (length xs)"
  by (induction xs) (auto simp: algebra_simps)

lemma list_all2_last: "list_all2 P xs ys \<Longrightarrow> xs \<noteq> [] \<Longrightarrow> P (last xs) (last ys)"
  by (induction rule: list_all2_induct) (auto simp: list_all2_Nil list_all2_Nil2)

lemma run_attempts_length [simp]: "length (fst (run_attempts f m a s)) = m"
  by (induction m arbitrary: a s) auto

text \<open>
  C8: A database operation is retried as documented: it is attempted at least once and at most the allowed number of times,
  every failure but the last was retryable and followed by the capped exponential delay, the caller gets the outcome of the
  last attempt (the error after the loop is unreachable), and a retryable error reaches the caller only when the attempts
  are used up.
\<close>

theorem db_retry_contract:
  assumes "run_with_db_retries operation n base_delay max_delay retryable s = (r, s', ds)"
  shows "let os = fst (run_attempts operation (length ds + 1) 0 s) in
    s' = snd (run_attempts operation (length ds + 1) 0 s) \<and> r = last os \<and> int (length os) \<le> max 1 n \<and>
    (\<forall>i<length ds. will_retry retryable (os ! i) \<and> ds ! i = min (base_delay * 2 ^ i) max_delay) \<and>
    sum_list ds \<le> max_delay * real (length ds) \<and> (will_retry retryable r \<longrightarrow> int (length os) = max 1 n)"
proof -
  obtain k where k: "nat (max 1 n) = Suc k" by (cases "nat (max 1 n)") auto
  let ?os = "fst (run_attempts operation (Suc (length ds)) 0 s)"
  have l: "db_loop operation retryable (db_retry_delay base_delay max_delay) (Suc k) 0 s = (r, s', ds)"
    using assms by (simp add: run_with_db_retries_def k)
  have res: "retry_result retryable (\<lambda>a e. Inr (db_retry_delay base_delay max_delay a)) (Suc k) 0 ?os r ds"
    "s' = snd (run_attempts operation (Suc (length ds)) 0 s)" using db.loop_result[OF l] by blast+
  note tot = retry_result_total[OF res(1)]
  have each: "\<forall>i<length ds. will_retry retryable (?os ! i) \<and> ds ! i = min (base_delay * 2 ^ i) max_delay"
    using tot(5) by (simp add: db_retry_delay_def del: run_attempts.simps)
  have "\<forall>x\<in>set ds. x \<le> max_delay" using each by (auto simp: in_set_conv_nth)
  then have sm: "sum_list ds \<le> max_delay * real (length ds)" by (rule sum_list_le_bound)
  have "int (Suc k) = max 1 n" using k by auto
  then show ?thesis unfolding Let_def Suc_eq_plus1[symmetric] using each tot(1,2,3) res(2) sm by (auto simp del: run_attempts.simps)
qed

definition flaky :: "nat \<Rightarrow> (string, nat, nat) operation" where
  "flaky fails attempt s = (if attempt < fails then (Inl (Failed ''deadlock detected''), s + 1) else (Inr attempt, s + 1))"

theorem db_retry_contract_witness:
  "run_with_db_retries (flaky 2) 4 (5 / 100) (4 / 10) (\<lambda>e. True) 0 = (Inr 2, 3, [1 / 20, 1 / 10]) \<and>
   sum_list [1 / 20, 1 / 10] \<le> (4 / 10 :: pyfloat) * 2"
proof -
  have r: "run_with_db_retries (flaky 2) 4 (5 / 100) (4 / 10) (\<lambda>e. True) 0 = (Inr 2, 3, [1 / 20, 1 / 10])"
    by (simp add: run_with_db_retries_def flaky_def db_retry_delay_def eval_nat_numeral)
  then show ?thesis using db_retry_contract[OF r] by (simp add: Let_def)
qed

section \<open>Commits\<close>

text \<open>A session that notes the outcome of every commit.\<close>

definition logged :: "'s session \<Rightarrow> ('s \<times> (db_error exn + unit) list) session" where
  "logged se =
     \<lparr>se_commit = (\<lambda>(s, calls). case se_commit se s of (r, s1) \<Rightarrow> (r, (s1, calls @ [r]))),
      se_rollback = (\<lambda>(s, calls). case se_rollback se s of (r, s1) \<Rightarrow> (r, (s1, calls))),
      se_invalidate = (\<lambda>(s, calls). case se_invalidate se s of (r, s1) \<Rightarrow> (r, (s1, calls)))\<rparr>"

lemma swallow_logged:
  "snd (snd (swallow (se_rollback (logged se)) (s, calls))) = calls" "snd (snd (swallow (se_invalidate (logged se)) (s, calls))) = calls"
  by (auto simp: swallow_def logged_def split: prod.splits sum.splits exn.splits)

definition reported :: "db_error exn + unit \<Rightarrow> db_error exn + unit \<Rightarrow> bool" where
  "reported r c \<longleftrightarrow> (r = Inr () \<longleftrightarrow> c = Inr ()) \<and> (\<forall>e. r = Inl (Failed e) \<longrightarrow> c = r)"

lemma commit_once_logged:
  assumes "commit_once (logged se) a (s, calls) = (r, (s', calls'))"
  shows "\<exists>c. calls' = calls @ [c] \<and> reported r c"
proof -
  obtain c s1 where c: "se_commit se s = (c, s1)" by (cases "se_commit se s")
  have lc: "se_commit (logged se) (s, calls) = (c, (s1, calls @ [c]))" by (simp add: logged_def c)
  obtain b s2 l2 where rb: "swallow (se_rollback (logged se)) (s1, calls @ [c]) = (b, (s2, l2))"
    by (cases "swallow (se_rollback (logged se)) (s1, calls @ [c])") auto
  obtain b3 s3 l3 where iv: "swallow (se_invalidate (logged se)) (s2, l2) = (b3, (s3, l3))"
    by (cases "swallow (se_invalidate (logged se)) (s2, l2)") auto
  have l2: "l2 = calls @ [c]" using swallow_logged(1)[of se s1 "calls @ [c]"] rb by simp
  have l3: "l3 = l2" using swallow_logged(2)[of se s2 l2] iv by simp
  show ?thesis using assms rb iv unfolding commit_once_def lc
    by (auto simp: l2 l3 reported_def split: sum.splits exn.splits if_splits bool.splits)
qed

lemma commits_logged:
  "\<exists>cs. snd (snd (run_attempts (commit_once (logged se)) m a (s, calls))) = calls @ cs \<and>
     list_all2 reported (fst (run_attempts (commit_once (logged se)) m a (s, calls))) cs"
proof (induction m arbitrary: a s calls)
  case (Suc m)
  obtain r s1 calls1 where o1: "commit_once (logged se) a (s, calls) = (r, (s1, calls1))" by (metis prod.collapse)
  obtain c where c: "calls1 = calls @ [c]" "reported r c" using commit_once_logged[OF o1] by blast
  obtain cs where "snd (snd (run_attempts (commit_once (logged se)) m (a + 1) (s1, calls1))) = calls1 @ cs"
    "list_all2 reported (fst (run_attempts (commit_once (logged se)) m (a + 1) (s1, calls1))) cs"
    using Suc.IH by blast
  then show ?case using o1 c by (auto intro!: exI[of _ "c # cs"])
qed simp


definition broken_error :: db_error where
  "broken_error =
     \<lparr>de_text = ''connection is closed'', de_timeout = False, de_cause_timeout = False, de_context_timeout = False,
      de_orig_state = [], de_cause_state = [], de_context_state = [], de_own_state = []\<rparr>"

definition broken_session :: "nat session" where
  "broken_session = \<lparr>se_commit = (\<lambda>s. (Inl (Failed broken_error), s + 1)), se_rollback = (\<lambda>s. (Inr (), s)), se_invalidate = (\<lambda>s. (Inr (), s))\<rparr>"


section \<open>Requests\<close>

text \<open>
  C40: A rate-limited response whose \<open>Retry-After\<close> is not a number, as the HTTP date form is not, ends the request with the
  conversion error at its first attempt: it is neither retried nor reported as the response it was.
\<close>

theorem retry_after_date_aborts:
  assumes "send 0 s = (Inl (Failed \<lparr>ce_classes = [''httpx.HTTPStatusError''], ce_status = Some 429, ce_retry_after = Some (c # cs)\<rparr>), s1)"
    and "read_float (c # cs) = None"
  shows "client_request default_retry_config read_float draw send s = (Inl (Exhausted ''could not convert string to float''), s1, [])"
  using assms by (simp add: client_request_def default_retry_config_def eval_nat_numeral is_retryable_error_def request_delay_def)

theorem retry_after_date_aborts_witness:
  "client_request default_retry_config (\<lambda>h. None) (\<lambda>i. 0)
     (\<lambda>a s. (Inl (Failed \<lparr>ce_classes = [''httpx.HTTPStatusError''], ce_status = Some 429, ce_retry_after = Some ''Wed, 21 Oct 2015 07:28:00 GMT''\<rparr>), s + 1))
     (0::nat) = (Inl (Exhausted ''could not convert string to float'') :: call_error exn + unit, 1, [])"
  by (rule retry_after_date_aborts) simp_all

end
