(* ===== verification/MarketData.thy ===== *)
theory MarketData
  imports Book "HOL-Library.Multiset"
begin

text \<open>
  The unified market-data layer: the as-of series of \<open>services/marketdata/asof.py\<close>, the ordered merges of
  \<open>services/marketdata/merge.py\<close>, the reading of canonical rows of \<open>services/marketdata/book.py\<close> and the book access of
  \<open>services/marketdata/view.py\<close>.

  Times are microseconds throughout, so the conversions between them and \<open>datetime\<close> are the identity. Reading a file
  (\<open>pyarrow\<close>) and the coverage of a token are arguments; the integrity checker and the content hash of the data set, which
  only touch files, are left out.
\<close>

section \<open>As-of series\<close>

record 'a asof =
  as_ts :: "int list"
  as_vals :: "'a list"
  as_final :: bool

definition empty_series :: "'a asof" where
  "empty_series = \<lparr>as_ts = [], as_vals = [], as_final = False\<rparr>"

definition bisect_as_of :: "int list \<Rightarrow> int \<Rightarrow> int" where
  "bisect_as_of ts t = int (bisect_right ts t) - 1"

definition add_entry :: "int \<Rightarrow> 'a \<Rightarrow> 'a asof \<Rightarrow> py_error + 'a asof" where
  "add_entry t v s =
     (if as_final s then raise (RuntimeError ''AsOfSeries.add() after finalize()/read'')
      else ok (s\<lparr>as_ts := as_ts s @ [t], as_vals := as_vals s @ [v]\<rparr>))"

definition extend_series :: "(int \<times> 'a) list \<Rightarrow> 'a asof \<Rightarrow> py_error + 'a asof" where
  "extend_series ps s = run_steps (\<lambda>s (t, v). add_entry t v s) s ps"

definition finalize :: "'a asof \<Rightarrow> 'a asof" where
  "finalize s =
     (if as_final s then s
      else if as_ts s = [] then s\<lparr>as_final := True\<rparr>
      else let order = sort_key ((!) (as_ts s)) [0..<length (as_ts s)]
           in s\<lparr>as_ts := map ((!) (as_ts s)) order, as_vals := map ((!) (as_vals s)) order, as_final := True\<rparr>)"

definition as_of_entry :: "int \<Rightarrow> int option \<Rightarrow> 'a asof \<Rightarrow> (int \<times> 'a) option \<times> 'a asof" where
  "as_of_entry t max_staleness s =
     (let s1 = (if as_final s then s else finalize s) in
      if as_ts s1 = [] then (None, s1)
      else let i = bisect_as_of (as_ts s1) t in
        if i < 0 then (None, s1)
        else (case max_staleness of
            None \<Rightarrow> (Some (as_ts s1 ! nat i, as_vals s1 ! nat i), s1)
          | Some m \<Rightarrow> if t - as_ts s1 ! nat i > m then (None, s1) else (Some (as_ts s1 ! nat i, as_vals s1 ! nat i), s1)))"

definition as_of :: "int \<Rightarrow> int option \<Rightarrow> 'a asof \<Rightarrow> 'a option \<times> 'a asof" where
  "as_of t max_staleness s =
     (let s1 = (if as_final s then s else finalize s) in
      if as_ts s1 = [] then (None, s1)
      else let i = bisect_as_of (as_ts s1) t in
        if i < 0 then (None, s1)
        else (case max_staleness of
            None \<Rightarrow> (Some (as_vals s1 ! nat i), s1)
          | Some m \<Rightarrow> if t - as_ts s1 ! nat i > m then (None, s1) else (Some (as_vals s1 ! nat i), s1)))"

function bisect_left_loop :: "int list \<Rightarrow> int \<Rightarrow> nat \<Rightarrow> nat \<Rightarrow> nat" where
  "bisect_left_loop a x lo hi =
     (if lo < hi then
        let m = (lo + hi) div 2 in if a ! m < x then bisect_left_loop a x (m + 1) hi else bisect_left_loop a x lo m
      else lo)"
  by pat_completeness auto
termination
  by (relation "measure (\<lambda>(a, x, lo, hi). hi - lo)") auto

declare bisect_left_loop.simps [simp del]

definition bisect_left :: "int list \<Rightarrow> int \<Rightarrow> nat" where
  "bisect_left a x = bisect_left_loop a x 0 (length a)"

definition iter_range :: "int \<Rightarrow> int \<Rightarrow> 'a asof \<Rightarrow> (int \<times> 'a) list \<times> 'a asof" where
  "iter_range start_us end_us s =
     (let s1 = (if as_final s then s else finalize s); lo = bisect_left (as_ts s1) start_us; hi = bisect_right (as_ts s1) end_us
      in (map (\<lambda>i. (as_ts s1 ! i, as_vals s1 ! i)) [lo..<hi], s1))"

definition first_ts_us :: "'a asof \<Rightarrow> int option" where
  "first_ts_us s = (let s1 = (if as_final s then s else finalize s) in if as_ts s1 = [] then None else Some (hd (as_ts s1)))"

definition last_ts_us :: "'a asof \<Rightarrow> int option" where
  "last_ts_us s = (let s1 = (if as_final s then s else finalize s) in if as_ts s1 = [] then None else Some (last (as_ts s1)))"

section \<open>Ordered merge\<close>

text \<open>
  The heap holds, for every source that is not exhausted, its key, its index, its head and the rest: it is the list of the
  pending sources. A pop takes the least key, of equal keys the least index.
\<close>

fun least_head :: "('a \<Rightarrow> int) \<Rightarrow> nat \<Rightarrow> 'a list list \<Rightarrow> (int \<times> nat) option" where
  "least_head key i [] = None"
| "least_head key i ([] # ss) = least_head key (Suc i) ss"
| "least_head key i ((x # xs) # ss) =
     (case least_head key (Suc i) ss of
        None \<Rightarrow> Some (key x, i)
      | Some (k, j) \<Rightarrow> if key x \<le> k then Some (key x, i) else Some (k, j))"

lemma least_head_none: "least_head key i ss = None \<longleftrightarrow> (\<forall>s\<in>set ss. s = [])"
  by (induction key i ss rule: least_head.induct) (auto split: option.splits)

lemma least_head_some:
  "least_head key i ss = Some (k, j) \<Longrightarrow>
   i \<le> j \<and> j - i < length ss \<and> ss ! (j - i) \<noteq> [] \<and> key (hd (ss ! (j - i))) = k \<and>
   (\<forall>l<length ss. ss ! l \<noteq> [] \<longrightarrow> k \<le> key (hd (ss ! l)) \<and> (l < j - i \<longrightarrow> k < key (hd (ss ! l))))"
proof (induction key i ss arbitrary: k j rule: least_head.induct)
  case (2 key i ss)
  then have ih: "Suc i \<le> j" "j - Suc i < length ss" "ss ! (j - Suc i) \<noteq> []" "key (hd (ss ! (j - Suc i))) = k"
    "\<forall>l<length ss. ss ! l \<noteq> [] \<longrightarrow> k \<le> key (hd (ss ! l)) \<and> (l < j - Suc i \<longrightarrow> k < key (hd (ss ! l)))" by auto
  have s: "j - i = Suc (j - Suc i)" using ih(1) by linarith
  have "k \<le> key (hd (([] # ss) ! l)) \<and> (l < j - i \<longrightarrow> k < key (hd (([] # ss) ! l)))"
    if "l < length ([] # ss)" "([] # ss) ! l \<noteq> []" for l
    using that ih(5) s by (cases l) auto
  then show ?case using ih s by auto
next
  case (3 key i x xs ss)
  show ?case
  proof (cases "least_head key (Suc i) ss")
    case None
    then have none: "ss ! l = []" if "l < length ss" for l
      using that nth_mem unfolding least_head_none by blast
    have "k \<le> key (hd (((x # xs) # ss) ! l))" if "l < length ((x # xs) # ss)" "((x # xs) # ss) ! l \<noteq> []" for l
      using that 3(2) None none[of "l - 1"] by (cases l) auto
    then show ?thesis using 3(2) None by auto
  next
    case (Some p)
    obtain k' j' where p: "p = (k', j')" by (cases p)
    have ih: "Suc i \<le> j'" "j' - Suc i < length ss" "ss ! (j' - Suc i) \<noteq> []" "key (hd (ss ! (j' - Suc i))) = k'"
      "\<forall>l<length ss. ss ! l \<noteq> [] \<longrightarrow> k' \<le> key (hd (ss ! l)) \<and> (l < j' - Suc i \<longrightarrow> k' < key (hd (ss ! l)))"
      using 3(1)[of k' j'] Some p by auto
    have s: "j' - i = Suc (j' - Suc i)" using ih(1) by linarith
    show ?thesis
    proof (cases "key x \<le> k'")
      case True
      then have kj: "k = key x" "j = i" using 3(2) Some p by auto
      have "k \<le> key (hd (((x # xs) # ss) ! l))" if "l < length ((x # xs) # ss)" "((x # xs) # ss) ! l \<noteq> []" for l
        using that ih(5) True kj by (cases l) fastforce+
      then show ?thesis using kj by auto
    next
      case False
      then have kj: "k = k'" "j = j'" using 3(2) Some p by auto
      have "k \<le> key (hd (((x # xs) # ss) ! l)) \<and> (l < j - i \<longrightarrow> k < key (hd (((x # xs) # ss) ! l)))"
        if "l < length ((x # xs) # ss)" "((x # xs) # ss) ! l \<noteq> []" for l
        using that ih(5) False kj s by (cases l) auto
      then show ?thesis using kj ih s by auto
    qed
  qed
qed simp

function merge_loop :: "('a \<Rightarrow> int) \<Rightarrow> 'a list list \<Rightarrow> 'a list" where
  "merge_loop key ss =
     (case least_head key 0 ss of
        None \<Rightarrow> []
      | Some (k, i) \<Rightarrow> hd (ss ! i) # merge_loop key (ss[i := tl (ss ! i)]))"
  by pat_completeness auto
termination
proof (relation "measure (\<lambda>(key, ss). length (concat ss))")
  fix key :: "'a \<Rightarrow> int" and ss :: "'a list list" and p k i
  assume a: "least_head key 0 ss = Some p" "(k, i) = p"
  then have i: "i < length ss" "ss ! i \<noteq> []" using least_head_some[of key 0 ss k i] by auto
  have "length (concat (ss[i := tl (ss ! i)])) + 1 = length (concat ss)"
    using i by (induction ss arbitrary: i) (auto split: nat.splits)
  then show "((key, ss[i := tl (ss ! i)]), key, ss) \<in> measure (\<lambda>(key, ss). length (concat ss))" by simp
qed simp

declare merge_loop.simps [simp del]

definition aordered_merge :: "'a list list \<Rightarrow> ('a \<Rightarrow> int) \<Rightarrow> 'a list" where
  "aordered_merge sources key = merge_loop key sources"

definition ordered_merge :: "'a list list \<Rightarrow> ('a \<Rightarrow> int) \<Rightarrow> 'a list" where
  "ordered_merge sources key = merge_loop key sources"

section \<open>Rows and books\<close>

record market_row =
  mr_token :: "string option"
  mr_observed :: "int option"
  mr_sequence :: "int option"
  mr_spread :: "pyfloat option"
  mr_bids_price :: "pyfloat option list option"
  mr_bids_size :: "pyfloat option list option"
  mr_asks_price :: "pyfloat option list option"
  mr_asks_size :: "pyfloat option list option"
  mr_trade_price :: "pyfloat option"
  mr_trade_size :: "pyfloat option"
  mr_trade_side :: "string option"

definition float_or_zero :: "pyfloat option \<Rightarrow> pyfloat" where
  "float_or_zero x = (case x of None \<Rightarrow> 0 | Some v \<Rightarrow> v)"

definition list_or_nil :: "'a list option \<Rightarrow> 'a list" where
  "list_or_nil x = (case x of None \<Rightarrow> [] | Some v \<Rightarrow> v)"

definition raw_levels :: "pyfloat option list option \<Rightarrow> pyfloat option list option \<Rightarrow> bool \<Rightarrow> (pyfloat \<times> pyfloat) list" where
  "raw_levels prices sizes descending =
     sort_key (\<lambda>l. if descending then - fst l else fst l)
       (filter (\<lambda>(p, s). \<not> (p \<le> 0 \<or> p \<ge> 1 \<or> s \<le> 0))
         (map (\<lambda>(p, s). (float_or_zero p, float_or_zero s)) (zip (list_or_nil prices) (list_or_nil sizes))))"

definition top_price :: "(pyfloat \<times> pyfloat) list \<Rightarrow> pyfloat option" where
  "top_price ls = (case ls of [] \<Rightarrow> None | l # _ \<Rightarrow> Some (fst l))"

definition row_to_book_snapshot :: "string \<Rightarrow> market_row \<Rightarrow> book_snapshot" where
  "row_to_book_snapshot token r =
     (let bids_raw = raw_levels (mr_bids_price r) (mr_bids_size r) True; asks_raw = raw_levels (mr_asks_price r) (mr_asks_size r) False
      in \<lparr>s_token = token, s_observed_at = (case mr_observed r of None \<Rightarrow> 0 | Some o' \<Rightarrow> o'), s_sequence = mr_sequence r,
          s_spread_bps = mr_spread r, s_trade_price = mr_trade_price r, s_trade_size = mr_trade_size r,
          s_trade_side = (case mr_trade_side r of None \<Rightarrow> None | Some x \<Rightarrow> if x = [] then None else Some x),
          s_top_bid = top_price bids_raw, s_top_ask = top_price asks_raw, s_bids = None, s_asks = None,
          s_bids_raw = Some bids_raw, s_asks_raw = Some asks_raw\<rparr>)"

text \<open>Loading: unreadable files are skipped, so are rows without a time, outside the window or of another token.\<close>

definition row_in_window :: "string \<Rightarrow> int \<Rightarrow> int \<Rightarrow> market_row \<Rightarrow> bool" where
  "row_in_window token start_us end_us r =
     (case mr_observed r of
        None \<Rightarrow> False
      | Some o' \<Rightarrow> \<not> (o' < start_us \<or> o' > end_us) \<and> (case mr_token r of None \<Rightarrow> [] | Some t \<Rightarrow> t) = token)"

definition window_rows :: "('f \<Rightarrow> string + market_row list) \<Rightarrow> string \<Rightarrow> 'f list \<Rightarrow> int \<Rightarrow> int \<Rightarrow> market_row list" where
  "window_rows read_table token files start_us end_us =
     concat (map (\<lambda>f. case read_table f of Inl _ \<Rightarrow> [] | Inr rows \<Rightarrow> filter (row_in_window token start_us end_us) rows) files)"

definition row_entry :: "string \<Rightarrow> market_row \<Rightarrow> int \<times> book_snapshot" where
  "row_entry token r = ((case mr_observed r of None \<Rightarrow> 0 | Some o' \<Rightarrow> o'), row_to_book_snapshot token r)"

definition load_book_series ::
    "('f \<Rightarrow> string + market_row list) \<Rightarrow> string \<Rightarrow> 'f list \<Rightarrow> int \<Rightarrow> int \<Rightarrow> py_error + (book_snapshot asof \<times> nat)" where
  "load_book_series read_table token files start_us end_us =
     (let rows = window_rows read_table token files start_us end_us in
      case extend_series (map (row_entry token) rows) empty_series of
        Inl e \<Rightarrow> Inl e
      | Inr s \<Rightarrow> ok (finalize s, length rows))"

section \<open>The view\<close>

record 'f market_view =
  vw_files :: "string \<Rightarrow> 'f list"
  vw_covered :: "string list"
  vw_start :: int
  vw_end :: int
  vw_cache :: "(string, book_snapshot asof) dict"
  vw_rows :: "(string, nat) dict"

definition new_view :: "(string \<Rightarrow> 'f list) \<Rightarrow> string list \<Rightarrow> int \<Rightarrow> int \<Rightarrow> 'f market_view" where
  "new_view files covered start_us end_us =
     \<lparr>vw_files = files, vw_covered = covered, vw_start = start_us, vw_end = end_us, vw_cache = [], vw_rows = []\<rparr>"

definition cache_series :: "string \<Rightarrow> book_snapshot asof \<Rightarrow> nat \<Rightarrow> 'f market_view \<Rightarrow> 'f market_view" where
  "cache_series token s n vw = vw\<lparr>vw_cache := dict_set (vw_cache vw) token s, vw_rows := dict_set (vw_rows vw) token n\<rparr>"

definition series_for ::
    "('f \<Rightarrow> string + market_row list) \<Rightarrow> string \<Rightarrow> 'f market_view \<Rightarrow> py_error + (book_snapshot asof \<times> 'f market_view)" where
  "series_for read_table token vw =
     (case dict_get (vw_cache vw) token of
        Some s \<Rightarrow> ok (s, vw)
      | None \<Rightarrow>
          if vw_files vw token = [] then ok (finalize empty_series, cache_series token (finalize empty_series) 0 vw)
          else (case load_book_series read_table token (vw_files vw token) (vw_start vw) (vw_end vw) of
                  Inl e \<Rightarrow> Inl e
                | Inr (s, n) \<Rightarrow> ok (s, cache_series token s n vw)))"

definition py_int :: "pyfloat \<Rightarrow> int" where
  "py_int x = (if 0 \<le> x then \<lfloor>x\<rfloor> else \<lceil>x\<rceil>)"

definition book_at ::
    "('f \<Rightarrow> string + market_row list) \<Rightarrow> string \<Rightarrow> timestamp \<Rightarrow> pyfloat option \<Rightarrow> 'f market_view \<Rightarrow> py_error + (book_snapshot option \<times> 'f market_view)" where
  "book_at read_table token ts max_staleness_seconds vw =
     (case series_for read_table token vw of
        Inl e \<Rightarrow> Inl e
      | Inr (s, vw1) \<Rightarrow> ok (fst (as_of ts (map_option (\<lambda>x. py_int (x * 1000000)) max_staleness_seconds) s), vw1))"

primrec all_series ::
    "('f \<Rightarrow> string + market_row list) \<Rightarrow> string list \<Rightarrow> 'f market_view \<Rightarrow> py_error + (book_snapshot asof list \<times> 'f market_view)" where
  "all_series read_table [] vw = ok ([], vw)"
| "all_series read_table (t # ts) vw =
     (case series_for read_table t vw of
        Inl e \<Rightarrow> Inl e
      | Inr (s, vw1) \<Rightarrow> (case all_series read_table ts vw1 of Inl e \<Rightarrow> Inl e | Inr (ss, vw2) \<Rightarrow> ok (s # ss, vw2)))"

definition iter_books ::
    "('f \<Rightarrow> string + market_row list) \<Rightarrow> string list option \<Rightarrow> 'f market_view \<Rightarrow> py_error + (book_snapshot list \<times> 'f market_view)" where
  "iter_books read_table token_ids vw =
     (case all_series read_table (case token_ids of Some ts \<Rightarrow> ts | None \<Rightarrow> vw_covered vw) vw of
        Inl e \<Rightarrow> Inl e
      | Inr (ss, vw1) \<Rightarrow> ok (map snd (ordered_merge (map (\<lambda>s. fst (iter_range (vw_start vw) (vw_end vw) s)) ss) fst), vw1))"

definition loaded_token_count :: "'f market_view \<Rightarrow> nat" where
  "loaded_token_count vw = length (filter (\<lambda>(t, s). as_ts s \<noteq> []) (vw_cache vw))"

section \<open>A merge is a stable sort\<close>

lemma concat_pop:
  assumes "i < length ss" "ss ! i = x # xs"
  shows "concat ss = concat (take i ss) @ x # xs @ concat (drop (Suc i) ss)"
    "concat (ss[i := xs]) = concat (take i ss) @ xs @ concat (drop (Suc i) ss)"
proof -
  have "ss = take i ss @ (x # xs) # drop (Suc i) ss" using assms by (metis id_take_nth_drop)
  then have "concat ss = concat (take i ss @ (x # xs) # drop (Suc i) ss)" by simp
  then show "concat ss = concat (take i ss) @ x # xs @ concat (drop (Suc i) ss)" by simp
  show "concat (ss[i := xs]) = concat (take i ss) @ xs @ concat (drop (Suc i) ss)"
    using assms(1) by (simp add: upd_conv_take_nth_drop)
qed

lemma merge_loop_facts:
  "\<forall>s\<in>set ss. sorted (map key s) \<Longrightarrow>
   mset (merge_loop key ss) = mset (concat ss) \<and> sorted (map key (merge_loop key ss)) \<and>
   (\<forall>k. filter (\<lambda>x. k = key x) (merge_loop key ss) = filter (\<lambda>x. k = key x) (concat ss))"
proof (induction key ss rule: merge_loop.induct)
  case (1 key ss)
  show ?case
  proof (cases "least_head key 0 ss")
    case None
    then have "concat ss = []" by (simp add: least_head_none)
    then show ?thesis using None by (simp only: merge_loop.simps[of key ss]) simp
  next
    case (Some p)
    obtain k i where p: "p = (k, i)" by (cases p)
    have i: "i < length ss" "ss ! i \<noteq> []" "key (hd (ss ! i)) = k"
      and least: "\<forall>l<length ss. ss ! l \<noteq> [] \<longrightarrow> k \<le> key (hd (ss ! l)) \<and> (l < i \<longrightarrow> k < key (hd (ss ! l)))"
      using least_head_some[of key 0 ss k i] Some p by auto
    obtain x xs where x: "ss ! i = x # xs" using i(2) by (cases "ss ! i") auto
    note c = concat_pop[OF i(1) x]
    have step: "merge_loop key ss = x # merge_loop key (ss[i := xs])"
      by (subst merge_loop.simps) (simp add: Some p x)
    have kx: "key x = k" using i(3) x by simp
    have sorted': "\<forall>s\<in>set (ss[i := xs]). sorted (map key s)"
      using 1(2) nth_mem[OF i(1)] x by (auto dest!: set_update_subset_insert[THEN subsetD])
    have ih: "mset (merge_loop key (ss[i := xs])) = mset (concat (ss[i := xs]))" "sorted (map key (merge_loop key (ss[i := xs])))"
      "\<And>k. filter (\<lambda>x. k = key x) (merge_loop key (ss[i := xs])) = filter (\<lambda>x. k = key x) (concat (ss[i := xs]))"
      using 1(1)[OF Some p[symmetric]] sorted' x by auto
    have above: "k \<le> key y" "l < i \<Longrightarrow> k < key y" if l: "l < length ss" and y: "y \<in> set (ss ! l)" for l y
    proof -
      obtain z zs where z: "ss ! l = z # zs" using y by (cases "ss ! l") auto
      have "sorted (map key (ss ! l))" using 1(2) nth_mem[OF l] by blast
      then have "key z \<le> key y" using y z by auto
      moreover have "k \<le> key z \<and> (l < i \<longrightarrow> k < key z)" using least l z by (metis list.distinct(1) list.sel(1))
      ultimately show "k \<le> key y" "l < i \<Longrightarrow> k < key y" by auto
    qed
    have "\<forall>y\<in>set (concat ss). k \<le> key y" using above(1) by (auto simp: in_set_conv_nth) (metis in_set_conv_nth)
    then have ge: "\<forall>y\<in>set (merge_loop key (ss[i := xs])). k \<le> key y"
      using mset_eq_setD[OF ih(1)] c by auto
    have lt: "k < key y" if y: "y \<in> set (concat (take i ss))" for y
    proof -
      obtain s where s: "s \<in> set (take i ss)" "y \<in> set s" using y by auto
      then obtain l where l: "l < length (take i ss)" "take i ss ! l = s" by (auto simp: in_set_conv_nth)
      then show ?thesis using above(2)[of l y] i(1) s(2) by simp
    qed
    have before: "filter (\<lambda>y. key x = key y) (concat (take i ss)) = []"
      unfolding filter_empty_conv kx by (metis lt order_less_irrefl)
    have "filter (\<lambda>y. k' = key y) (merge_loop key ss) = filter (\<lambda>y. k' = key y) (concat ss)" for k'
      using ih(3)[of k'] before by (cases "k' = key x") (simp_all add: step c)
    moreover have "mset (merge_loop key ss) = mset (concat ss)" using ih(1) by (simp add: step c)
    moreover have "sorted (map key (merge_loop key ss))" using ih(2) ge kx by (simp add: step)
    ultimately show ?thesis by blast
  qed
qed

text \<open>
  The ordered merges are the stable sort they stand for: on ascending sources they yield every entry of every source
  exactly once, in ascending key order, entries of equal key in the order of the sources and within a source in its own.
\<close>

theorem merge_is_stable_sort:
  assumes "\<forall>s\<in>set sources. sorted (map key s)"
  shows "ordered_merge sources key = sort_key key (concat sources) \<and> aordered_merge sources key = sort_key key (concat sources)"
proof -
  note f = merge_loop_facts[OF assms]
  have "sort_key key (concat sources) = merge_loop key sources"
    by (rule properties_for_sort_key) (use f in auto)
  then show ?thesis by (simp add: ordered_merge_def aordered_merge_def)
qed

theorem merge_is_stable_sort_witness:
  "ordered_merge [[(1, ''a''), (4, ''b'')], [], [(1, ''c''), (2, ''d'')]] fst = [(1::int, ''a''), (1, ''c''), (2, ''d''), (4, ''b'')]"
  using merge_is_stable_sort[of "[[(1, ''a''), (4, ''b'')], [], [(1, ''c''), (2, ''d'')]]" "fst :: int \<times> string \<Rightarrow> int"] by simp

section \<open>As-of lookups\<close>

definition before_at :: "(nat \<Rightarrow> int) \<Rightarrow> nat \<Rightarrow> nat \<Rightarrow> bool" where
  "before_at f i j \<longleftrightarrow> f i < f j \<or> (f i = f j \<and> i < j)"

lemma insort_before: "\<forall>y\<in>set ys. x < y \<Longrightarrow> sorted_wrt (before_at f) ys \<Longrightarrow> sorted_wrt (before_at f) (insort_key f x ys)"
  by (induction ys) (auto simp: before_at_def set_insort_key)

lemma sort_key_before: "sorted_wrt (<) xs \<Longrightarrow> sorted_wrt (before_at f) (sort_key f xs)"
  by (induction xs) (auto simp: insort_before)

lemma insort_key_eq: "\<forall>y\<in>insert x (set ys). f y = g y \<Longrightarrow> insort_key f x ys = insort_key g x ys"
  by (induction ys) auto

lemma sort_key_eq: "\<forall>x\<in>set xs. f x = g x \<Longrightarrow> sort_key f xs = sort_key g xs"
  by (induction xs) (auto intro!: insort_key_eq simp: set_insort_key)

text \<open>The series after a list of additions.\<close>

definition series_of :: "(int \<times> 'a) list \<Rightarrow> 'a asof" where
  "series_of ps = \<lparr>as_ts = map fst ps, as_vals = map snd ps, as_final = False\<rparr>"

lemma extend_series_ok: "\<not> as_final s \<Longrightarrow>
   extend_series ps s = Inr (s\<lparr>as_ts := as_ts s @ map fst ps, as_vals := as_vals s @ map snd ps\<rparr>)"
  by (induction ps arbitrary: s) (auto simp: extend_series_def add_entry_def case_prod_unfold)

lemma extend_empty: "extend_series ps empty_series = Inr (series_of ps)"
  by (simp add: extend_series_ok empty_series_def series_of_def)

lemma finalize_series:
  obtains order where "finalize (series_of ps) = \<lparr>as_ts = map (\<lambda>i. fst (ps ! i)) order, as_vals = map (\<lambda>i. snd (ps ! i)) order, as_final = True\<rparr>"
    "set order = {..<length ps}" "sorted_wrt (before_at (\<lambda>i. fst (ps ! i))) order" "length order = length ps" "mset order = mset [0..<length ps]"
proof
  define order where "order = sort_key (\<lambda>i. fst (ps ! i)) [0..<length ps]"
  have o: "set order = {..<length ps}" "length order = length ps" by (auto simp: order_def)
  have srt: "sort_key ((!) (map fst ps)) [0..<length ps] = order" unfolding order_def by (rule sort_key_eq) auto
  show "finalize (series_of ps) = \<lparr>as_ts = map (\<lambda>i. fst (ps ! i)) order, as_vals = map (\<lambda>i. snd (ps ! i)) order, as_final = True\<rparr>"
  proof (cases "ps = []")
    case False
    have "map ((!) (map fst ps)) order = map (\<lambda>i. fst (ps ! i)) order" "map ((!) (map snd ps)) order = map (\<lambda>i. snd (ps ! i)) order"
      using o(1) by auto
    then show ?thesis using False srt by (simp add: finalize_def series_of_def Let_def)
  qed (simp add: order_def finalize_def series_of_def)
  show "set order = {..<length ps}" "length order = length ps" by (fact o)+
  show "sorted_wrt (before_at (\<lambda>i. fst (ps ! i))) order" unfolding order_def by (rule sort_key_before) simp
  show "mset order = mset [0..<length ps]" by (simp add: order_def)
qed

text \<open>The entry an as-of lookup stands for: newest time not after the query, of equal times the one added last.\<close>

definition visible_entry :: "(int \<times> 'a) list \<Rightarrow> int \<Rightarrow> nat \<Rightarrow> bool" where
  "visible_entry ps t i \<longleftrightarrow> i < length ps \<and> fst (ps ! i) \<le> t \<and>
     (\<forall>k<length ps. fst (ps ! k) \<le> t \<longrightarrow> k = i \<or> before_at (\<lambda>i. fst (ps ! i)) k i)"

lemma as_of_finalized:
  "fst (as_of t stale (finalize (series_of ps))) = v \<Longrightarrow>
   (case v of
      None \<Rightarrow> (\<forall>p\<in>set ps. t < fst p) \<or> (\<exists>i m. visible_entry ps t i \<and> stale = Some m \<and> m < t - fst (ps ! i))
    | Some x \<Rightarrow> \<exists>i. visible_entry ps t i \<and> x = snd (ps ! i) \<and> (\<forall>m. stale = Some m \<longrightarrow> t - fst (ps ! i) \<le> m))"
proof -
  assume v: "fst (as_of t stale (finalize (series_of ps))) = v"
  obtain order where fin: "finalize (series_of ps) = \<lparr>as_ts = map (\<lambda>i. fst (ps ! i)) order, as_vals = map (\<lambda>i. snd (ps ! i)) order, as_final = True\<rparr>"
    and order: "set order = {..<length ps}" "sorted_wrt (before_at (\<lambda>i. fst (ps ! i))) order" "length order = length ps"
    by (rule finalize_series)
  let ?ts = "map (\<lambda>i. fst (ps ! i)) order" let ?n = "bisect_right ?ts t"
  have srt: "sorted ?ts" unfolding sorted_map
    by (rule sorted_wrt_mono_rel[OF _ order(2)]) (auto simp: before_at_def)
  note spec = bisect_right_spec[OF srt, where x = t]
  have pos: "\<exists>m<length order. order ! m = k" if "k < length ps" for k using that order(1) by (metis in_set_conv_nth lessThan_iff)
  show ?thesis
  proof (cases "?n = 0")
    case True
    have "t < fst p" if "p \<in> set ps" for p
    proof -
      obtain k where k: "k < length ps" "ps ! k = p" using \<open>p \<in> set ps\<close> by (auto simp: in_set_conv_nth)
      obtain m where "m < length order" "order ! m = k" using pos[OF k(1)] by blast
      then show ?thesis using spec(3)[of m] True k(2) by simp
    qed
    moreover have "v = None" using v True by (auto simp: fin as_of_def bisect_as_of_def Let_def)
    ultimately show ?thesis by simp
  next
    case False
    have n: "?n - 1 < length order" "?n - 1 < ?n" using False spec(1) by auto
    define i where "i = order ! (?n - 1)"
    have i: "i < length ps" using n(1) order(1) nth_mem unfolding i_def by blast
    have "fst (ps ! i) \<le> t" using spec(2)[of "?n - 1"] n by (simp add: i_def)
    moreover have "k = i \<or> before_at (\<lambda>i. fst (ps ! i)) k i" if k: "k < length ps" "fst (ps ! k) \<le> t" for k
    proof -
      obtain m where m: "m < length order" "order ! m = k" using pos[OF k(1)] by blast
      have "m < ?n" using spec(3)[of m] m k(2) by (auto simp: not_le[symmetric])
      then have "m = ?n - 1 \<or> m < ?n - 1" by linarith
      then show ?thesis using sorted_wrt_nth_less[OF order(2), of m "?n - 1"] n(1) m by (auto simp: i_def)
    qed
    ultimately have vis: "visible_entry ps t i" using i by (simp add: visible_entry_def)
    have ne: "order \<noteq> []" using n(1) by auto
    have at: "as_ts (finalize (series_of ps)) ! nat (bisect_as_of ?ts t) = fst (ps ! i)" "as_vals (finalize (series_of ps)) ! nat (bisect_as_of ?ts t) = snd (ps ! i)"
      "0 \<le> bisect_as_of ?ts t"
      using False n by (simp_all add: fin bisect_as_of_def i_def nat_diff_distrib)
    have "v = (case stale of None \<Rightarrow> Some (snd (ps ! i)) | Some m \<Rightarrow> if t - fst (ps ! i) > m then None else Some (snd (ps ! i)))"
      using v at ne by (auto simp: fin as_of_def Let_def split: option.splits)
    then show ?thesis using vis by (cases stale) auto
  qed
qed

lemma load_series: "load_book_series read_table token files a b =
   Inr (finalize (series_of (map (row_entry token) (window_rows read_table token files a b))), length (window_rows read_table token files a b))"
  by (simp add: load_book_series_def Let_def extend_empty)

text \<open>The entries a view serves for a token, and the invariant of its cache.\<close>

definition view_entries :: "('f \<Rightarrow> string + market_row list) \<Rightarrow> 'f market_view \<Rightarrow> string \<Rightarrow> (int \<times> book_snapshot) list" where
  "view_entries read_table vw token = map (row_entry token) (window_rows read_table token (vw_files vw token) (vw_start vw) (vw_end vw))"

definition view_ok :: "('f \<Rightarrow> string + market_row list) \<Rightarrow> 'f market_view \<Rightarrow> bool" where
  "view_ok read_table vw \<longleftrightarrow>
     (\<forall>token s. dict_get (vw_cache vw) token = Some s \<longrightarrow> s = finalize (series_of (view_entries read_table vw token)))"

definition same_source :: "'f market_view \<Rightarrow> 'f market_view \<Rightarrow> bool" where
  "same_source vw vw' \<longleftrightarrow> vw_files vw' = vw_files vw \<and> vw_covered vw' = vw_covered vw \<and> vw_start vw' = vw_start vw \<and> vw_end vw' = vw_end vw"

lemma new_view_ok: "view_ok read_table (new_view files covered a b)"
  by (simp add: view_ok_def new_view_def)

lemma view_entries_same: "same_source vw vw' \<Longrightarrow> view_entries read_table vw' = view_entries read_table vw"
  by (rule ext) (simp add: view_entries_def same_source_def)

lemma series_for_facts:
  assumes "view_ok read_table vw"
  shows "\<exists>vw'. series_for read_table token vw = Inr (finalize (series_of (view_entries read_table vw token)), vw') \<and> view_ok read_table vw' \<and>
    same_source vw vw'"
proof (cases "dict_get (vw_cache vw) token")
  case (Some s)
  then show ?thesis using assms by (auto simp: series_for_def view_ok_def same_source_def)
next
  case None
  let ?s = "finalize (series_of (view_entries read_table vw token))"
  have ok: "view_ok read_table (cache_series token ?s n vw) \<and> same_source vw (cache_series token ?s n vw)" for n
    using assms by (auto simp: view_ok_def cache_series_def same_source_def view_entries_def split: if_splits)
  show ?thesis
  proof (cases "vw_files vw token = []")
    case True
    then have "?s = finalize empty_series" by (simp add: view_entries_def window_rows_def series_of_def empty_series_def)
    then show ?thesis using None True ok[of 0] by (auto simp: series_for_def)
  next
    case False
    then show ?thesis using None ok by (auto simp: series_for_def load_series view_entries_def)
  qed
qed

lemma view_entry_time: "p \<in> set (view_entries read_table vw token) \<Longrightarrow>
   s_observed_at (snd p) = fst p \<and> vw_start vw \<le> fst p \<and> fst p \<le> vw_end vw \<and> s_token (snd p) = token"
  by (auto simp: view_entries_def row_entry_def row_to_book_snapshot_def Let_def window_rows_def row_in_window_def
      split: option.splits sum.splits)

text \<open>
  C33: The view never looks ahead: it always answers; a book it returns was observed in the window, not after the query and
  within the staleness bound, and no row of the token it could have served is newer (of rows at the same instant it is the
  last one read); it returns none only when every row is after the query or the newest visible one is too old.
\<close>

theorem view_point_in_time:
  assumes "view_ok read_table vw"
  shows "\<exists>r vw'. book_at read_table token ts max_stale vw = Inr (r, vw') \<and> view_ok read_table vw' \<and>
    (let ps = view_entries read_table vw token; stale = map_option (\<lambda>x. py_int (x * 1000000)) max_stale in
     case r of
       None \<Rightarrow> (\<forall>p\<in>set ps. ts < fst p) \<or> (\<exists>i m. visible_entry ps ts i \<and> stale = Some m \<and> m < ts - fst (ps ! i))
     | Some b \<Rightarrow> s_observed_at b \<le> ts \<and> vw_start vw \<le> s_observed_at b \<and> s_token b = token \<and>
         (\<exists>i. visible_entry ps ts i \<and> b = snd (ps ! i)) \<and> (\<forall>m. stale = Some m \<longrightarrow> ts - s_observed_at b \<le> m))"
proof -
  let ?ps = "view_entries read_table vw token" let ?stale = "map_option (\<lambda>x. py_int (x * 1000000)) max_stale"
  obtain vw' where s: "series_for read_table token vw = Inr (finalize (series_of ?ps), vw')" "view_ok read_table vw'"
    using series_for_facts[OF assms] by blast
  define r where "r = fst (as_of ts ?stale (finalize (series_of ?ps)))"
  have b: "book_at read_table token ts max_stale vw = Inr (r, vw')" by (simp add: book_at_def s(1) r_def)
  note a = as_of_finalized[OF r_def[symmetric]]
  have "case r of
       None \<Rightarrow> (\<forall>p\<in>set ?ps. ts < fst p) \<or> (\<exists>i m. visible_entry ?ps ts i \<and> ?stale = Some m \<and> m < ts - fst (?ps ! i))
     | Some b \<Rightarrow> s_observed_at b \<le> ts \<and> vw_start vw \<le> s_observed_at b \<and> s_token b = token \<and>
         (\<exists>i. visible_entry ?ps ts i \<and> b = snd (?ps ! i)) \<and> (\<forall>m. ?stale = Some m \<longrightarrow> ts - s_observed_at b \<le> m)"
  proof (cases r)
    case None
    then show ?thesis using a by simp
  next
    case (Some x)
    then obtain i where i: "visible_entry ?ps ts i" "x = snd (?ps ! i)" "\<forall>m. ?stale = Some m \<longrightarrow> ts - fst (?ps ! i) \<le> m"
      using a by auto
    have "?ps ! i \<in> set ?ps" using i(1) by (simp add: visible_entry_def)
    from view_entry_time[OF this] show ?thesis using i Some by (auto simp: visible_entry_def)
  qed
  then show ?thesis using b s(2) unfolding Let_def by blast
qed

definition sample_row :: "int \<Rightarrow> market_row" where
  "sample_row t =
     \<lparr>mr_token = Some ''tok'', mr_observed = Some t, mr_sequence = None, mr_spread = None, mr_bids_price = Some [Some (1 / 4), Some (1 / 2), None],
      mr_bids_size = Some [Some 10, Some 20, Some 30], mr_asks_price = None, mr_asks_size = None, mr_trade_price = None,
      mr_trade_size = None, mr_trade_side = None\<rparr>"

definition sample_files :: "nat \<Rightarrow> string + market_row list" where
  "sample_files f = (if f = 0 then Inr [sample_row 5, sample_row 90] else if f = 1 then Inl ''corrupt'' else Inr [sample_row 7, sample_row 30])"

definition sample_view :: "nat market_view" where
  "sample_view = new_view (\<lambda>token. [0, 1, 2]) [''tok''] 0 50"

theorem view_point_in_time_witness:
  "\<exists>b vw'. book_at sample_files ''tok'' 20 (Some 1) sample_view = Inr (Some b, vw') \<and> s_observed_at b = 7"
proof -
  have ps: "map fst (view_entries sample_files sample_view ''tok'') = [5, 7, 30]" "length (view_entries sample_files sample_view ''tok'') = 3"
    by (simp_all add: view_entries_def sample_view_def new_view_def window_rows_def sample_files_def row_in_window_def sample_row_def row_entry_def)
  then have t: "fst (view_entries sample_files sample_view ''tok'' ! 0) = 5" "fst (view_entries sample_files sample_view ''tok'' ! 1) = 7"
    "fst (view_entries sample_files sample_view ''tok'' ! 2) = 30"
    by (metis nth_map nth_Cons_0 zero_less_numeral, metis One_nat_def nth_Cons_0 nth_Cons_Suc nth_map one_less_numeral_iff semiring_norm(77),
      metis Suc_1 One_nat_def nth_Cons_0 nth_Cons_Suc nth_map numeral_3_eq_3 lessI)
  have only: "visible_entry (view_entries sample_files sample_view ''tok'') 20 i \<Longrightarrow> i = 1" for i
    using ps(2) t by (auto simp: visible_entry_def before_at_def numeral_3_eq_3 less_Suc_eq eval_nat_numeral)
  obtain r vw' where r: "book_at sample_files ''tok'' 20 (Some 1) sample_view = Inr (r, vw')"
    "let ps = view_entries sample_files sample_view ''tok''; stale = map_option (\<lambda>x. py_int (x * 1000000)) (Some 1) in
     case r of
       None \<Rightarrow> (\<forall>p\<in>set ps. 20 < fst p) \<or> (\<exists>i m. visible_entry ps 20 i \<and> stale = Some m \<and> m < 20 - fst (ps ! i))
     | Some b \<Rightarrow> s_observed_at b \<le> 20 \<and> vw_start sample_view \<le> s_observed_at b \<and> s_token b = ''tok'' \<and>
         (\<exists>i. visible_entry ps 20 i \<and> b = snd (ps ! i)) \<and> (\<forall>m. stale = Some m \<longrightarrow> 20 - s_observed_at b \<le> m)"
    using view_point_in_time[OF new_view_ok[of sample_files "\<lambda>token. [0, 1, 2]" "[''tok'']" 0 50, folded sample_view_def], of "''tok''" 20 "Some 1"]
    by blast
  have m1: "view_entries sample_files sample_view ''tok'' ! 1 \<in> set (view_entries sample_files sample_view ''tok'')" using ps(2) by simp
  have old: "\<not> (\<forall>p\<in>set (view_entries sample_files sample_view ''tok''). 20 < fst p)" using m1 t(2) by force
  show ?thesis
  proof (cases r)
    case None
    then obtain i m where "visible_entry (view_entries sample_files sample_view ''tok'') 20 i" "Some (1000000::int) = Some m"
      "m < 20 - fst (view_entries sample_files sample_view ''tok'' ! i)"
      using r(2) old by (auto simp: Let_def py_int_def)
    then show ?thesis using only[of i] t(2) by simp
  next
    case (Some b)
    then obtain i where "visible_entry (view_entries sample_files sample_view ''tok'') 20 i" "b = snd (view_entries sample_files sample_view ''tok'' ! i)"
      using r(2) by (auto simp: Let_def)
    then have "s_observed_at b = 7" using only[of i] view_entry_time[OF m1] t(2) by simp
    then show ?thesis using r(1) Some by blast
  qed
qed

section \<open>Canonical books\<close>

lemma sorted_desc: "sorted (map (\<lambda>l. - f l) xs) \<Longrightarrow> sorted_wrt (\<lambda>p p'. p' \<le> p) (map f xs)" for f :: "'a \<Rightarrow> real"
  by (induction xs) auto

lemma raw_levels_facts:
  "sorted_wrt (\<lambda>p p'. p' \<le> p) (map fst (raw_levels ps ss True))" "sorted (map fst (raw_levels ps ss False))"
  "list_all (\<lambda>(p, q). 0 < p \<and> p < 1 \<and> 0 < q) (raw_levels ps ss d)"
proof -
  show "sorted_wrt (\<lambda>p p'. p' \<le> p) (map fst (raw_levels ps ss True))"
    by (rule sorted_desc) (simp add: raw_levels_def)
  show "sorted (map fst (raw_levels ps ss False))" by (simp add: raw_levels_def)
  show "list_all (\<lambda>(p, q). 0 < p \<and> p < 1 \<and> 0 < q) (raw_levels ps ss d)"
    by (auto simp: raw_levels_def list_all_iff)
qed


section \<open>The stream of books\<close>

lemma bisect_left_zero: "(\<And>i. i < hi \<Longrightarrow> x \<le> a ! i) \<Longrightarrow> bisect_left_loop a x 0 hi = 0"
proof (induction hi rule: less_induct)
  case (less hi)
  show ?case
  proof (cases "0 < hi")
    case True
    have m: "hi div 2 < hi" using True by simp
    then have "bisect_left_loop a x 0 hi = bisect_left_loop a x 0 (hi div 2)"
      using less.prems[OF m] True by (subst bisect_left_loop.simps) (simp add: Let_def)
    also have "\<dots> = 0" by (rule less.IH[OF m]) (use less.prems m in simp)
    finally show ?thesis .
  qed (subst bisect_left_loop.simps, simp)
qed

lemma iter_range_all:
  assumes "\<forall>p\<in>set ps. a \<le> fst p \<and> fst p \<le> b"
  shows "sorted (map fst (fst (iter_range a b (finalize (series_of ps)))))" "mset (fst (iter_range a b (finalize (series_of ps)))) = mset ps"
proof -
  obtain order where fin: "finalize (series_of ps) = \<lparr>as_ts = map (\<lambda>i. fst (ps ! i)) order, as_vals = map (\<lambda>i. snd (ps ! i)) order, as_final = True\<rparr>"
    and order: "set order = {..<length ps}" "sorted_wrt (before_at (\<lambda>i. fst (ps ! i))) order" "length order = length ps" "mset order = mset [0..<length ps]"
    by (rule finalize_series)
  let ?ts = "map (\<lambda>i. fst (ps ! i)) order"
  have srt: "sorted ?ts" unfolding sorted_map
    by (rule sorted_wrt_mono_rel[OF _ order(2)]) (auto simp: before_at_def)
  have in_range: "a \<le> ?ts ! i \<and> ?ts ! i \<le> b" if "i < length order" for i
    using that assms order(1) nth_mem[OF that] by auto
  have lo: "bisect_left ?ts a = 0" unfolding bisect_left_def by (rule bisect_left_zero) (use in_range in auto)
  have hi: "bisect_right ?ts b = length order"
  proof (rule ccontr)
    assume "bisect_right ?ts b \<noteq> length order"
    then have "bisect_right ?ts b < length order" using bisect_right_spec(1)[OF srt, of b] by simp
    then show False using bisect_right_spec(3)[OF srt, of b "bisect_right ?ts b"] in_range by force
  qed
  have it: "fst (iter_range a b (finalize (series_of ps))) = map ((!) ps) order"
    unfolding iter_range_def fin Let_def by (simp add: lo hi) (rule nth_equalityI, auto)
  show "sorted (map fst (fst (iter_range a b (finalize (series_of ps)))))" using srt by (simp add: it comp_def)
  have "mset (map ((!) ps) order) = image_mset ((!) ps) (mset [0..<length ps])" by (simp only: mset_map order(4))
  also have "\<dots> = mset ps" by (metis map_nth mset_map)
  finally show "mset (fst (iter_range a b (finalize (series_of ps)))) = mset ps" by (simp only: it)
qed

lemma all_series_facts:
  "view_ok read_table vw \<Longrightarrow>
   \<exists>vw'. all_series read_table ts vw = Inr (map (\<lambda>t. finalize (series_of (view_entries read_table vw t))) ts, vw') \<and> view_ok read_table vw' \<and>
     same_source vw vw'"
proof (induction ts arbitrary: vw)
  case (Cons t ts)
  obtain vw1 where 1: "series_for read_table t vw = Inr (finalize (series_of (view_entries read_table vw t)), vw1)" "view_ok read_table vw1"
    "same_source vw vw1" using series_for_facts[OF Cons.prems] by blast
  obtain vw2 where 2: "all_series read_table ts vw1 = Inr (map (\<lambda>t. finalize (series_of (view_entries read_table vw1 t))) ts, vw2)"
    "view_ok read_table vw2" "same_source vw1 vw2" using Cons.IH[OF 1(2)] by blast
  have "same_source vw vw2" using 1(3) 2(3) by (simp add: same_source_def)
  then show ?case using 1(1) 2(1,2) view_entries_same[OF 1(3)] by simp
qed (simp add: same_source_def)

text \<open>
  The stream of books a view yields for a list of tokens is chronological and complete: the books are exactly those of
  the rows in the window, each once per token asked for, in ascending order of observation.
\<close>

theorem book_stream_chronological:
  assumes "view_ok read_table vw"
  shows "\<exists>bs vw'. iter_books read_table (Some tokens) vw = Inr (bs, vw') \<and> view_ok read_table vw' \<and> sorted (map s_observed_at bs) \<and>
    mset bs = mset (concat (map (\<lambda>t. map snd (view_entries read_table vw t)) tokens))"
proof -
  let ?es = "view_entries read_table vw"
  let ?streams = "map (\<lambda>s. fst (iter_range (vw_start vw) (vw_end vw) s)) (map (\<lambda>t. finalize (series_of (?es t))) tokens)"
  have range: "\<forall>p\<in>set (?es t). vw_start vw \<le> fst p \<and> fst p \<le> vw_end vw" for t using view_entry_time by blast
  have srt: "\<forall>s\<in>set ?streams. sorted (map fst s)" using iter_range_all(1)[OF range] by auto
  note m = merge_loop_facts[OF srt]
  have "mset (concat ?streams) = mset (concat (map ?es tokens))"
    by (induction tokens) (use iter_range_all(2)[OF range] in auto)
  then have ms: "mset (merge_loop fst ?streams) = mset (concat (map ?es tokens))" using m by simp
  have "s_observed_at (snd p) = fst p" if "p \<in> set (merge_loop fst ?streams)" for p
    using that mset_eq_setD[OF ms] view_entry_time by fastforce
  then have obs: "map s_observed_at (map snd (merge_loop fst ?streams)) = map fst (merge_loop fst ?streams)" by simp
  have all: "mset (map snd (merge_loop fst ?streams)) = mset (concat (map (\<lambda>t. map snd (?es t)) tokens))"
    using arg_cong[OF ms, of "image_mset snd"] by (simp add: map_concat comp_def flip: mset_map)
  obtain vw' where vw': "all_series read_table tokens vw = Inr (map (\<lambda>t. finalize (series_of (?es t))) tokens, vw')" "view_ok read_table vw'"
    "same_source vw vw'" using all_series_facts[OF assms] by blast
  have "iter_books read_table (Some tokens) vw = Inr (map snd (merge_loop fst ?streams), vw')"
    using vw'(1,3) by (simp add: iter_books_def ordered_merge_def same_source_def)
  then show ?thesis using vw'(2) m obs all by metis
qed

theorem book_stream_chronological_witness:
  "\<exists>bs vw'. iter_books sample_files (Some [''tok'', ''none'']) sample_view = Inr (bs, vw') \<and> length bs = 3 \<and> sorted (map s_observed_at bs)"
proof -
  obtain bs vw' where b: "iter_books sample_files (Some [''tok'', ''none'']) sample_view = Inr (bs, vw')" "sorted (map s_observed_at bs)"
    "mset bs = mset (concat (map (\<lambda>t. map snd (view_entries sample_files sample_view t)) [''tok'', ''none'']))"
    using book_stream_chronological[OF new_view_ok[of sample_files "\<lambda>token. [0, 1, 2]" "[''tok'']" 0 50, folded sample_view_def]] by blast
  have "length bs = 3" using arg_cong[OF b(3), of size]
    by (simp add: view_entries_def sample_view_def new_view_def window_rows_def sample_files_def row_in_window_def sample_row_def)
  then show ?thesis using b by blast
qed

end
