(* ===== verification/Risk.thy ===== *)
theory Risk
  imports Prelude
begin

text \<open>
  The pre-trade risk gate of \<open>services/trader_orchestrator/risk_manager.py\<close>.

  A limit is a value of a JSON dictionary: absent, an integer, a float, a flag or a text. Reading a text as a number is an argument
  (\<open>float\<close> and \<open>int\<close> of Python). The text of a check's detail is left out, so a refusal's reason is the key of the check.
\<close>

section \<open>Limits\<close>

datatype limit_value = NoValue | IntValue int | FloatValue pyfloat | FlagValue bool | TextValue string

record reader =
  read_float :: "string \<Rightarrow> pyfloat option"
  read_int :: "string \<Rightarrow> int option"

type_synonym limit_table = "(string, limit_value) dict"

definition limit_get :: "limit_table \<Rightarrow> string \<Rightarrow> limit_value" where
  "limit_get d k = dict_get_or d k NoValue"

definition truncate_to_int :: "pyfloat \<Rightarrow> int" where
  "truncate_to_int x = (if 0 \<le> x then \<lfloor>x\<rfloor> else \<lceil>x\<rceil>)"

definition safe_float :: "reader \<Rightarrow> limit_value \<Rightarrow> pyfloat option \<Rightarrow> pyfloat option" where
  "safe_float rd v def =
     (case v of
        NoValue \<Rightarrow> def
      | IntValue n \<Rightarrow> Some (of_int n)
      | FloatValue x \<Rightarrow> Some x
      | FlagValue b \<Rightarrow> Some (if b then 1 else 0)
      | TextValue s \<Rightarrow> (case read_float rd s of Some x \<Rightarrow> Some x | None \<Rightarrow> def))"

definition float_limit :: "reader \<Rightarrow> limit_table \<Rightarrow> string \<Rightarrow> pyfloat \<Rightarrow> pyfloat" where
  "float_limit rd d k def = (case safe_float rd (limit_get d k) (Some def) of Some x \<Rightarrow> x | None \<Rightarrow> def)"

definition safe_int :: "reader \<Rightarrow> limit_value \<Rightarrow> int \<Rightarrow> int" where
  "safe_int rd v def =
     (case v of
        NoValue \<Rightarrow> def
      | IntValue n \<Rightarrow> n
      | FloatValue x \<Rightarrow> truncate_to_int x
      | FlagValue b \<Rightarrow> (if b then 1 else 0)
      | TextValue s \<Rightarrow> (case read_int rd s of Some x \<Rightarrow> x | None \<Rightarrow> def))"

definition int_limit :: "reader \<Rightarrow> limit_table \<Rightarrow> string \<Rightarrow> int \<Rightarrow> int" where
  "int_limit rd d k def = safe_int rd (limit_get d k) def"

text \<open>A number is compared as text: the integers 1 and 0 are a flag, a float such as 1.0 is not.\<close>

definition safe_bool :: "limit_value \<Rightarrow> bool \<Rightarrow> bool" where
  "safe_bool v def =
     (case v of
        FlagValue b \<Rightarrow> b
      | NoValue \<Rightarrow> def
      | IntValue n \<Rightarrow> if n = 1 then True else if n = 0 then False else def
      | FloatValue x \<Rightarrow> def
      | TextValue s \<Rightarrow>
          (let t = py_lower (py_strip s) in
           if t \<in> {''1'', ''true'', ''yes'', ''y'', ''on''} then True
           else if t \<in> {''0'', ''false'', ''no'', ''n'', ''off''} then False else def))"

section \<open>The gate\<close>

record risk_check =
  rk_key :: string
  rk_passed :: bool
  rk_score :: pyfloat

record risk_result =
  rr_allowed :: bool
  rr_reason :: string
  rr_checks :: "risk_check list"

text \<open>The arguments of the gate: the order, the exposures and the counters.\<close>

record risk_input =
  ri_size :: pyfloat
  ri_gross :: pyfloat
  ri_positions :: int
  ri_orders :: int
  ri_market :: pyfloat
  ri_global_daily :: pyfloat
  ri_trader_daily :: pyfloat
  ri_global_unrealized :: pyfloat
  ri_trader_unrealized :: pyfloat
  ri_losses :: int
  ri_cycle :: int
  ri_cooldown :: bool

definition check :: "string \<Rightarrow> bool \<Rightarrow> pyfloat \<Rightarrow> risk_check" where
  "check k p s = \<lparr>rk_key = k, rk_passed = p, rk_score = s\<rparr>"

definition market_cap :: "reader \<Rightarrow> limit_table \<Rightarrow> pyfloat" where
  "market_cap rd trl =
     (let cap = float_limit rd trl ''max_per_market_exposure_usd'' 500 in
      case safe_float rd (limit_get trl ''max_position_notional_usd'') None of
        None \<Rightarrow> cap
      | Some m \<Rightarrow> if m > 0 then min cap m else cap)"

text \<open>The limits as the gate resolves them, defaults included.\<close>

record risk_limits =
  lm_loss :: pyfloat
  lm_trader_loss :: pyfloat
  lm_halt :: bool
  lm_streak :: int
  lm_cycle :: int
  lm_notional :: pyfloat
  lm_gross :: pyfloat
  lm_orders :: int
  lm_positions :: int
  lm_market :: pyfloat

definition resolve_limits :: "reader \<Rightarrow> limit_table \<Rightarrow> limit_table \<Rightarrow> risk_limits" where
  "resolve_limits rd gl trl =
     (let max_loss = \<bar>float_limit rd gl ''max_daily_loss_usd'' 500\<bar>; gross_cap = float_limit rd gl ''max_gross_exposure_usd'' 5000;
          max_positions = int_limit rd trl ''max_open_positions'' (int_limit rd trl ''max_open_orders'' 10)
      in \<lparr>lm_loss = max_loss, lm_trader_loss = \<bar>float_limit rd trl ''max_daily_loss_usd'' max_loss\<bar>,
          lm_halt = safe_bool (limit_get trl ''halt_on_consecutive_losses'') False,
          lm_streak = max 1 (int_limit rd trl ''max_consecutive_losses'' 4), lm_cycle = max 1 (int_limit rd trl ''max_orders_per_cycle'' 50),
          lm_notional = max 1 (float_limit rd trl ''max_trade_notional_usd'' (max 50 (gross_cap * (10 / 100)))), lm_gross = gross_cap,
          lm_orders = int_limit rd trl ''max_open_orders'' max_positions, lm_positions = max_positions, lm_market = market_cap rd trl\<rparr>)"

definition risk_checks :: "risk_limits \<Rightarrow> risk_input \<Rightarrow> risk_check list" where
  "risk_checks L x =
     (let total = ri_global_daily x + ri_global_unrealized x; trader_total = ri_trader_daily x + ri_trader_unrealized x;
          next_gross = max 0 (ri_gross x) + max 0 (ri_size x); next_market = max 0 (ri_market x) + max 0 (ri_size x)
      in [check ''global_daily_loss'' (ri_global_daily x > - lm_loss L) (ri_global_daily x),
          check ''trader_daily_loss'' (ri_trader_daily x > - lm_trader_loss L) (ri_trader_daily x),
          check ''global_daily_total_loss'' (total > - lm_loss L) total,
          check ''trader_daily_total_loss'' (trader_total > - lm_trader_loss L) trader_total,
          check ''trader_loss_streak'' (\<not> lm_halt L \<or> ri_losses x < lm_streak L) (of_int (ri_losses x)),
          check ''trader_cooldown'' (\<not> ri_cooldown x) (if ri_cooldown x then 1 else 0),
          check ''trader_orders_per_cycle'' (ri_cycle x + 1 \<le> lm_cycle L) (of_int (ri_cycle x + 1)),
          check ''trader_trade_notional'' (max 0 (ri_size x) \<le> lm_notional L) (max 0 (ri_size x)),
          check ''global_gross_exposure'' (next_gross \<le> lm_gross L) next_gross,
          check ''trader_open_orders'' (ri_orders x + 1 \<le> lm_orders L) (of_int (ri_orders x + 1)),
          check ''trader_open_positions'' (ri_positions x + 1 \<le> lm_positions L) (of_int (ri_positions x + 1)),
          check ''trader_market_exposure'' (next_market \<le> lm_market L) next_market])"

definition dict_or_empty :: "limit_table option \<Rightarrow> limit_table" where
  "dict_or_empty d = (case d of None \<Rightarrow> [] | Some t \<Rightarrow> t)"

definition evaluate_risk :: "reader \<Rightarrow> limit_table option \<Rightarrow> limit_table option \<Rightarrow> risk_input \<Rightarrow> risk_result" where
  "evaluate_risk rd global_limits trader_limits x =
     (let checks = risk_checks (resolve_limits rd (dict_or_empty global_limits) (dict_or_empty trader_limits)) x
      in case filter (\<lambda>c. \<not> rk_passed c) checks of
           c # _ \<Rightarrow> \<lparr>rr_allowed = False, rr_reason = ''Risk blocked: '' @ rk_key c, rr_checks = checks\<rparr>
         | [] \<Rightarrow> \<lparr>rr_allowed = True, rr_reason = ''Risk checks passed'', rr_checks = checks\<rparr>)"

section \<open>What an approval guarantees\<close>

definition calmer :: "risk_input \<Rightarrow> risk_input \<Rightarrow> bool" where
  "calmer y x \<longleftrightarrow> ri_size y \<le> ri_size x \<and> ri_gross y \<le> ri_gross x \<and> ri_positions y \<le> ri_positions x \<and> ri_orders y \<le> ri_orders x \<and>
     ri_market y \<le> ri_market x \<and> ri_global_daily x \<le> ri_global_daily y \<and> ri_trader_daily x \<le> ri_trader_daily y \<and>
     ri_global_unrealized x \<le> ri_global_unrealized y \<and> ri_trader_unrealized x \<le> ri_trader_unrealized y \<and> ri_losses y \<le> ri_losses x \<and>
     ri_cycle y \<le> ri_cycle x \<and> (ri_cooldown y \<longrightarrow> ri_cooldown x)"

lemma filter_head: "filter P xs = c # cs \<Longrightarrow> c \<in> set xs \<and> P c"
  using list.set_intros(1)[of c cs] by (metis (no_types, lifting) mem_Collect_eq set_filter)

lemma allowed_iff: "rr_allowed (evaluate_risk rd gl trl x) \<longleftrightarrow>
   list_all rk_passed (risk_checks (resolve_limits rd (dict_or_empty gl) (dict_or_empty trl)) x)"
proof (cases "filter (\<lambda>c. \<not> rk_passed c) (risk_checks (resolve_limits rd (dict_or_empty gl) (dict_or_empty trl)) x)")
  case Nil
  then show ?thesis by (auto simp: evaluate_risk_def Let_def filter_empty_conv list_all_iff)
next
  case (Cons c cs)
  then have "c \<in> set (risk_checks (resolve_limits rd (dict_or_empty gl) (dict_or_empty trl)) x) \<and> \<not> rk_passed c"
    by (auto dest: filter_head)
  then show ?thesis using Cons by (auto simp: evaluate_risk_def Let_def list_all_iff)
qed

lemma checks_mono: "calmer y x \<Longrightarrow> list_all rk_passed (risk_checks L x) \<Longrightarrow> list_all rk_passed (risk_checks L y)"
proof -
  assume c: "calmer y x" and a: "list_all rk_passed (risk_checks L x)"
  have m: "max 0 (ri_size y) \<le> max 0 (ri_size x)" "max 0 (ri_gross y) \<le> max 0 (ri_gross x)" "max 0 (ri_market y) \<le> max 0 (ri_market x)"
    using c by (auto simp: calmer_def intro: max.mono)
  define sy sx gy gx my mx where d: "sy = max 0 (ri_size y)" "sx = max 0 (ri_size x)" "gy = max 0 (ri_gross y)" "gx = max 0 (ri_gross x)"
    "my = max 0 (ri_market y)" "mx = max 0 (ri_market x)"
  show ?thesis using c a m unfolding risk_checks_def Let_def check_def calmer_def d[symmetric]
    by simp linarith
qed


definition calm_input :: risk_input where
  "calm_input =
     \<lparr>ri_size = 20, ri_gross = 100, ri_positions = 0, ri_orders = 0, ri_market = 0, ri_global_daily = 0, ri_trader_daily = 0,
      ri_global_unrealized = 0, ri_trader_unrealized = 0, ri_losses = 0, ri_cycle = 0, ri_cooldown = False\<rparr>"


text \<open>The reason of a refusal is a check that failed, the first in order.\<close>

lemma refusal_reason:
  assumes "\<not> rr_allowed (evaluate_risk rd gl trl x)"
  shows "\<exists>c\<in>set (rr_checks (evaluate_risk rd gl trl x)). \<not> rk_passed c \<and> rr_reason (evaluate_risk rd gl trl x) = ''Risk blocked: '' @ rk_key c"
proof -
  let ?cs = "risk_checks (resolve_limits rd (dict_or_empty gl) (dict_or_empty trl)) x"
  show ?thesis
  proof (cases "filter (\<lambda>c. \<not> rk_passed c) ?cs")
    case Nil
    then show ?thesis using assms by (simp add: evaluate_risk_def Let_def)
  next
    case (Cons c cs)
    then have "c \<in> set ?cs \<and> \<not> rk_passed c" by (auto dest: filter_head)
    then show ?thesis using Cons by (intro bexI[of _ c]) (simp_all add: evaluate_risk_def Let_def)
  qed
qed

end
