(* ===== verification/Breaker.thy ===== *)
theory Breaker
  imports Prelude
begin

text \<open>
  The per-token circuit breaker of \<open>services/token_circuit_breaker.py\<close>: large trades and API errors of a token are
  counted in a sliding window and block that token for a while.

  Every reading of the clock is an argument. Saving an event to the database and logging are left out, and so are the details
  of an event, which repeat the trades and the configuration.
\<close>

section \<open>State\<close>

record trip_config =
  tc_threshold :: pyfloat
  tc_trigger :: int
  tc_window :: pyfloat
  tc_duration :: pyfloat
  tc_on_api_error :: bool

definition default_trip_config :: trip_config where
  "default_trip_config = \<lparr>tc_threshold = 1500, tc_trigger = 2, tc_window = 30, tc_duration = 120, tc_on_api_error = True\<rparr>"

record trip_event =
  te_token :: string
  te_reason :: string
  te_triggered :: timestamp
  te_expires :: timestamp
  te_count :: nat

record seen_trade =
  sn_size :: pyfloat
  sn_price :: pyfloat
  sn_side :: string
  sn_at :: timestamp

record breaker =
  br_trips :: "(string, trip_event) dict"
  br_recent :: "(string, seen_trade list) dict"
  br_history :: "trip_event list"
  br_errors :: "(string, timestamp list) dict"

definition new_breaker :: breaker where
  "new_breaker = \<lparr>br_trips = [], br_recent = [], br_history = [], br_errors = []\<rparr>"

definition max_api_errors :: nat where "max_api_errors = 5"

definition seconds :: "pyfloat \<Rightarrow> int" where
  "seconds s = round_half_even (s * 1000000)"

section \<open>Operations\<close>

definition trip_token :: "trip_config \<Rightarrow> timestamp \<Rightarrow> string \<Rightarrow> string \<Rightarrow> nat \<Rightarrow> breaker \<Rightarrow> trip_event \<times> breaker" where
  "trip_token cfg now token reason n b =
     (let e = \<lparr>te_token = token, te_reason = reason, te_triggered = now, te_expires = now + seconds (tc_duration cfg), te_count = n\<rparr>
      in (e, b\<lparr>br_trips := dict_set (br_trips b) token e, br_history := br_history b @ [e]\<rparr>))"

definition is_tripped :: "timestamp \<Rightarrow> string \<Rightarrow> breaker \<Rightarrow> (bool \<times> string option) \<times> breaker" where
  "is_tripped now token b =
     (case dict_get (br_trips b) token of
        None \<Rightarrow> ((False, None), b)
      | Some e \<Rightarrow>
          if now \<ge> te_expires e then ((False, None), b\<lparr>br_trips := dict_pop (br_trips b) token\<rparr>)
          else ((True, Some (te_reason e)), b))"

text \<open>
  Recording a trade reads the clock first, again in the test for an active trip, and again in a new one.
\<close>

definition record_trade ::
    "trip_config \<Rightarrow> timestamp \<times> timestamp \<times> timestamp \<Rightarrow> string \<Rightarrow> pyfloat \<Rightarrow> pyfloat \<Rightarrow> string \<Rightarrow> breaker \<Rightarrow> py_error + (trip_event option \<times> breaker)" where
  "record_trade cfg clk token sz price side b =
     (let (now, test, stamp) = clk;
          seen = dict_get_or (br_recent b) token [] @ [\<lparr>sn_size = sz, sn_price = price, sn_side = side, sn_at = now\<rparr>];
          recent = filter (\<lambda>t. sn_at t \<ge> now - seconds (tc_window cfg)) seen;
          b1 = b\<lparr>br_recent := dict_set (br_recent b) token recent\<rparr>;
          large = filter (\<lambda>t. sn_size t \<ge> tc_threshold cfg) recent
      in if int (length large) \<ge> tc_trigger cfg then
           (case is_tripped test token b1 of
              ((True, _), b2) \<Rightarrow> (case dict_get (br_trips b2) token of None \<Rightarrow> raise KeyError | Some e \<Rightarrow> ok (Some e, b2))
            | ((False, _), b2) \<Rightarrow>
                (case trip_token cfg stamp token ''rapid_large_trades'' (length large) b2 of
                   (e, b3) \<Rightarrow> ok (Some e, b3\<lparr>br_recent := dict_set (br_recent b3) token []\<rparr>)))
         else ok (None, b1))"

definition record_api_error :: "trip_config \<Rightarrow> timestamp \<times> timestamp \<Rightarrow> string \<Rightarrow> breaker \<Rightarrow> trip_event option \<times> breaker" where
  "record_api_error cfg clk token b =
     (let (now, stamp) = clk;
          errors = filter (\<lambda>t. t > now - seconds (tc_window cfg)) (dict_get_or (br_errors b) token [] @ [now]);
          b1 = b\<lparr>br_errors := dict_set (br_errors b) token errors\<rparr>
      in if length errors \<ge> max_api_errors then
           (case trip_token cfg stamp token ''consecutive_api_errors'' 0 (b1\<lparr>br_errors := dict_set (br_errors b1) token []\<rparr>) of
              (e, b2) \<Rightarrow> (Some e, b2))
         else (None, b1))"

definition clear_api_errors :: "string \<Rightarrow> breaker \<Rightarrow> breaker" where
  "clear_api_errors token b = b\<lparr>br_errors := dict_pop (br_errors b) token\<rparr>"

definition clear_trip :: "string \<Rightarrow> breaker \<Rightarrow> breaker" where
  "clear_trip token b = (if dict_get (br_trips b) token = None then b else b\<lparr>br_trips := dict_pop (br_trips b) token\<rparr>)"

definition get_active_trips :: "timestamp \<Rightarrow> breaker \<Rightarrow> trip_event list \<times> breaker" where
  "get_active_trips now b =
     (let expired = map fst (filter (\<lambda>(k, e). now \<ge> te_expires e) (br_trips b))
      in (map snd (filter (\<lambda>(k, e). \<not> now \<ge> te_expires e) (br_trips b)),
          b\<lparr>br_trips := foldl dict_pop (br_trips b) expired\<rparr>))"

record trip_stats =
  ts_active :: nat
  ts_recorded :: nat
  ts_tokens :: nat
  ts_reasons :: "(string, nat) dict"
  ts_remaining :: "(string \<times> pyfloat) list"

definition get_trip_stats :: "timestamp \<times> timestamp \<Rightarrow> breaker \<Rightarrow> trip_stats \<times> breaker" where
  "get_trip_stats clk b =
     (let (now, scan) = clk; (active, b1) = get_active_trips scan b
      in (\<lparr>ts_active = length active, ts_recorded = length (br_history b1), ts_tokens = length (remdups (map te_token (br_history b1))),
            ts_reasons = foldl (\<lambda>d e. dict_set d (te_reason e) (dict_get_or d (te_reason e) 0 + 1)) [] (br_history b1),
            ts_remaining = map (\<lambda>e. (te_token e, max 0 (total_seconds (te_expires e - now)))) active\<rparr>, b1))"

text \<open>What may happen to a breaker; \<open>Clear\<close> is the manual clearing of a trip.\<close>

datatype breaker_event =
    Trade "timestamp \<times> timestamp \<times> timestamp" string pyfloat pyfloat string
  | ApiError "timestamp \<times> timestamp" string
  | ApiOk string
  | Ask timestamp string
  | Trip timestamp string string nat
  | Clear string
  | Active timestamp
  | Stats "timestamp \<times> timestamp"

definition breaker_step :: "trip_config \<Rightarrow> breaker \<Rightarrow> breaker_event \<Rightarrow> py_error + breaker" where
  "breaker_step cfg b e =
     (case e of
        Trade clk token sz price side \<Rightarrow> (case record_trade cfg clk token sz price side b of Inl x \<Rightarrow> Inl x | Inr (_, b1) \<Rightarrow> ok b1)
      | ApiError clk token \<Rightarrow> ok (snd (record_api_error cfg clk token b))
      | ApiOk token \<Rightarrow> ok (clear_api_errors token b)
      | Ask now token \<Rightarrow> ok (snd (is_tripped now token b))
      | Trip now token reason n \<Rightarrow> ok (snd (trip_token cfg now token reason n b))
      | Clear token \<Rightarrow> ok (clear_trip token b)
      | Active now \<Rightarrow> ok (snd (get_active_trips now b))
      | Stats clk \<Rightarrow> ok (snd (get_trip_stats clk b)))"

section \<open>A trip blocks its token\<close>

definition event_times :: "breaker_event \<Rightarrow> timestamp list" where
  "event_times e = (case e of Trade (a, b, c) _ _ _ _ \<Rightarrow> [a, b, c] | ApiError (a, b) _ \<Rightarrow> [a, b] | ApiOk _ \<Rightarrow> [] | Ask t _ \<Rightarrow> [t]
     | Trip t _ _ _ \<Rightarrow> [t] | Clear _ \<Rightarrow> [] | Active t \<Rightarrow> [t] | Stats (a, b) \<Rightarrow> [a, b])"

text \<open>Until a deadline every event reads earlier clocks, and new trips of the token start no earlier than \<open>since\<close>.\<close>

definition quiet :: "string \<Rightarrow> timestamp \<Rightarrow> timestamp \<Rightarrow> breaker_event \<Rightarrow> bool" where
  "quiet token since until e \<longleftrightarrow> e \<noteq> Clear token \<and> (\<forall>t\<in>set (event_times e). since \<le> t \<and> t < until)"

definition blocked_until :: "string \<Rightarrow> timestamp \<Rightarrow> breaker \<Rightarrow> bool" where
  "blocked_until token until b \<longleftrightarrow> (\<exists>e. dict_get (br_trips b) token = Some e \<and> until \<le> te_expires e)"

definition breaker_ok :: "breaker \<Rightarrow> bool" where
  "breaker_ok b \<longleftrightarrow> dict_wf (br_trips b) \<and> (\<forall>k e. dict_get (br_trips b) k = Some e \<longrightarrow> te_token e = k \<and> e \<in> set (br_history b))"

definition history_grows :: "breaker \<Rightarrow> breaker \<Rightarrow> bool" where
  "history_grows b b' \<longleftrightarrow> (\<exists>h. br_history b' = br_history b @ h)"

lemma new_breaker_ok: "breaker_ok new_breaker"
  by (simp add: breaker_ok_def new_breaker_def)

lemma dict_get_pops: "dict_get (foldl dict_pop d ks) k = (if k \<in> set ks then None else dict_get d k)"
  by (induction ks arbitrary: d) auto

lemma dict_wf_pops: "dict_wf d \<Longrightarrow> dict_wf (foldl dict_pop d ks)"
  by (induction ks arbitrary: d) auto

text \<open>What each operation does to the trip of a token.\<close>

lemma trip_facts:
  assumes "breaker_ok b" "trip_token cfg now token reason n b = (e, b')"
  shows "breaker_ok b'" "history_grows b b'" "br_recent b' = br_recent b"
    "dict_get (br_trips b') k = (if k = token then Some e else dict_get (br_trips b) k)" "te_expires e = now + seconds (tc_duration cfg)"
  using assms by (auto simp: trip_token_def Let_def breaker_ok_def history_grows_def split: if_splits)

lemma ask_facts:
  assumes "breaker_ok b" "is_tripped now token b = ((yes, why), b')"
  shows "breaker_ok b'" "history_grows b b'" "yes \<longleftrightarrow> (\<exists>e. dict_get (br_trips b) token = Some e \<and> now < te_expires e)"
    "dict_get (br_trips b') k = (if k = token \<and> \<not> yes then None else dict_get (br_trips b) k)"
  using assms by (auto simp: is_tripped_def breaker_ok_def history_grows_def split: option.splits if_splits)

lemma active_facts:
  assumes "breaker_ok b"
  shows "breaker_ok (snd (get_active_trips now b))" "history_grows b (snd (get_active_trips now b))"
    "dict_get (br_trips (snd (get_active_trips now b))) k =
       (case dict_get (br_trips b) k of Some e \<Rightarrow> if now \<ge> te_expires e then None else Some e | None \<Rightarrow> None)"
proof -
  have wf: "dict_wf (br_trips b)" using assms by (simp add: breaker_ok_def)
  have mem: "k \<in> set (map fst (filter (\<lambda>(k, e). now \<ge> te_expires e) (br_trips b))) \<longleftrightarrow>
      (\<exists>e. dict_get (br_trips b) k = Some e \<and> now \<ge> te_expires e)" for k
  proof
    assume "k \<in> set (map fst (filter (\<lambda>(k, e). now \<ge> te_expires e) (br_trips b)))"
    then obtain e where e: "(k, e) \<in> set (br_trips b)" "now \<ge> te_expires e" by auto
    show "\<exists>e. dict_get (br_trips b) k = Some e \<and> now \<ge> te_expires e" using dict_wf_get[OF wf e(1)] e(2) by blast
  next
    assume "\<exists>e. dict_get (br_trips b) k = Some e \<and> now \<ge> te_expires e"
    then obtain e where e: "(k, e) \<in> set (br_trips b)" "now \<ge> te_expires e" using dict_get_mem by fast
    then have "(k, e) \<in> set (filter (\<lambda>(k, e). now \<ge> te_expires e) (br_trips b))" by simp
    then show "k \<in> set (map fst (filter (\<lambda>(k, e). now \<ge> te_expires e) (br_trips b)))" by force
  qed
  have pops: "br_trips (snd (get_active_trips now b)) =
      foldl dict_pop (br_trips b) (map fst (filter (\<lambda>(k, e). now \<ge> te_expires e) (br_trips b)))"
    by (simp add: get_active_trips_def Let_def)
  have g: "dict_get (br_trips (snd (get_active_trips now b))) k =
       (case dict_get (br_trips b) k of Some e \<Rightarrow> if now \<ge> te_expires e then None else Some e | None \<Rightarrow> None)" for k
    unfolding pops dict_get_pops mem by (auto split: option.split)
  have "dict_wf (br_trips (snd (get_active_trips now b)))" using dict_wf_pops[OF wf] by (simp add: get_active_trips_def)
  moreover have "br_history (snd (get_active_trips now b)) = br_history b" by (simp add: get_active_trips_def)
  ultimately show "breaker_ok (snd (get_active_trips now b))" "history_grows b (snd (get_active_trips now b))"
    using assms g by (auto simp: breaker_ok_def history_grows_def split: option.splits if_splits)
  show "dict_get (br_trips (snd (get_active_trips now b))) k =
       (case dict_get (br_trips b) k of Some e \<Rightarrow> if now \<ge> te_expires e then None else Some e | None \<Rightarrow> None)" by (rule g)
qed

lemma breaker_ok_cong: "br_trips b' = br_trips b \<Longrightarrow> br_history b' = br_history b \<Longrightarrow> breaker_ok b' = breaker_ok b"
  "br_history b' = br_history b \<Longrightarrow> history_grows b b'" "br_history c' = br_history c \<Longrightarrow> history_grows b c' = history_grows b c"
  by (simp_all add: breaker_ok_def history_grows_def)

lemma history_refl [simp]: "history_grows b b"
  and history_trans: "history_grows a b \<Longrightarrow> history_grows b c \<Longrightarrow> history_grows a c"
  by (auto simp: history_grows_def)

definition keeps_trip :: "trip_config \<Rightarrow> breaker \<Rightarrow> breaker \<Rightarrow> string \<Rightarrow> timestamp list \<Rightarrow> bool" where
  "keeps_trip cfg b b' k clks \<longleftrightarrow>
     (\<forall>e. dict_get (br_trips b) k = Some e \<longrightarrow>
        (\<exists>t\<in>set clks. te_expires e \<le> t) \<or>
        (\<exists>e'. dict_get (br_trips b') k = Some e' \<and> (e' = e \<or> (\<exists>t\<in>set clks. te_expires e' = t + seconds (tc_duration cfg)))))"

lemma record_trade_facts:
  assumes ok: "breaker_ok b"
  shows "\<exists>r b'. record_trade cfg (now, test, stamp) token sz price side b = Inr (r, b') \<and> breaker_ok b' \<and> history_grows b b' \<and>
    keeps_trip cfg b b' k [now, test, stamp]"
proof -
  define recent where "recent = filter (\<lambda>t. sn_at t \<ge> now - seconds (tc_window cfg))
    (dict_get_or (br_recent b) token [] @ [\<lparr>sn_size = sz, sn_price = price, sn_side = side, sn_at = now\<rparr>])"
  define b1 where "b1 = b\<lparr>br_recent := dict_set (br_recent b) token recent\<rparr>"
  define large where "large = filter (\<lambda>t. sn_size t \<ge> tc_threshold cfg) recent"
  have rt: "record_trade cfg (now, test, stamp) token sz price side b =
     (if int (length large) \<ge> tc_trigger cfg then
           (case is_tripped test token b1 of
              ((True, _), b2) \<Rightarrow> (case dict_get (br_trips b2) token of None \<Rightarrow> raise KeyError | Some e \<Rightarrow> ok (Some e, b2))
            | ((False, _), b2) \<Rightarrow>
                (case trip_token cfg stamp token ''rapid_large_trades'' (length large) b2 of
                   (e, b3) \<Rightarrow> ok (Some e, b3\<lparr>br_recent := dict_set (br_recent b3) token []\<rparr>)))
         else ok (None, b1))"
    unfolding record_trade_def Let_def split_conv by (simp only: recent_def[symmetric] b1_def[symmetric] large_def[symmetric])
  have ok1: "breaker_ok b1" and same: "br_trips b1 = br_trips b" "history_grows b b1" using ok
    by (simp_all add: b1_def breaker_ok_def history_grows_def)
  show ?thesis
  proof (cases "int (length large) \<ge> tc_trigger cfg")
    case False
    then show ?thesis unfolding rt using ok1 same by (simp add: keeps_trip_def)
  next
    case True
    obtain yes why b2 where a: "is_tripped test token b1 = ((yes, why), b2)" by (metis prod.collapse)
    note af = ask_facts[OF ok1 a]
    show ?thesis
    proof (cases yes)
      case True
      then obtain e where e: "dict_get (br_trips b2) token = Some e" using af(3,4) by auto
      have "record_trade cfg (now, test, stamp) token sz price side b = Inr (Some e, b2)"
        unfolding rt using \<open>int (length large) \<ge> tc_trigger cfg\<close> a e True by simp
      moreover have "keeps_trip cfg b b2 k [now, test, stamp]" using af(4)[of k] True same by (simp add: keeps_trip_def)
      ultimately show ?thesis using af(1,2) same history_trans by blast
    next
      case False
      obtain e b3 where t: "trip_token cfg stamp token ''rapid_large_trades'' (length large) b2 = (e, b3)" by fastforce
      note tf = trip_facts[OF af(1) t]
      have "record_trade cfg (now, test, stamp) token sz price side b = Inr (Some e, b3\<lparr>br_recent := dict_set (br_recent b3) token []\<rparr>)"
        unfolding rt using \<open>int (length large) \<ge> tc_trigger cfg\<close> a t False by simp
      moreover have "keeps_trip cfg b (b3\<lparr>br_recent := dict_set (br_recent b3) token []\<rparr>) k [now, test, stamp]"
        using tf(4)[of k] tf(5) af(4)[of k] False same by (auto simp: keeps_trip_def)
      moreover have "breaker_ok (b3\<lparr>br_recent := dict_set (br_recent b3) token []\<rparr>)" using tf(1) by (simp add: breaker_ok_def)
      moreover have "history_grows b (b3\<lparr>br_recent := dict_set (br_recent b3) token []\<rparr>)"
        using history_trans[OF history_trans[OF same(2) af(2)] tf(2)] by (simp add: history_grows_def)
      ultimately show ?thesis by blast
    qed
  qed
qed

lemma record_api_error_facts:
  assumes ok: "breaker_ok b"
  shows "breaker_ok (snd (record_api_error cfg (now, stamp) token b))" "history_grows b (snd (record_api_error cfg (now, stamp) token b))"
    "keeps_trip cfg b (snd (record_api_error cfg (now, stamp) token b)) k [now, stamp]"
  using ok by (auto simp: record_api_error_def Let_def trip_token_def breaker_ok_def history_grows_def keeps_trip_def split: if_splits)

lemma breaker_step_facts:
  assumes ok: "breaker_ok b"
  shows "\<exists>b'. breaker_step cfg b e = Inr b' \<and> breaker_ok b' \<and> history_grows b b' \<and> (e \<noteq> Clear k \<longrightarrow> keeps_trip cfg b b' k (event_times e))"
proof (cases e)
  case (Trade clk token sz price side)
  obtain x y z where c: "clk = (x, y, z)" by (cases clk)
  from record_trade_facts[OF ok, of cfg x y z token sz price side k] show ?thesis by (auto simp: Trade c breaker_step_def event_times_def)
next
  case (ApiError clk token)
  obtain x y where c: "clk = (x, y)" by (cases clk)
  from record_api_error_facts[OF ok, of cfg x y token] show ?thesis by (simp add: ApiError c breaker_step_def event_times_def)
next
  case (Ask t token)
  obtain yes why b' where a: "is_tripped t token b = ((yes, why), b')" by (metis prod.collapse)
  note af = ask_facts[OF ok a]
  have "keeps_trip cfg b b' k [t]" using af(3) af(4)[of k] by (auto simp: keeps_trip_def)
  then show ?thesis using af(1,2) a by (simp add: Ask breaker_step_def event_times_def)
next
  case (Trip t token reason n)
  obtain ev b' where a: "trip_token cfg t token reason n b = (ev, b')" by fastforce
  note tf = trip_facts[OF ok a]
  have "keeps_trip cfg b b' k [t]" using tf(4)[of k] tf(5) by (auto simp: keeps_trip_def)
  then show ?thesis using tf(1,2) a by (simp add: Trip breaker_step_def event_times_def)
next
  case (Active t)
  have "keeps_trip cfg b (snd (get_active_trips t b)) k [t]" using active_facts(3)[OF ok, of t k] by (auto simp: keeps_trip_def)
  then show ?thesis using active_facts(1,2)[OF ok] by (simp add: Active breaker_step_def event_times_def)
next
  case (Stats clk)
  obtain x y where c: "clk = (x, y)" by (cases clk)
  have s: "snd (get_trip_stats (x, y) b) = snd (get_active_trips y b)" by (simp add: get_trip_stats_def case_prod_unfold Let_def)
  have "keeps_trip cfg b (snd (get_active_trips y b)) k [x, y]" using active_facts(3)[OF ok, of y k] by (auto simp: keeps_trip_def)
  then show ?thesis using active_facts(1,2)[OF ok] by (simp add: Stats c s breaker_step_def event_times_def)
qed (use ok in \<open>auto simp: breaker_step_def clear_api_errors_def clear_trip_def breaker_ok_def history_grows_def keeps_trip_def event_times_def\<close>)

interpretation breaker_system: guarded_system "breaker_step cfg" breaker_ok history_grows for cfg
proof unfold_locales
  fix s t e assume "breaker_ok s" "breaker_step cfg s e = Inr t"
  then show "breaker_ok t" "history_grows s t" using breaker_step_facts[of s cfg e undefined] by auto
qed (auto intro: history_trans)

lemma blocked_run:
  assumes "breaker_ok b" "blocked_until token until b" "\<forall>e\<in>set es. quiet token since until e" "until \<le> since + seconds (tc_duration cfg)"
  shows "\<exists>b'. run_steps (breaker_step cfg) b es = Inr b' \<and> blocked_until token until b'"
  using assms
proof (induction es arbitrary: b)
  case (Cons e es)
  obtain b1 where s: "breaker_step cfg b e = Inr b1" "breaker_ok b1" "e \<noteq> Clear token \<longrightarrow> keeps_trip cfg b b1 token (event_times e)"
    using breaker_step_facts[OF Cons.prems(1)] by blast
  have q: "quiet token since until e" using Cons.prems(3) by simp
  have "blocked_until token until b1"
    using s(3) q Cons.prems(2,4) by (fastforce simp: quiet_def keeps_trip_def blocked_until_def)
  then show ?case using Cons.IH[OF s(2)] Cons.prems(3,4) s(1) by simp
qed auto

text \<open>
  C12: A tripped token stays blocked for the whole trip: from the trip until its duration is over, whatever trades, errors,
  trips, questions and statistics arrive for this and other tokens, only clearing the token lifts the block; no operation
  raises, and the record of past trips only grows.
\<close>

theorem trip_blocks_token:
  assumes ok: "breaker_ok b" and t: "trip_token cfg now token reason n b = (e, b1)"
    and q: "\<forall>ev\<in>set es. quiet token now (now + seconds (tc_duration cfg)) ev"
  shows "\<exists>b'. run_steps (breaker_step cfg) b1 es = Inr b' \<and> breaker_ok b' \<and> history_grows b1 b' \<and>
    (\<forall>u < now + seconds (tc_duration cfg). fst (fst (is_tripped u token b')))"
proof -
  note tf = trip_facts[OF ok t]
  have "blocked_until token (now + seconds (tc_duration cfg)) b1" using tf(4)[of token] tf(5) by (simp add: blocked_until_def)
  then obtain b' where r: "run_steps (breaker_step cfg) b1 es = Inr b'" "blocked_until token (now + seconds (tc_duration cfg)) b'"
    using blocked_run[OF tf(1) _ q] by auto
  have "fst (fst (is_tripped u token b'))" if "u < now + seconds (tc_duration cfg)" for u
    using r(2) that by (auto simp: blocked_until_def is_tripped_def)
  then show ?thesis using r(1) breaker_system.run_inv[OF tf(1) r(1)] breaker_system.run_leads[OF tf(1) r(1)] by blast
qed

theorem trip_blocks_token_witness:
  "\<exists>b'. run_steps (breaker_step default_trip_config) (snd (trip_token default_trip_config 0 ''a'' ''manual'' 0 new_breaker))
     [Clear ''b'', Trade (5, 5, 5) ''a'' 2000 1 ''BUY'', Active 6, Ask 7 ''a''] = Inr b' \<and> fst (fst (is_tripped 1000 ''a'' b'))"
proof -
  obtain e b1 where t: "trip_token default_trip_config 0 ''a'' ''manual'' 0 new_breaker = (e, b1)" by fastforce
  have d: "seconds (tc_duration default_trip_config) = 120000000"
    by (simp add: seconds_def default_trip_config_def round_half_even_def)
  have q: "\<forall>ev\<in>set [Clear ''b'', Trade (5, 5, 5) ''a'' 2000 1 ''BUY'', Active 6, Ask 7 ''a''].
      quiet ''a'' 0 (0 + seconds (tc_duration default_trip_config)) ev"
    by (simp add: d quiet_def event_times_def)
  from trip_blocks_token[OF new_breaker_ok t q] show ?thesis using t by (auto simp: d)
qed

end
