(* ===== verification/MonteCarlo.thy ===== *)
theory MonteCarlo
  imports Prelude "HOL-Library.Multiset"
begin

text \<open>
  Sensitivity of a backtest, \<open>services/backtest/monte_carlo.py\<close>: the Sharpe ratio under shuffles of the trades, and under
  scaled latencies.

  The shuffle of the generator and the backtest of the latency runs are arguments; what the code relies on of a shuffle, that
  it permutes its list, is a hypothesis where it is used.
\<close>

section \<open>Shuffled trades\<close>

fun unit_equity :: "pyfloat \<Rightarrow> pyfloat list \<Rightarrow> pyfloat list" where
  "unit_equity equity [] = []"
| "unit_equity equity (p # ps) = (let e = equity + p in (if e \<le> 0 then 1 / 1000 else e) # unit_equity e ps)"

fun unit_returns :: "pyfloat list \<Rightarrow> pyfloat list" where
  "unit_returns (p # c # xs) = (if p > 0 then [(c - p) / p] else []) @ unit_returns (c # xs)"
| "unit_returns xs = []"

definition sharpe_from_pnls :: "pyfloat list \<Rightarrow> pyfloat" where
  "sharpe_from_pnls pnls =
     (if pnls = [] then 0
      else let rets = unit_returns (1 # unit_equity 1 pnls) in
        if length rets < 2 then 0
        else let mu = sum_list rets / real (length rets);
                 var = sum_list (map (\<lambda>r. (r - mu)\<^sup>2) rets) / real (max 1 (length rets - 1))
             in if var \<le> 0 then 0 else (mu / sqrt var) * sqrt 252)"

type_synonym 'g shuffle = "'g \<Rightarrow> pyfloat list \<Rightarrow> pyfloat list \<times> 'g"

primrec shuffled_sharpes :: "'g shuffle \<Rightarrow> pyfloat list \<Rightarrow> nat \<Rightarrow> 'g \<Rightarrow> pyfloat list" where
  "shuffled_sharpes sh pnls 0 g = []"
| "shuffled_sharpes sh pnls (Suc n) g = (case sh g pnls of (xs, g1) \<Rightarrow> sharpe_from_pnls xs # shuffled_sharpes sh pnls n g1)"

record sharpe_distribution =
  sd_mean :: pyfloat
  sd_stdev :: pyfloat
  sd_p5 :: pyfloat
  sd_p25 :: pyfloat
  sd_p50 :: pyfloat
  sd_p75 :: pyfloat
  sd_p95 :: pyfloat
  sd_min :: pyfloat
  sd_max :: pyfloat

record observed =
  ob_position_pct :: pyfloat
  ob_z_score :: pyfloat
  ob_interpretation :: string

record shuffle_report =
  sr_n :: nat
  sr_realized :: "pyfloat option"
  sr_distribution :: "sharpe_distribution option"
  sr_observed :: "observed option"

definition empty_report :: shuffle_report where
  "empty_report = \<lparr>sr_n = 0, sr_realized = None, sr_distribution = None, sr_observed = None\<rparr>"

definition quantile_at :: "pyfloat list \<Rightarrow> pyfloat \<Rightarrow> pyfloat" where
  "quantile_at samples p = samples ! nat (max 0 (min (int (length samples) - 1) (round_half_even (p * real (length samples - 1)))))"

definition describe_samples :: "pyfloat \<Rightarrow> pyfloat list \<Rightarrow> shuffle_report" where
  "describe_samples realized unsorted =
     (let samples = sort unsorted; n = length samples; mean = sum_list samples / real n;
          sigma = sqrt (sum_list (map (\<lambda>x. (x - mean)\<^sup>2) samples) / real (max 1 (n - 1)));
          z = (if sigma > 0 then (realized - mean) / sigma else 0);
          rank = real (length (filter (\<lambda>x. x \<le> realized) samples)) / real n
      in \<lparr>sr_n = n, sr_realized = Some realized,
          sr_distribution = Some \<lparr>sd_mean = mean, sd_stdev = sigma, sd_p5 = quantile_at samples (5 / 100), sd_p25 = quantile_at samples (25 / 100),
             sd_p50 = quantile_at samples (50 / 100), sd_p75 = quantile_at samples (75 / 100), sd_p95 = quantile_at samples (95 / 100),
             sd_min = hd samples, sd_max = last samples\<rparr>,
          sr_observed = Some \<lparr>ob_position_pct = rank * 100, ob_z_score = z,
             ob_interpretation = (if rank > 95 / 100 \<or> rank < 5 / 100 then ''sequence-driven'' else ''robust-to-sequence'')\<rparr>\<rparr>)"

definition trade_order_monte_carlo :: "'g shuffle \<Rightarrow> 'g \<Rightarrow> pyfloat list \<Rightarrow> int \<Rightarrow> shuffle_report" where
  "trade_order_monte_carlo sh g pnls n_resamples =
     (if pnls = [] then empty_report
      else let samples = shuffled_sharpes sh pnls (nat n_resamples) g
           in if samples = [] then empty_report else describe_samples (sharpe_from_pnls pnls) samples)"

section \<open>Scaled latencies\<close>

record latency_setting =
  lp_submit_p50 :: pyfloat
  lp_submit_p95 :: pyfloat
  lp_cancel_p50 :: pyfloat
  lp_cancel_p95 :: pyfloat

record latency_result =
  lr_success :: bool
  lr_error :: "string option"
  lr_trades :: int
  lr_return_pct :: pyfloat
  lr_sharpe :: "pyfloat option"
  lr_drawdown_pct :: pyfloat
  lr_fees :: pyfloat

record latency_run =
  ln_multiplier :: pyfloat
  ln_profile :: latency_setting
  ln_result :: latency_result

record latency_summary =
  lu_runs :: nat
  lu_succeeded :: nat
  lu_slope :: "pyfloat option"
  lu_at_baseline :: "pyfloat option"
  lu_at_worst :: "pyfloat option"
  lu_at_best :: "pyfloat option"
  lu_range :: "pyfloat option"

definition scale_profile :: "pyfloat \<Rightarrow> latency_setting \<Rightarrow> latency_setting" where
  "scale_profile m p =
     \<lparr>lp_submit_p50 = lp_submit_p50 p * m, lp_submit_p95 = lp_submit_p95 p * m, lp_cancel_p50 = lp_cancel_p50 p * m, lp_cancel_p95 = lp_cancel_p95 p * m\<rparr>"

definition run_at_latency :: "(latency_setting \<Rightarrow> string + latency_result) \<Rightarrow> latency_setting \<Rightarrow> pyfloat \<Rightarrow> latency_run" where
  "run_at_latency exec base m =
     \<lparr>ln_multiplier = m, ln_profile = scale_profile m base,
      ln_result = (case exec (scale_profile m base) of
         Inr r \<Rightarrow> r
       | Inl msg \<Rightarrow> \<lparr>lr_success = False, lr_error = Some msg, lr_trades = 0, lr_return_pct = 0, lr_sharpe = None, lr_drawdown_pct = 0, lr_fees = 0\<rparr>)\<rparr>"

definition measured_run :: "latency_run \<Rightarrow> (pyfloat \<times> pyfloat) option" where
  "measured_run r = (case lr_sharpe (ln_result r) of None \<Rightarrow> None
     | Some s \<Rightarrow> if lr_success (ln_result r) then Some (ln_multiplier r, s) else None)"

definition summarize_latency :: "latency_run list \<Rightarrow> latency_summary" where
  "summarize_latency runs =
     (let ok_runs = List.map_filter measured_run runs; base = \<lparr>lu_runs = length runs, lu_succeeded = length ok_runs, lu_slope = None,
            lu_at_baseline = None, lu_at_worst = None, lu_at_best = None, lu_range = None\<rparr> in
      if length ok_runs \<ge> 2 then
        let s = sort_key fst ok_runs; (m0, s0) = hd s; (m1, s1) = last s; srs = map snd s in
        base\<lparr>lu_slope := Some (if m1 \<noteq> m0 then (s1 - s0) / (m1 - m0) else 0),
             lu_at_baseline := map_option snd (find (\<lambda>(m, sr). \<bar>m - 1\<bar> < 1 / 10 ^ 6) s),
             lu_at_worst := Some s1, lu_at_best := Some s0, lu_range := Some (Max (set srs) - Min (set srs))\<rparr>
      else base)"

definition default_multipliers :: "pyfloat list" where "default_multipliers = [1 / 2, 3 / 4, 1, 3 / 2, 2]"

definition run_monte_carlo_latency ::
    "(latency_setting \<Rightarrow> string + latency_result) \<Rightarrow> latency_setting \<Rightarrow> pyfloat list \<Rightarrow> latency_run list \<times> latency_summary" where
  "run_monte_carlo_latency exec base multipliers =
     (let runs = map (run_at_latency exec base) multipliers in (runs, summarize_latency runs))"

section \<open>The distribution of the shuffles\<close>

lemma shuffled_sharpes_length [simp]: "length (shuffled_sharpes sh pnls n g) = n"
  by (induction n arbitrary: g) (auto split: prod.split)

lemma quantile_at_mono:
  assumes "sorted xs" "xs \<noteq> []" "0 \<le> p" "p \<le> q"
  shows "quantile_at xs p \<le> quantile_at xs q" "hd xs \<le> quantile_at xs p" "quantile_at xs p \<le> last xs"
proof -
  let ?i = "\<lambda>p. nat (max 0 (min (int (length xs) - 1) (round_half_even (p * real (length xs - 1)))))"
  have n: "0 < length xs" using assms(2) by simp
  have b: "?i p < length xs" for p using n by linarith
  have "round_half_even (p * real (length xs - 1)) \<le> round_half_even (q * real (length xs - 1))"
    using assms(4) by (intro round_half_even_mono mult_right_mono) auto
  then have "?i p \<le> ?i q" by linarith
  then show "quantile_at xs p \<le> quantile_at xs q" unfolding quantile_at_def by (rule sorted_nth_mono[OF assms(1) _ b])
  show "hd xs \<le> quantile_at xs p" unfolding quantile_at_def hd_conv_nth[OF assms(2)] by (rule sorted_nth_mono[OF assms(1) _ b]) simp
  show "quantile_at xs p \<le> last xs" unfolding quantile_at_def last_conv_nth[OF assms(2)] by (rule sorted_nth_mono[OF assms(1)]) (use b[of p] n in linarith)+
qed

lemma shuffled_constant:
  assumes "\<And>g xs. mset (fst (sh g xs)) = mset xs"
  shows "set (shuffled_sharpes sh (replicate k p) n g) \<subseteq> {sharpe_from_pnls (replicate k p)}"
proof (induction n arbitrary: g)
  case (Suc n)
  obtain xs g1 where s: "sh g (replicate k p) = (xs, g1)" by fastforce
  have ms: "mset xs = mset (replicate k p)" using assms[of g "replicate k p"] s by simp
  have "length xs = k" using mset_eq_length[OF ms] by simp
  moreover have "\<forall>x\<in>set xs. x = p" using mset_eq_setD[OF ms] by auto
  ultimately have "xs = replicate k p" by (metis replicate_eqI)
  then show ?case using Suc.IH[of g1] s by simp
qed simp

text \<open>
  The shuffle test calls a result driven by the sequence when the sequence cannot matter: for trades of one equal profit,
  a single trade included, every shuffle is the realised sequence, the distribution has no spread, and yet the realised
  Sharpe ratio is ranked above all of it and reported as sequence-driven.
\<close>

theorem constant_trades_called_sequence_driven:
  assumes permutes: "\<And>g xs. mset (fst (sh g xs)) = mset xs" and k: "0 < k" and n: "0 < n"
  shows "let r = trade_order_monte_carlo sh g (replicate k p) n in
    map_option sd_stdev (sr_distribution r) = Some 0 \<and> map_option ob_position_pct (sr_observed r) = Some 100 \<and>
    map_option ob_interpretation (sr_observed r) = Some ''sequence-driven''"
proof -
  let ?s = "sharpe_from_pnls (replicate k p)" let ?m = "nat n"
  have m: "0 < ?m" using n by simp
  have "shuffled_sharpes sh (replicate k p) ?m g = replicate ?m ?s"
    by (rule replicate_eqI) (use shuffled_constant[of sh k p ?m g, OF permutes] in auto)
  then have r: "trade_order_monte_carlo sh g (replicate k p) n = describe_samples ?s (replicate ?m ?s)"
    using k m by (simp add: trade_order_monte_carlo_def)
  have srt: "sort (replicate ?m ?s) = replicate ?m ?s" by (rule sorted_sort_id) simp
  have mean: "sum_list (replicate ?m ?s) / real ?m = ?s" using m by (simp add: sum_list_replicate)
  show ?thesis unfolding r describe_samples_def Let_def srt length_replicate mean using m by (simp add: sum_list_replicate)
qed

theorem constant_trades_called_sequence_driven_witness:
  "map_option ob_interpretation (sr_observed (trade_order_monte_carlo (\<lambda>g xs. (rev xs, g)) () [5] 2000)) = Some ''sequence-driven''"
  using constant_trades_called_sequence_driven[of "\<lambda>g xs. (rev xs, g)" 1 2000 "()" 5] by (simp add: Let_def)

text \<open>The reported quantiles are ordered and lie between the extremes; the position is a percentage.\<close>

lemma shuffle_distribution_ordered:
  assumes "pnls \<noteq> []" "0 < n"
  shows "case (sr_distribution (trade_order_monte_carlo sh g pnls n), sr_observed (trade_order_monte_carlo sh g pnls n)) of
      (Some d, Some ob) \<Rightarrow> sd_min d \<le> sd_p5 d \<and> sd_p5 d \<le> sd_p25 d \<and> sd_p25 d \<le> sd_p50 d \<and> sd_p50 d \<le> sd_p75 d \<and> sd_p75 d \<le> sd_p95 d \<and>
        sd_p95 d \<le> sd_max d \<and> 0 \<le> ob_position_pct ob \<and> ob_position_pct ob \<le> 100
    | _ \<Rightarrow> False"
proof -
  let ?xs = "shuffled_sharpes sh pnls (nat n) g"
  have ne: "?xs \<noteq> []" using assms(2) length_0_conv[of ?xs] by simp
  have s: "sorted (sort ?xs)" "sort ?xs \<noteq> []" using ne by (auto dest: arg_cong[of _ _ set])
  have len: "length (filter P (sort ?xs)) \<le> length (sort ?xs)" for P by (rule length_filter_le)
  have r: "trade_order_monte_carlo sh g pnls n = describe_samples (sharpe_from_pnls pnls) ?xs"
    using assms(1) ne by (simp add: trade_order_monte_carlo_def)
  show ?thesis unfolding r describe_samples_def Let_def 
    using quantile_at_mono(1)[OF s] quantile_at_mono(2)[OF s, of "1 / 20" "1 / 20"] quantile_at_mono(3)[OF s, of "19 / 20" "19 / 20"]
      len[of "\<lambda>x. x \<le> sharpe_from_pnls pnls"] assms(2)
    by (simp add: divide_le_eq)
qed

end
