(* ===== verification/Json.thy ===== *)
theory Json
  imports Prelude "HOL-Library.List_Lexorder" "HOL-Library.Char_ord"
begin

text \<open>
  The values the research workbench freezes, checks, compares and hashes: JSON documents as Python objects.

  Strategy configurations are frozen into immutable tuples and mappings (\<open>evosport/experiments/spec.py\<close>) and turned back
  into lists and dictionaries for the backtest (\<open>evosport/experiments/gateway.py\<close>); results are checked to be strict JSON
  on the object graph, where cycles are possible (\<open>evosport/experiments/runner.py\<close>); identities are hashed over the canonical
  text (\<open>evosport/data/manifest.py\<close>).

  Strings are sequences of bytes, the UTF-8 encoding of the text: encoding is then the identity, and the order of bytes is
  the order of code points. Numbers that are not finite, and objects of other types, have a constructor of their own.
\<close>

section \<open>Values\<close>

datatype dkey = Str string | NotStr int

datatype json =
    JNull
  | JBool bool
  | JInt int
  | JFloat pyfloat
  | JNonFinite
  | JStr string
  | JList "json list"
  | JTuple "json list"
  | JDict "(dkey \<times> json) list"
  | JFrozen "(dkey \<times> json) list"
  | JOther

text \<open>Keys are ordered as Python orders strings and numbers.\<close>

instantiation dkey :: linorder
begin

definition less_eq_dkey :: "dkey \<Rightarrow> dkey \<Rightarrow> bool" where
  "less_eq_dkey a b = (case (a, b) of (NotStr i, NotStr j) \<Rightarrow> i \<le> j | (NotStr i, Str t) \<Rightarrow> True | (Str s, NotStr j) \<Rightarrow> False | (Str s, Str t) \<Rightarrow> s \<le> t)"

definition less_dkey :: "dkey \<Rightarrow> dkey \<Rightarrow> bool" where
  "less_dkey a b = (a \<le> b \<and> \<not> b \<le> a)" for a b :: dkey

instance
  by intro_classes (auto simp: less_eq_dkey_def less_dkey_def split: dkey.splits)

end

text \<open>\<open>d.get(key)\<close>.\<close>

definition json_get :: "(dkey \<times> json) list \<Rightarrow> string \<Rightarrow> json" where
  "json_get d k = (case dict_get d (Str k) of None \<Rightarrow> JNull | Some v \<Rightarrow> v)"

section \<open>Frozen configurations\<close>

definition finite_message :: string where "finite_message = ''strategy config numbers must be finite''"
definition values_message :: string where "values_message = ''strategy config must contain only JSON values''"
definition keys_message :: string where "keys_message = ''strategy config mapping keys must be strings''"

fun freeze_json :: "bool \<Rightarrow> json \<Rightarrow> py_error + json"
and freeze_list :: "bool \<Rightarrow> json list \<Rightarrow> py_error + json list"
and freeze_items :: "bool \<Rightarrow> (dkey \<times> json) list \<Rightarrow> py_error + (dkey \<times> json) list" where
  "freeze_json tuples JNull = ok JNull"
| "freeze_json tuples (JBool b) = ok (JBool b)"
| "freeze_json tuples (JStr s) = ok (JStr s)"
| "freeze_json tuples (JInt i) = ok (JInt i)"
| "freeze_json tuples (JFloat r) = ok (JFloat r)"
| "freeze_json tuples JNonFinite = raise (ValueError finite_message)"
| "freeze_json tuples (JList vs) = (case freeze_list tuples vs of Inl e \<Rightarrow> raise e | Inr ws \<Rightarrow> ok (JTuple ws))"
| "freeze_json tuples (JTuple vs) =
     (if \<not> tuples then raise (ValueError values_message)
      else (case freeze_list True vs of Inl e \<Rightarrow> raise e | Inr ws \<Rightarrow> ok (JTuple ws)))"
| "freeze_json tuples (JDict kvs) = (case freeze_items tuples kvs of Inl e \<Rightarrow> raise e | Inr ws \<Rightarrow> ok (JFrozen ws))"
| "freeze_json tuples (JFrozen kvs) = (case freeze_items tuples kvs of Inl e \<Rightarrow> raise e | Inr ws \<Rightarrow> ok (JFrozen ws))"
| "freeze_json tuples JOther = raise (ValueError values_message)"
| "freeze_list tuples [] = ok []"
| "freeze_list tuples (v # vs) =
     (case freeze_json tuples v of Inl e \<Rightarrow> raise e
      | Inr w \<Rightarrow> (case freeze_list tuples vs of Inl e \<Rightarrow> raise e | Inr ws \<Rightarrow> ok (w # ws)))"
| "freeze_items tuples [] = ok []"
| "freeze_items tuples ((k, v) # kvs) =
     (case k of NotStr i \<Rightarrow> raise (ValueError keys_message)
      | Str s \<Rightarrow>
          (case freeze_json tuples v of Inl e \<Rightarrow> raise e
           | Inr w \<Rightarrow> (case freeze_items tuples kvs of Inl e \<Rightarrow> raise e | Inr ws \<Rightarrow> ok ((k, w) # ws))))"

text \<open>The configuration of a strategy: a mapping, frozen on input and once more after validation.\<close>

definition validate_json_config :: "json \<Rightarrow> py_error + json" where
  "validate_json_config v =
     (case v of JDict kvs \<Rightarrow> freeze_json False v | JFrozen kvs \<Rightarrow> freeze_json False v
      | _ \<Rightarrow> raise (ValueError ''strategy config must be a mapping''))"

definition freeze_config :: "json \<Rightarrow> py_error + json" where
  "freeze_config v = freeze_json True v"

definition strategy_config :: "json \<Rightarrow> py_error + json" where
  "strategy_config v = (case validate_json_config v of Inl e \<Rightarrow> raise e | Inr w \<Rightarrow> freeze_config w)"

text \<open>Writing to a mapping: a frozen one refuses.\<close>

definition set_item :: "json \<Rightarrow> string \<Rightarrow> json \<Rightarrow> py_error + json" where
  "set_item d k v =
     (case d of
        JDict kvs \<Rightarrow> ok (JDict (dict_set kvs (Str k) v))
      | JFrozen kvs \<Rightarrow> raise (TypeError ''strategy config is immutable'')
      | _ \<Rightarrow> raise (TypeError ''object does not support item assignment''))"

fun materialize_config :: "json \<Rightarrow> json" where
  "materialize_config (JDict kvs) = JDict (map (\<lambda>(k, v). (k, materialize_config v)) kvs)"
| "materialize_config (JFrozen kvs) = JDict (map (\<lambda>(k, v). (k, materialize_config v)) kvs)"
| "materialize_config (JList vs) = JList (map materialize_config vs)"
| "materialize_config (JTuple vs) = JList (map materialize_config vs)"
| "materialize_config v = v"

text \<open>What JSON text can produce, and what is immutable all the way down.\<close>

fun plain :: "json \<Rightarrow> bool" where
  "plain (JList vs) = list_all plain vs"
| "plain (JDict kvs) = list_all (\<lambda>(k, v). (\<exists>s. k = Str s) \<and> plain v) kvs"
| "plain JNonFinite = False"
| "plain (JTuple vs) = False"
| "plain (JFrozen kvs) = False"
| "plain JOther = False"
| "plain _ = True"

fun immutable :: "json \<Rightarrow> bool" where
  "immutable (JList vs) = False"
| "immutable (JDict kvs) = False"
| "immutable (JTuple vs) = list_all immutable vs"
| "immutable (JFrozen kvs) = list_all (\<lambda>(k, v). (\<exists>s. k = Str s) \<and> immutable v) kvs"
| "immutable JNonFinite = False"
| "immutable JOther = False"
| "immutable _ = True"

lemma freeze_plain:
  "plain v \<Longrightarrow> \<exists>w. freeze_json b v = Inr w \<and> immutable w \<and> materialize_config w = v"
  "list_all plain vs \<Longrightarrow> \<exists>ws. freeze_list b vs = Inr ws \<and> list_all immutable ws \<and> map materialize_config ws = vs"
  "list_all (\<lambda>(k, v). (\<exists>s. k = Str s) \<and> plain v) kvs \<Longrightarrow>
     \<exists>ws. freeze_items b kvs = Inr ws \<and> list_all (\<lambda>(k, v). (\<exists>s. k = Str s) \<and> immutable v) ws \<and>
       map (\<lambda>(k, v). (k, materialize_config v)) ws = kvs"
proof (induction b v and b vs and b kvs rule: freeze_json_freeze_list_freeze_items.induct)
  case (15 b k v kvs)
  then obtain s where k: "k = Str s" by auto
  show ?case using 15(1)[OF k] 15(2)[OF k] 15(3) k by auto
qed auto

lemma freeze_again:
  "immutable w \<Longrightarrow> freeze_json True w = Inr w"
  "list_all immutable ws \<Longrightarrow> freeze_list True ws = Inr ws"
  "list_all (\<lambda>(k, v). (\<exists>s. k = Str s) \<and> immutable v) kws \<Longrightarrow> freeze_items True kws = Inr kws"
proof (induction "True" w and "True" ws and "True" kws rule: freeze_json_freeze_list_freeze_items.induct)
  case (15 k v kvs)
  then obtain s where k: "k = Str s" by auto
  show ?case using 15(1)[OF k] 15(2)[OF k] 15(3) k by auto
qed auto

text \<open>Whatever freezing accepts is JSON: a value it returns is immutable all the way down.\<close>

lemma freeze_immutable:
  "freeze_json b v = Inr w \<Longrightarrow> immutable w"
  "freeze_list b vs = Inr ws \<Longrightarrow> list_all immutable ws"
  "freeze_items b kvs = Inr kws \<Longrightarrow> list_all (\<lambda>(k, v). (\<exists>s. k = Str s) \<and> immutable v) kws"
  by (induction b v and b vs and b kvs arbitrary: w and ws and kws rule: freeze_json_freeze_list_freeze_items.induct)
    (auto split: sum.splits if_splits dkey.splits)

text \<open>
  C25: A strategy configuration read from JSON is accepted, frozen into a value that refuses every assignment at every level,
  and given to the backtest as exactly the lists and mappings that were read.
\<close>

theorem config_freeze_roundtrip:
  assumes "plain (JDict kvs)"
  shows "\<exists>w. strategy_config (JDict kvs) = Inr w \<and> immutable w \<and> materialize_config w = JDict kvs \<and>
    (\<forall>k x. set_item w k x = Inl (TypeError ''strategy config is immutable''))"
proof -
  obtain w where w: "freeze_json False (JDict kvs) = Inr w" "immutable w" "materialize_config w = JDict kvs"
    using freeze_plain(1)[OF assms] by blast
  moreover obtain ws where "w = JFrozen ws" using w(1) by (auto split: sum.splits)
  ultimately show ?thesis using freeze_again(1)[OF w(2)]
    by (auto simp: strategy_config_def validate_json_config_def freeze_config_def set_item_def)
qed

theorem config_freeze_roundtrip_witness:
  "\<exists>w. strategy_config (JDict [(Str ''levels'', JList [JInt 1, JFloat (1 / 2)])]) = Inr w \<and> immutable w \<and>
    materialize_config w = JDict [(Str ''levels'', JList [JInt 1, JFloat (1 / 2)])] \<and>
    (\<forall>k x. set_item w k x = Inl (TypeError ''strategy config is immutable''))"
  using config_freeze_roundtrip[of "[(Str ''levels'', JList [JInt 1, JFloat (1 / 2)])]"] by simp

section \<open>Strict JSON on the object graph\<close>

text \<open>
  \<open>_validate_json_value\<close> walks Python objects, which may share parts or contain themselves. An object store lists the
  objects; a reference is an index. A container holds references; everything else is a scalar, and \<open>Opaque\<close> is an object
  of another type, a tuple among them.
\<close>

datatype cell = Scalar json | ListCell "nat list" | DictCell "(dkey \<times> nat) list" | Opaque

type_synonym heap = "cell list"

definition cell_at :: "heap \<Rightarrow> nat \<Rightarrow> cell" where
  "cell_at h i = (if i < length h then h ! i else Opaque)"

fun check_scalar :: "json \<Rightarrow> py_error + unit" where
  "check_scalar JNull = ok ()"
| "check_scalar (JBool b) = ok ()"
| "check_scalar (JStr s) = ok ()"
| "check_scalar (JInt i) = ok ()"
| "check_scalar (JFloat r) = ok ()"
| "check_scalar JNonFinite = raise (ValueError ''value must be strict JSON with finite numbers'')"
| "check_scalar v = raise (ValueError ''value must be strict JSON'')"

definition cycle_message :: string where "cycle_message = ''value must be strict JSON without cycles''"
definition object_keys_message :: string where "object_keys_message = ''value must be strict JSON with string object keys''"

text \<open>\<open>seen\<close> holds the containers being visited: it is restored when a container has been checked.\<close>

function validate_ref :: "heap \<Rightarrow> nat set \<Rightarrow> nat \<Rightarrow> py_error + unit"
and validate_refs :: "heap \<Rightarrow> nat set \<Rightarrow> nat list \<Rightarrow> py_error + unit"
and validate_items :: "heap \<Rightarrow> nat set \<Rightarrow> (dkey \<times> nat) list \<Rightarrow> py_error + unit" where
  "validate_ref h seen i =
     (case cell_at h i of
        Scalar v \<Rightarrow> check_scalar v
      | ListCell rs \<Rightarrow> if i \<in> seen then raise (ValueError cycle_message) else validate_refs h (insert i seen) rs
      | DictCell krs \<Rightarrow> if i \<in> seen then raise (ValueError cycle_message) else validate_items h (insert i seen) krs
      | Opaque \<Rightarrow> raise (ValueError ''value must be strict JSON''))"
| "validate_refs h seen [] = ok ()"
| "validate_refs h seen (r # rs) = (case validate_ref h seen r of Inl e \<Rightarrow> raise e | Inr _ \<Rightarrow> validate_refs h seen rs)"
| "validate_items h seen [] = ok ()"
| "validate_items h seen ((k, r) # krs) =
     (case k of NotStr _ \<Rightarrow> raise (ValueError object_keys_message)
      | Str _ \<Rightarrow> (case validate_ref h seen r of Inl e \<Rightarrow> raise e | Inr _ \<Rightarrow> validate_items h seen krs))"
  by pat_completeness auto

text \<open>Each level of nesting visits a container not seen before, so the walk ends on every object graph.\<close>

definition unseen :: "heap \<Rightarrow> nat set \<Rightarrow> nat" where
  "unseen h seen = card ({..<length h} - seen)"

lemma unseen_less: "i \<notin> seen \<Longrightarrow> i < length h \<Longrightarrow> unseen h (insert i seen) < unseen h seen"
  unfolding unseen_def by (rule psubset_card_mono) auto

lemma cell_in_range: "cell_at h i = ListCell rs \<Longrightarrow> i < length h" "cell_at h i = DictCell krs \<Longrightarrow> i < length h"
  by (auto simp: cell_at_def split: if_splits)

termination validate_ref
  by (relation "measures [\<lambda>x. case x of Inl (h, seen, i) \<Rightarrow> unseen h seen | Inr (Inl (h, seen, rs)) \<Rightarrow> unseen h seen | Inr (Inr (h, seen, krs)) \<Rightarrow> unseen h seen,
      \<lambda>x. case x of Inl (h, seen, i) \<Rightarrow> 0 | Inr (Inl (h, seen, rs)) \<Rightarrow> Suc (length rs) | Inr (Inr (h, seen, krs)) \<Rightarrow> Suc (length krs)]")
    (auto intro: unseen_less cell_in_range)

declare validate_ref.simps [simp del]

text \<open>The finite document an object graph stands for: none when a cycle is reachable, and at most one.\<close>

fun is_scalar :: "json \<Rightarrow> bool" where
  "is_scalar (JList vs) = False"
| "is_scalar (JDict kvs) = False"
| "is_scalar _ = True"

inductive represents :: "heap \<Rightarrow> nat \<Rightarrow> json \<Rightarrow> bool" for h where
  atom: "cell_at h i = Scalar v \<Longrightarrow> is_scalar v \<Longrightarrow> represents h i v"
| array: "cell_at h i = ListCell rs \<Longrightarrow> list_all2 (represents h) rs vs \<Longrightarrow> represents h i (JList vs)"
| object: "cell_at h i = DictCell krs \<Longrightarrow> list_all2 (represents h) (map snd krs) (map snd kvs) \<Longrightarrow> map fst krs = map fst kvs \<Longrightarrow>
    represents h i (JDict kvs)"
| opaque: "cell_at h i = Opaque \<Longrightarrow> represents h i JOther"

inductive_cases represents_at: "represents h i v"

lemma list_all2_unique: "list_all2 (\<lambda>r v. R r v \<and> (\<forall>w. R r w \<longrightarrow> v = w)) rs vs \<Longrightarrow> list_all2 R rs ws \<Longrightarrow> vs = ws"
  by (induction rs vs arbitrary: ws rule: list_all2_induct) (auto simp: list_all2_Cons1)

lemma map_fst_snd_eq: "map fst xs = map fst ys \<Longrightarrow> map snd xs = map snd ys \<Longrightarrow> xs = ys"
  by (metis zip_map_fst_snd)

lemma represents_unique: "represents h i v \<Longrightarrow> represents h i w \<Longrightarrow> v = w"
proof (induction i v arbitrary: w rule: represents.induct)
  case (array i rs vs)
  then show ?case using list_all2_unique[of "represents h" rs vs] by (auto elim!: represents_at)
next
  case (object i krs kvs)
  then show ?case using list_all2_unique[of "represents h" "map snd krs" "map snd kvs"]
    by (auto elim!: represents_at intro: map_fst_snd_eq)
qed (auto elim: represents_at)

lemma check_scalar_plain: "check_scalar v = Inr u \<longleftrightarrow> is_scalar v \<and> plain v"
  by (cases v) auto

lemma validate_sound:
  "validate_ref h seen i = Inr u \<Longrightarrow> \<exists>v. represents h i v \<and> plain v"
  "validate_refs h seen rs = Inr u \<Longrightarrow> \<exists>vs. list_all2 (represents h) rs vs \<and> list_all plain vs"
  "validate_items h seen krs = Inr u \<Longrightarrow> \<exists>kvs. list_all2 (represents h) (map snd krs) (map snd kvs) \<and> map fst krs = map fst kvs \<and>
     list_all (\<lambda>(k, v). (\<exists>s. k = Str s) \<and> plain v) kvs"
proof (induction h seen i and h seen rs and h seen krs arbitrary: u and u and u rule: validate_ref_validate_refs_validate_items.induct)
  case (1 h seen i)
  show ?case
  proof (cases "cell_at h i")
    case (Scalar v)
    then show ?thesis using "1.prems" by (auto simp: validate_ref.simps check_scalar_plain intro: represents.atom)
  next
    case (ListCell rs)
    then obtain vs where "list_all2 (represents h) rs vs" "list_all plain vs"
      using "1.IH"(1)[OF ListCell] "1.prems" by (auto simp: validate_ref.simps split: if_splits)
    then show ?thesis using represents.array[OF ListCell] by (intro exI[of _ "JList vs"]) simp
  next
    case (DictCell krs)
    then obtain kvs where "list_all2 (represents h) (map snd krs) (map snd kvs)" "map fst krs = map fst kvs"
        "list_all (\<lambda>(k, v). (\<exists>s. k = Str s) \<and> plain v) kvs"
      using "1.IH"(2)[OF DictCell] "1.prems" by (auto simp: validate_ref.simps split: if_splits)
    then show ?thesis using represents.object[OF DictCell] by (intro exI[of _ "JDict kvs"]) simp
  next
    case Opaque
    then show ?thesis using "1.prems" by (simp add: validate_ref.simps)
  qed
next
  case (3 h seen r rs)
  obtain v vs where "represents h r v" "plain v" "list_all2 (represents h) rs vs" "list_all plain vs"
    using "3.IH"(1) "3.IH"(2) "3.prems" by (auto split: sum.splits)
  then show ?case by (intro exI[of _ "v # vs"]) simp
next
  case (5 h seen k r krs)
  obtain s where k: "k = Str s" using "5.prems" by (cases k) auto
  obtain v kvs where "represents h r v" "plain v" "list_all2 (represents h) (map snd krs) (map snd kvs)" "map fst krs = map fst kvs"
      "list_all (\<lambda>(k, v). (\<exists>s. k = Str s) \<and> plain v) kvs"
    using "5.IH"(1)[OF k] "5.IH"(2)[OF k] "5.prems" k by (auto split: sum.splits)
  then show ?case using k by (intro exI[of _ "(k, v) # kvs"]) simp
qed auto

text \<open>A container above the one being checked stands for a larger document, so it cannot be the same.\<close>

definition above :: "heap \<Rightarrow> nat set \<Rightarrow> json \<Rightarrow> bool" where
  "above h seen v = (\<forall>i\<in>seen. \<exists>u. represents h i u \<and> size v < size u)"

lemma above_fresh: "above h seen v \<Longrightarrow> represents h i v \<Longrightarrow> i \<notin> seen"
  using represents_unique by (fastforce simp: above_def)

lemma above_part: "above h seen v \<Longrightarrow> represents h i v \<Longrightarrow> size w < size v \<Longrightarrow> above h (insert i seen) w"
  unfolding above_def by (metis insert_iff order.strict_trans)

lemma size_elem: "x \<in> set vs \<Longrightarrow> size x < size (JList vs)"
  by (induction vs) auto

lemma size_value: "(k, x) \<in> set kvs \<Longrightarrow> size x < size (JDict kvs)"
  by (induction kvs) auto

lemma validate_refs_ok: "list_all2 (\<lambda>r v. validate_ref h seen r = Inr ()) rs vs \<Longrightarrow> validate_refs h seen rs = Inr ()"
  by (induction rs vs rule: list_all2_induct) auto

lemma validate_items_ok: "list_all2 (\<lambda>r v. validate_ref h seen r = Inr ()) (map snd krs) vs \<Longrightarrow> \<forall>k\<in>set (map fst krs). \<exists>s. k = Str s \<Longrightarrow>
    validate_items h seen krs = Inr ()"
  by (induction krs arbitrary: vs) (auto simp: list_all2_Cons1)

lemma validate_complete: "represents h i v \<Longrightarrow> plain v \<Longrightarrow> above h seen v \<Longrightarrow> validate_ref h seen i = Inr ()"
proof (induction i v arbitrary: seen rule: represents.induct)
  case (atom i v)
  then show ?case using check_scalar_plain[of v "()"] by (simp add: validate_ref.simps)
next
  case (array i rs vs)
  have rep: "represents h i (JList vs)" using array.hyps(1) array.IH by (auto intro: represents.array elim: list_all2_mono)
  have "list_all2 (\<lambda>r v. validate_ref h (insert i seen) r = Inr ()) rs vs"
    using array.IH array.prems size_elem[of _ vs] above_part[OF array.prems(2) rep]
    by (auto simp: list_all2_conv_all_nth list_all_length)
  then show ?case using above_fresh[OF array.prems(2) rep] array.hyps(1) by (simp add: validate_ref.simps validate_refs_ok)
next
  case (object i krs kvs)
  have rep: "represents h i (JDict kvs)" using object.hyps(1,2) object.IH by (auto intro: represents.object elim: list_all2_mono)
  have part: "above h (insert i seen) (snd (kvs ! n))" if "n < length kvs" for n
    using size_value[of "fst (kvs ! n)" "snd (kvs ! n)" kvs] above_part[OF object.prems(2) rep] that by simp
  have "list_all2 (\<lambda>r v. validate_ref h (insert i seen) r = Inr ()) (map snd krs) (map snd kvs)"
    using object.IH object.prems part by (fastforce simp: list_all2_conv_all_nth list_all_length case_prod_beta)
  moreover have "\<forall>k\<in>set (map fst krs). \<exists>s. k = Str s"
    unfolding object.hyps(2) using object.prems(1) by (fastforce simp: list_all_iff)
  ultimately show ?case using above_fresh[OF object.prems(2) rep] object.hyps(1) by (simp add: validate_ref.simps validate_items_ok)
qed simp

text \<open>
  C24: The strict check of a gateway result ends on every object graph, and accepts exactly those that stand for a finite JSON
  document: cycles, numbers that are not finite, keys that are not strings and foreign objects are refused, shared parts are not.
\<close>

theorem strict_check_exact:
  "validate_ref h {} i = Inr () \<longleftrightarrow> (\<exists>v. represents h i v \<and> plain v)"
  using validate_sound(1)[of h "{}" i "()"] validate_complete[of h i _ "{}"] by (auto simp: above_def)

section \<open>Canonical text\<close>

text \<open>
  \<open>json.dumps\<close> with sorted keys, no spaces and \<open>ensure_ascii=False\<close>. The text of a float, \<open>repr\<close>, is an argument.
\<close>

definition hex_digit :: "nat \<Rightarrow> char" where
  "hex_digit n = ''0123456789abcdef'' ! n"

definition escape_char :: "char \<Rightarrow> string" where
  "escape_char c =
     (let n = (of_char c :: nat) in
      if n = 34 then [CHR 0x5C, CHR 0x22] else if n = 92 then [CHR 0x5C, CHR 0x5C]
      else if n = 8 then [CHR 0x5C, CHR ''b''] else if n = 9 then [CHR 0x5C, CHR ''t''] else if n = 10 then [CHR 0x5C, CHR ''n'']
      else if n = 12 then [CHR 0x5C, CHR ''f''] else if n = 13 then [CHR 0x5C, CHR ''r'']
      else if n < 32 then [CHR 0x5C, CHR ''u'', CHR ''0'', CHR ''0'', hex_digit (n div 16), hex_digit (n mod 16)]
      else [c])"

definition quote :: "string \<Rightarrow> string" where
  "quote s = CHR 0x22 # concat (map escape_char s) @ [CHR 0x22]"

definition key_text :: "dkey \<Rightarrow> string" where
  "key_text k = (case k of Str s \<Rightarrow> s | NotStr i \<Rightarrow> int_str i)"

fun sort_keys :: "json \<Rightarrow> json"
and sort_keys_list :: "json list \<Rightarrow> json list"
and sort_keys_items :: "(dkey \<times> json) list \<Rightarrow> (dkey \<times> json) list" where
  "sort_keys (JList vs) = JList (sort_keys_list vs)"
| "sort_keys (JTuple vs) = JList (sort_keys_list vs)"
| "sort_keys (JDict kvs) = JDict (sort_key fst (sort_keys_items kvs))"
| "sort_keys (JFrozen kvs) = JDict (sort_key fst (sort_keys_items kvs))"
| "sort_keys v = v"
| "sort_keys_list [] = []"
| "sort_keys_list (v # vs) = sort_keys v # sort_keys_list vs"
| "sort_keys_items [] = []"
| "sort_keys_items ((k, v) # kvs) = (k, sort_keys v) # sort_keys_items kvs"

text \<open>The code dumps values built from strings, integers and finite numbers, or checked before: the other cases have no text.\<close>

fun dump_text :: "(pyfloat \<Rightarrow> string) \<Rightarrow> json \<Rightarrow> string"
and dump_more :: "(pyfloat \<Rightarrow> string) \<Rightarrow> json list \<Rightarrow> string"
and dump_members :: "(pyfloat \<Rightarrow> string) \<Rightarrow> (dkey \<times> json) list \<Rightarrow> string" where
  "dump_text sf JNull = ''null''"
| "dump_text sf (JBool b) = (if b then ''true'' else ''false'')"
| "dump_text sf (JInt i) = int_str i"
| "dump_text sf (JFloat r) = sf r"
| "dump_text sf (JStr s) = quote s"
| "dump_text sf (JList vs) = CHR ''['' # (case vs of [] \<Rightarrow> '']'' | v # vs' \<Rightarrow> dump_text sf v @ dump_more sf vs')"
| "dump_text sf (JDict kvs) =
     CHR ''{'' # (case kvs of [] \<Rightarrow> ''}'' | (k, v) # kvs' \<Rightarrow> quote (key_text k) @ CHR '':'' # dump_text sf v @ dump_members sf kvs')"
| "dump_text sf _ = []"
| "dump_more sf [] = '']''"
| "dump_more sf (v # vs) = CHR '','' # dump_text sf v @ dump_more sf vs"
| "dump_members sf [] = ''}''"
| "dump_members sf ((k, v) # kvs) = CHR '','' # quote (key_text k) @ CHR '':'' # dump_text sf v @ dump_members sf kvs"

definition canonical_json :: "(pyfloat \<Rightarrow> string) \<Rightarrow> json \<Rightarrow> string" where
  "canonical_json sf v = dump_text sf (sort_keys v)"

text \<open>Reading one character back, for the proof that texts determine values.\<close>

definition hex_value :: "char \<Rightarrow> nat" where
  "hex_value c = (let n = (of_char c :: nat) in if n < 58 then n - 48 else n - 87)"

definition unescape :: "string \<Rightarrow> (char \<times> string) option" where
  "unescape s =
     (case s of [] \<Rightarrow> None | c # r \<Rightarrow>
        if c \<noteq> CHR 0x5C then Some (c, r)
        else (case r of [] \<Rightarrow> None | d # q \<Rightarrow>
          if d = CHR ''b'' then Some (CHR 0x08, q) else if d = CHR ''t'' then Some (CHR 0x09, q)
          else if d = CHR ''n'' then Some (CHR 0x0A, q) else if d = CHR ''f'' then Some (CHR 0x0C, q)
          else if d = CHR ''r'' then Some (CHR 0x0D, q)
          else if d = CHR ''u'' then Some (char_of (16 * hex_value (q ! 2) + hex_value (q ! 3)), drop 4 q)
          else Some (d, q)))"

lemma hex_digit_value: "n < 16 \<Longrightarrow> hex_value (hex_digit n) = n"
proof -
  assume "n < 16"
  moreover have "\<forall>k\<in>set [0..<16]. hex_value (hex_digit k) = k" by (simp add: upt_rec hex_value_def hex_digit_def)
  ultimately show ?thesis by (metis atLeast0LessThan atLeast_upt lessThan_iff)
qed

lemma same_code: "(of_char c :: nat) = of_char d \<Longrightarrow> c = d"
  by (simp only: of_char_eq_iff)

lemma code_literals:
  "(of_char c :: nat) = 34 \<Longrightarrow> c = CHR 0x22" "(of_char c :: nat) = 92 \<Longrightarrow> c = CHR 0x5C" "(of_char c :: nat) = 8 \<Longrightarrow> c = CHR 0x08"
  "(of_char c :: nat) = 9 \<Longrightarrow> c = CHR 0x09" "(of_char c :: nat) = 10 \<Longrightarrow> c = CHR 0x0A" "(of_char c :: nat) = 12 \<Longrightarrow> c = CHR 0x0C"
  "(of_char c :: nat) = 13 \<Longrightarrow> c = CHR 0x0D"
  by (rule same_code, simp)+

lemma unescape_escape: "unescape (escape_char c @ r) = Some (c, r)"
proof -
  let ?n = "of_char c :: nat"
  have c: "c = char_of ?n" by simp
  consider "?n = 34" | "?n = 92" | "?n = 8" | "?n = 9" | "?n = 10" | "?n = 12" | "?n = 13"
    | "?n < 32" "?n \<notin> {8, 9, 10, 12, 13}" | "32 \<le> ?n" "?n \<noteq> 34" "?n \<noteq> 92" by fastforce
  then show ?thesis
  proof cases
    case 8
    have "16 * hex_value (hex_digit (?n div 16)) + hex_value (hex_digit (?n mod 16)) = ?n"
      using 8 by (subst (1 2) hex_digit_value) auto
    then show ?thesis using 8 c by (auto simp: unescape_def escape_char_def Let_def)
  next
    case 9
    have "c \<noteq> CHR 0x5C" using 9(3) by auto
    then show ?thesis using 9 by (simp add: unescape_def escape_char_def Let_def)
  qed (drule code_literals, simp add: unescape_def escape_char_def)+
qed

lemma escape_not_quote: "escape_char c @ r \<noteq> CHR 0x22 # r'"
proof -
  have "c = CHR 0x22 \<Longrightarrow> (of_char c :: nat) = 34" by simp
  then show ?thesis by (auto simp: escape_char_def Let_def split: if_splits)
qed

lemma escapes_prefix:
  "concat (map escape_char s) @ CHR 0x22 # r = concat (map escape_char t) @ CHR 0x22 # r' \<Longrightarrow> s = t \<and> r = r'"
proof (induction s arbitrary: t)
  case Nil
  then show ?case using escape_not_quote by (cases t) (auto, metis)
next
  case (Cons c s)
  show ?case
  proof (cases t)
    case Nil
    then show ?thesis using Cons.prems escape_not_quote by auto
  next
    case (Cons d t')
    have "unescape (escape_char c @ concat (map escape_char s) @ CHR 0x22 # r) =
        unescape (escape_char d @ concat (map escape_char t') @ CHR 0x22 # r')"
      using Cons.prems Cons by simp
    then show ?thesis using Cons.IH[of t'] Cons unfolding unescape_escape by simp
  qed
qed

lemma quote_prefix: "quote s @ r = quote t @ r' \<Longrightarrow> s = t \<and> r = r'"
  using escapes_prefix[of s r t r'] by (simp add: quote_def)

definition number_char :: "char \<Rightarrow> bool" where
  "number_char c = (char_is_digit c \<or> c \<in> {CHR ''-'', CHR ''+'', CHR ''.'', CHR ''e''})"

definition float_text :: "string \<Rightarrow> bool" where
  "float_text s = (s \<noteq> [] \<and> list_all number_char s \<and> (CHR ''.'' \<in> set s \<or> CHR ''e'' \<in> set s))"

text \<open>What the canonical text is used on: values whose floats are among \<open>F\<close>, in the form \<open>sort_keys\<close> leaves.\<close>

fun sorted_doc :: "pyfloat set \<Rightarrow> json \<Rightarrow> bool" where
  "sorted_doc F (JList vs) = list_all (sorted_doc F) vs"
| "sorted_doc F (JDict kvs) = list_all (\<lambda>(k, v). (\<exists>s. k = Str s) \<and> sorted_doc F v) kvs"
| "sorted_doc F (JFloat r) = (r \<in> F)"
| "sorted_doc F JNonFinite = False"
| "sorted_doc F (JTuple vs) = False"
| "sorted_doc F (JFrozen kvs) = False"
| "sorted_doc F JOther = False"
| "sorted_doc F _ = True"

definition stops :: "string \<Rightarrow> bool" where
  "stops r = (r = [] \<or> hd r \<in> {CHR '','', CHR '']'', CHR ''}''})"

definition first_chars :: "json \<Rightarrow> char set" where
  "first_chars v = (case v of JNull \<Rightarrow> {CHR ''n''} | JBool True \<Rightarrow> {CHR ''t''} | JBool False \<Rightarrow> {CHR ''f''} | JStr s \<Rightarrow> {CHR 0x22}
     | JList vs \<Rightarrow> {CHR ''[''} | JDict kvs \<Rightarrow> {CHR ''{''} | _ \<Rightarrow> {c. number_char c})"

lemma not_number_chars: "\<not> number_char CHR ''n''" "\<not> number_char CHR ''t''" "\<not> number_char CHR ''f''" "\<not> number_char CHR 0x22"
    "\<not> number_char CHR ''[''" "\<not> number_char CHR ''{''" "\<not> number_char CHR '',''" "\<not> number_char CHR '']''" "\<not> number_char CHR ''}''"
    "\<not> char_is_digit CHR ''.''" "\<not> char_is_digit CHR ''e''"
  by (simp_all add: number_char_def char_is_digit_def)

lemma int_str_chars: "int_str i \<noteq> [] \<and> list_all (\<lambda>c. char_is_digit c \<or> c = CHR ''-'') (int_str i)"
  using nat_str_digits[of "nat i"] nat_str_digits[of "nat (- i)"] by (auto simp: int_str_def list_all_iff)

lemma int_str_numbers: "list_all number_char (int_str i)"
  using int_str_chars[of i] by (auto simp: list_all_iff number_char_def)

lemma int_not_float: "float_text s \<Longrightarrow> s \<noteq> int_str i"
  using int_str_chars[of i] not_number_chars(10,11) by (auto simp: float_text_def list_all_iff)

lemma number_prefix: "list_all number_char s \<Longrightarrow> list_all number_char t \<Longrightarrow> stops r \<Longrightarrow> stops r' \<Longrightarrow> s @ r = t @ r' \<Longrightarrow> s = t \<and> r = r'"
proof (induction s arbitrary: t)
  case Nil
  then show ?case by (cases t) (auto simp: stops_def not_number_chars)
next
  case (Cons c s)
  then show ?case by (cases t) (auto simp: stops_def not_number_chars)
qed

lemma dump_head: "sorted_doc F v \<Longrightarrow> \<forall>x\<in>F. float_text (sf x) \<Longrightarrow> \<exists>c t. dump_text sf v = c # t \<and> c \<in> first_chars v"
proof (cases v)
  case (JInt i)
  then show ?thesis using int_str_chars[of i] int_str_numbers[of i] by (cases "int_str i") (auto simp: first_chars_def)
next
  case (JFloat x)
  assume "sorted_doc F v" "\<forall>x\<in>F. float_text (sf x)"
  then show ?thesis using JFloat by (cases "sf x") (auto simp: first_chars_def float_text_def)
qed (auto simp: first_chars_def quote_def split: bool.splits)

lemma tails_stop: "stops (dump_more sf vs @ r)" "stops (dump_members sf kvs @ r)"
  by (cases vs; simp add: stops_def) (cases kvs rule: list.exhaust; auto simp: stops_def)

text \<open>The text of \<open>v\<close>, followed by anything that stops it, determines \<open>v\<close>.\<close>

definition determined :: "(pyfloat \<Rightarrow> string) \<Rightarrow> pyfloat set \<Rightarrow> json \<Rightarrow> bool" where
  "determined sf F v = (\<forall>w r r'. sorted_doc F w \<longrightarrow> stops r \<longrightarrow> stops r' \<longrightarrow> dump_text sf v @ r = dump_text sf w @ r' \<longrightarrow> v = w \<and> r = r')"

lemma determinedD: "determined sf F v \<Longrightarrow> sorted_doc F w \<Longrightarrow> stops r \<Longrightarrow> stops r' \<Longrightarrow> dump_text sf v @ r = dump_text sf w @ r' \<Longrightarrow> v = w \<and> r = r'"
  unfolding determined_def by blast

lemma more_prefix:
  "\<forall>v\<in>set vs. determined sf F v \<Longrightarrow> list_all (sorted_doc F) ws \<Longrightarrow> dump_more sf vs @ r = dump_more sf ws @ r' \<Longrightarrow> vs = ws \<and> r = r'"
proof (induction vs arbitrary: ws)
  case Nil
  then show ?case by (cases ws) auto
next
  case (Cons v vs)
  then obtain w ws' where ws: "ws = w # ws'" by (cases ws) auto
  have "v = w \<and> dump_more sf vs @ r = dump_more sf ws' @ r'"
    using Cons.prems ws by (intro determinedD[of sf F v w]) (auto simp: tails_stop)
  then show ?case using Cons ws by auto
qed

lemma members_prefix:
  "\<forall>p\<in>set kvs. determined sf F (snd p) \<and> (\<exists>s. fst p = Str s) \<Longrightarrow> list_all (\<lambda>(k, v). (\<exists>s. k = Str s) \<and> sorted_doc F v) kws \<Longrightarrow>
   dump_members sf kvs @ r = dump_members sf kws @ r' \<Longrightarrow> kvs = kws \<and> r = r'"
proof (induction kvs arbitrary: kws)
  case Nil
  then show ?case by (cases kws rule: list.exhaust) auto
next
  case (Cons p kvs)
  obtain s v where p: "p = (Str s, v)" using Cons.prems(1) by (cases p) auto
  obtain k w kws' where kws0: "kws = (k, w) # kws'" using Cons.prems(3) p by (cases kws rule: list.exhaust) auto
  then obtain t where kws: "kws = (Str t, w) # kws'" using Cons.prems(2) by auto
  have "quote s @ CHR '':'' # dump_text sf v @ dump_members sf kvs @ r = quote t @ CHR '':'' # dump_text sf w @ dump_members sf kws' @ r'"
    using Cons.prems(3) p kws by (simp add: key_text_def)
  then have st: "s = t" "dump_text sf v @ dump_members sf kvs @ r = dump_text sf w @ dump_members sf kws' @ r'"
    by (auto dest: quote_prefix)
  have "v = w \<and> dump_members sf kvs @ r = dump_members sf kws' @ r'"
    using Cons.prems p kws st(2) by (intro determinedD[of sf F v w]) (auto simp: tails_stop)
  then show ?case using Cons p kws st(1) by auto
qed

lemma same_first: "dump_text sf v @ r = dump_text sf w @ r' \<Longrightarrow> sorted_doc F v \<Longrightarrow> sorted_doc F w \<Longrightarrow> \<forall>x\<in>F. float_text (sf x) \<Longrightarrow>
    first_chars v \<inter> first_chars w \<noteq> {}"
  using dump_head[of F v sf] dump_head[of F w sf] by fastforce

lemma dump_determined:
  assumes floats: "\<forall>x\<in>F. float_text (sf x)" "inj_on sf F"
  shows "sorted_doc F v \<Longrightarrow> determined sf F v"
proof (induction v)
  case (JList vs)
  have ih: "\<forall>v\<in>set vs. determined sf F v" using JList by (auto simp: list_all_iff)
  show ?case unfolding determined_def
  proof (intro allI impI)
    fix w r r' assume w: "sorted_doc F w" "stops r" "stops r'" "dump_text sf (JList vs) @ r = dump_text sf w @ r'"
    obtain ws where ws: "w = JList ws" using same_first[OF w(4) JList.prems w(1) floats(1)]
      by (cases w) (auto simp: first_chars_def not_number_chars split: bool.splits)
    show "JList vs = w \<and> r = r'"
    proof (cases "vs = [] \<or> ws = []")
      case True
      have "c \<in> first_chars u \<Longrightarrow> c \<noteq> CHR '']''" for c u
        by (cases u) (auto simp: first_chars_def not_number_chars split: bool.splits)
      then show ?thesis using True w(1,4) ws JList.prems dump_head[OF _ floats(1)]
        by (cases vs; cases ws) (fastforce simp: list_all_iff)+
    next
      case False
      then obtain x xs y ys where xs: "vs = x # xs" "ws = y # ys" by (auto simp: neq_Nil_conv)
      have "x = y \<and> dump_more sf xs @ r = dump_more sf ys @ r'"
        using w(1,4) ws xs ih by (intro determinedD[of sf F x y]) (auto simp: tails_stop)
      then show ?thesis using more_prefix[of xs sf F ys r r'] w(1) ws xs ih by auto
    qed
  qed
next
  case (JDict kvs)
  have ih: "\<forall>p\<in>set kvs. determined sf F (snd p) \<and> (\<exists>s. fst p = Str s)" using JDict by (fastforce simp: list_all_iff)
  show ?case unfolding determined_def
  proof (intro allI impI)
    fix w r r' assume w: "sorted_doc F w" "stops r" "stops r'" "dump_text sf (JDict kvs) @ r = dump_text sf w @ r'"
    obtain kws where kws: "w = JDict kws" using same_first[OF w(4) JDict.prems w(1) floats(1)]
      by (cases w) (auto simp: first_chars_def not_number_chars split: bool.splits)
    have m: "dump_members sf us = CHR '','' # tl (dump_text sf (JDict us))" if "us \<noteq> []" for us
      using that by (cases us rule: list.exhaust) auto
    have "dump_members sf kvs @ r = dump_members sf kws @ r'"
    proof (cases "kvs = [] \<or> kws = []")
      case True
      then show ?thesis using w(4) kws by (cases kvs; cases kws) (auto simp: quote_def)
    next
      case False
      then show ?thesis using w(4) kws m[of kvs] m[of kws] by (auto simp: neq_Nil_conv)
    qed
    then show "JDict kvs = w \<and> r = r'" using members_prefix[OF ih] w(1) kws by simp
  qed
next
  case (JStr s)
  show ?case unfolding determined_def
  proof (intro allI impI)
    fix w r r' assume w: "sorted_doc F w" "stops r" "stops r'" "dump_text sf (JStr s) @ r = dump_text sf w @ r'"
    obtain t where t: "w = JStr t" using same_first[OF w(4) JStr.prems w(1) floats(1)]
      by (cases w) (auto simp: first_chars_def not_number_chars split: bool.splits)
    have "quote s @ r = quote t @ r'" using w(4) unfolding t by simp
    then show "JStr s = w \<and> r = r'" unfolding t by (auto dest: quote_prefix)
  qed
next
  case (JInt i)
  show ?case unfolding determined_def
  proof (intro allI impI)
    fix w r r' assume w: "sorted_doc F w" "stops r" "stops r'" "dump_text sf (JInt i) @ r = dump_text sf w @ r'"
    consider j where "w = JInt j" | x where "w = JFloat x" using same_first[OF w(4) JInt.prems w(1) floats(1)] w(1)
      by (cases w) (auto simp: first_chars_def not_number_chars split: bool.splits)
    then show "JInt i = w \<and> r = r'"
    proof cases
      case 1
      then show ?thesis using number_prefix[OF int_str_numbers int_str_numbers w(2,3)] w(4) int_str_inject by auto
    next
      case 2
      then have "float_text (sf x)" using floats(1) w(1) by simp
      then show ?thesis using number_prefix[OF int_str_numbers _ w(2,3), of "sf x" i] w(4) 2 int_not_float[of "sf x" i] by (auto simp: float_text_def)
    qed
  qed
next
  case (JFloat y)
  then have y: "float_text (sf y)" "y \<in> F" using floats(1) by auto
  show ?case unfolding determined_def
  proof (intro allI impI)
    fix w r r' assume w: "sorted_doc F w" "stops r" "stops r'" "dump_text sf (JFloat y) @ r = dump_text sf w @ r'"
    consider j where "w = JInt j" | x where "w = JFloat x" using same_first[OF w(4) JFloat.prems w(1) floats(1)] w(1)
      by (cases w) (auto simp: first_chars_def not_number_chars split: bool.splits)
    then show "JFloat y = w \<and> r = r'"
    proof cases
      case 1
      then show ?thesis using number_prefix[OF _ int_str_numbers w(2,3), of "sf y"] w(4) y int_not_float[of "sf y"] by (auto simp: float_text_def)
    next
      case 2
      then have "float_text (sf x)" "x \<in> F" using floats(1) w(1) by auto
      then show ?thesis using number_prefix[OF _ _ w(2,3), of "sf y" "sf x"] w(4) 2 y floats(2) by (auto simp: float_text_def inj_on_def)
    qed
  qed
next
  case JNull
  show ?case unfolding determined_def
  proof (intro allI impI)
    fix w r r' assume w: "sorted_doc F w" "stops r" "stops r'" "dump_text sf JNull @ r = dump_text sf w @ r'"
    have "w = JNull" using same_first[OF w(4) JNull w(1) floats(1)]
      by (cases w) (auto simp: first_chars_def not_number_chars split: bool.splits)
    then show "JNull = w \<and> r = r'" using w(4) by simp
  qed
next
  case (JBool b)
  show ?case unfolding determined_def
  proof (intro allI impI)
    fix w r r' assume w: "sorted_doc F w" "stops r" "stops r'" "dump_text sf (JBool b) @ r = dump_text sf w @ r'"
    have "w = JBool b" using same_first[OF w(4) JBool w(1) floats(1)]
      by (cases w; cases b) (auto simp: first_chars_def not_number_chars split: bool.splits)
    then show "JBool b = w \<and> r = r'" using w(4) by simp
  qed
qed auto

text \<open>Documents as the code builds them, and the form in which they are hashed.\<close>

fun floats_in :: "json \<Rightarrow> pyfloat list" where
  "floats_in (JFloat r) = [r]"
| "floats_in (JList vs) = concat (map floats_in vs)"
| "floats_in (JTuple vs) = concat (map floats_in vs)"
| "floats_in (JDict kvs) = concat (map (\<lambda>(k, v). floats_in v) kvs)"
| "floats_in (JFrozen kvs) = concat (map (\<lambda>(k, v). floats_in v) kvs)"
| "floats_in _ = []"

fun dumpable :: "json \<Rightarrow> bool" where
  "dumpable (JList vs) = list_all dumpable vs"
| "dumpable (JTuple vs) = list_all dumpable vs"
| "dumpable (JDict kvs) = list_all (\<lambda>(k, v). (\<exists>s. k = Str s) \<and> dumpable v) kvs"
| "dumpable (JFrozen kvs) = list_all (\<lambda>(k, v). (\<exists>s. k = Str s) \<and> dumpable v) kvs"
| "dumpable JNonFinite = False"
| "dumpable JOther = False"
| "dumpable _ = True"

lemma sort_keys_doc:
  "dumpable v \<Longrightarrow> set (floats_in v) \<subseteq> F \<Longrightarrow> sorted_doc F (sort_keys v)"
  "list_all dumpable vs \<Longrightarrow> set (concat (map floats_in vs)) \<subseteq> F \<Longrightarrow> list_all (sorted_doc F) (sort_keys_list vs)"
  "list_all (\<lambda>(k, v). (\<exists>s. k = Str s) \<and> dumpable v) kvs \<Longrightarrow> set (concat (map (\<lambda>(k, v). floats_in v) kvs)) \<subseteq> F \<Longrightarrow>
     list_all (\<lambda>(k, v). (\<exists>s. k = Str s) \<and> sorted_doc F v) (sort_keys_items kvs)"
  by (induction v and vs and kvs rule: sort_keys_sort_keys_list_sort_keys_items.induct) (auto simp: list_all_iff)

text \<open>
  What the texts of floats must satisfy on the numbers at hand: they read as a float, not as an integer, and different floats
  have different texts (\<open>repr\<close> round-trips).
\<close>

definition float_repr_ok :: "(pyfloat \<Rightarrow> string) \<Rightarrow> pyfloat list \<Rightarrow> bool" where
  "float_repr_ok sf xs = (list_all (\<lambda>x. float_text (sf x)) xs \<and> list_all (\<lambda>x. list_all (\<lambda>y. sf x = sf y \<longrightarrow> x = y) xs) xs)"

lemma canonical_injective:
  assumes "dumpable v" "dumpable w" "float_repr_ok sf (floats_in v @ floats_in w)"
  shows "canonical_json sf v = canonical_json sf w \<longleftrightarrow> sort_keys v = sort_keys w"
proof -
  let ?F = "set (floats_in v @ floats_in w)"
  have "\<forall>x\<in>?F. float_text (sf x)" "inj_on sf ?F" using assms(3) by (auto simp: float_repr_ok_def list_all_iff inj_on_def)
  moreover have "sorted_doc ?F (sort_keys v)" "sorted_doc ?F (sort_keys w)"
    using sort_keys_doc(1)[OF assms(1), of ?F] sort_keys_doc(1)[OF assms(2), of ?F] by auto
  ultimately show ?thesis
    using determinedD[OF dump_determined, of ?F sf "sort_keys v" "sort_keys w" "[]" "[]"] by (auto simp: canonical_json_def stops_def)
qed

text \<open>
  C23: The canonical text determines the document: two documents with the same canonical bytes are equal up to the order of
  their keys (and tuples read as lists), so hashes over canonical bytes identify documents.
\<close>

theorem canonical_json_injective:
  assumes "dumpable v" "dumpable w" "float_repr_ok sf (floats_in v @ floats_in w)"
  shows "canonical_json sf v = canonical_json sf w \<longleftrightarrow> sort_keys v = sort_keys w"
  using assms by (rule canonical_injective)

theorem canonical_json_injective_witness:
  "canonical_json (\<lambda>x. ''1.5'') (JDict [(Str ''b'', JFloat (3 / 2)), (Str ''a'', JInt 1)]) =
     canonical_json (\<lambda>x. ''1.5'') (JDict [(Str ''a'', JInt 1), (Str ''b'', JFloat (3 / 2))])"
  by (subst canonical_json_injective)
    (simp_all add: float_repr_ok_def float_text_def number_char_def char_is_digit_def less_eq_dkey_def)

section \<open>Equality\<close>

text \<open>
  \<open>==\<close> on JSON values: numbers compare by value, \<open>True\<close> being 1, dictionaries regardless of order; a tuple is no list.
  Strings of digits are not numbers.
\<close>

fun py_norm :: "json \<Rightarrow> json"
and py_norm_list :: "json list \<Rightarrow> json list"
and py_norm_items :: "(dkey \<times> json) list \<Rightarrow> (dkey \<times> json) list" where
  "py_norm (JBool b) = JFloat (if b then 1 else 0)"
| "py_norm (JInt i) = JFloat (of_int i)"
| "py_norm (JList vs) = JList (py_norm_list vs)"
| "py_norm (JTuple vs) = JTuple (py_norm_list vs)"
| "py_norm (JDict kvs) = JDict (sort_key fst (py_norm_items kvs))"
| "py_norm (JFrozen kvs) = JDict (sort_key fst (py_norm_items kvs))"
| "py_norm v = v"
| "py_norm_list [] = []"
| "py_norm_list (v # vs) = py_norm v # py_norm_list vs"
| "py_norm_items [] = []"
| "py_norm_items ((k, v) # kvs) = (k, py_norm v) # py_norm_items kvs"

definition py_eq :: "json \<Rightarrow> json \<Rightarrow> bool" where
  "py_eq v w = (py_norm v = py_norm w)"

lemma py_eq_refl [simp]: "py_eq v v"
  by (simp add: py_eq_def)

lemma py_eq_string [simp]: "py_eq v (JStr s) \<longleftrightarrow> v = JStr s" "py_eq (JStr s) v \<longleftrightarrow> v = JStr s"
  by (cases v; auto simp: py_eq_def)+

end
