(* ===== verification/Football.thy ===== *)
theory Football
  imports Json BacktestTotal
begin

text \<open>
  The football over/under slice: the domain types and their validation (\<open>evosport/domain/time.py\<close>, \<open>evosport/domain/sports.py\<close>),
  the settlement rule (\<open>evosport/semantics/football_totals.py\<close>), the binding of a match to a market and of the market to
  catalogue rows (\<open>evosport/semantics/football_binding.py\<close>), and the settlement store that carries the outcome to the
  backtest engine (\<open>services/backtest/settlement_store.py\<close>).

  Times are instants, so conversions to UTC are the identity; a decimal is the number it denotes. What reads and prints text
  (ISO times, decimals, the \<open>repr\<close> of floats, and their form in dumped models) is the argument \<open>text_io\<close>. The tables of the database are lists of rows and
  a dictionary of settlements.
\<close>

record text_io =
  io_read_iso :: "string \<Rightarrow> (int \<times> int option) option"
  io_read_decimal :: "string \<Rightarrow> pyfloat option"
  io_show_iso :: "timestamp \<Rightarrow> string"
  io_show_decimal :: "pyfloat \<Rightarrow> string"
  io_show_float :: "pyfloat \<Rightarrow> string"
  io_dump_time :: "timestamp \<Rightarrow> string"
  io_dump_decimal :: "pyfloat \<Rightarrow> string"

section \<open>Domain types\<close>

text \<open>A time read from text is a local time with its offset; without an offset it is refused.\<close>

definition parse_utc_iso :: "text_io \<Rightarrow> json \<Rightarrow> py_error + timestamp" where
  "parse_utc_iso io v =
     (case v of
        JStr s \<Rightarrow>
          (let normalized = (if s \<noteq> [] \<and> last s = CHR ''Z'' then butlast s @ ''+00:00'' else s)
           in case io_read_iso io normalized of
                None \<Rightarrow> raise (ValueError ''must be a valid ISO 8601 timestamp'')
              | Some (local, None) \<Rightarrow> raise (ValueError ''must include a timezone offset'')
              | Some (local, Some offset) \<Rightarrow> ok (local - offset))
      | _ \<Rightarrow> raise (ValueError ''must be a valid ISO 8601 timestamp''))"

record temporal_envelope =
  tm_event :: timestamp
  tm_observed :: timestamp
  tm_ingested :: timestamp
  tm_from :: "timestamp option"
  tm_to :: "timestamp option"
  tm_revision :: "string option"
  tm_payload_hash :: "string option"

definition validate_ordering :: "temporal_envelope \<Rightarrow> py_error + temporal_envelope" where
  "validate_ordering t =
     (if tm_observed t > tm_ingested t then raise (ValueError ''observed_at cannot be after ingested_at'')
      else if (case (tm_from t, tm_to t) of (Some a, Some b) \<Rightarrow> a \<ge> b | _ \<Rightarrow> False)
        then raise (ValueError ''effective_from must be before effective_to'')
      else ok t)"

datatype event_status = Scheduled | Finished | Postponed | Cancelled | Abandoned
datatype market_type = TotalGoalsOverUnder
datatype postponed_action = VoidAction | WaitForReschedule
datatype settlement_outcome = OutcomeYes | OutcomeNo | OutcomeVoid | OutcomeUnresolved

definition outcome_value :: "settlement_outcome \<Rightarrow> string" where
  "outcome_value o' = (case o' of OutcomeYes \<Rightarrow> ''yes'' | OutcomeNo \<Rightarrow> ''no'' | OutcomeVoid \<Rightarrow> ''void'' | OutcomeUnresolved \<Rightarrow> ''unresolved'')"

definition market_type_value :: "market_type \<Rightarrow> string" where
  "market_type_value m = ''total_goals_over_under''"

record settlement_policy =
  sp_extra_time :: bool
  sp_postponed :: postponed_action
  sp_cancelled :: postponed_action
  sp_abandoned :: postponed_action

definition default_policy :: settlement_policy where
  "default_policy = \<lparr>sp_extra_time = False, sp_postponed = VoidAction, sp_cancelled = VoidAction, sp_abandoned = VoidAction\<rparr>"

record sports_event =
  ev_id :: string
  ev_sport :: string
  ev_competition :: string
  ev_season :: string
  ev_home :: string
  ev_away :: string
  ev_scheduled :: timestamp
  ev_actual :: "timestamp option"
  ev_status :: event_status
  ev_sources :: "(string, string) dict"

record sports_contract =
  ct_id :: string
  ct_event :: string
  ct_venue :: string
  ct_market :: string
  ct_yes :: string
  ct_no :: string
  ct_type :: market_type
  ct_threshold :: pyfloat
  ct_side :: string
  ct_opens :: timestamp
  ct_closes :: timestamp
  ct_rules :: string
  ct_settlement :: settlement_policy

definition validate_contract :: "sports_contract \<Rightarrow> py_error + sports_contract" where
  "validate_contract c =
     (if ct_opens c \<ge> ct_closes c then raise (ValueError ''opens_at must be before closes_at'')
      else if ct_side c \<notin> {''over'', ''under''} then raise (ValueError ''side must be over or under'')
      else if ct_threshold c \<le> 0 then raise (ValueError ''threshold must be positive'')
      else ok c)"

record match_result =
  mr_home :: int
  mr_away :: int
  mr_extra_home :: int
  mr_extra_away :: int
  mr_status :: event_status

definition validate_result :: "match_result \<Rightarrow> py_error + match_result" where
  "validate_result r =
     (if mr_home r < 0 \<or> mr_away r < 0 \<or> mr_extra_home r < 0 \<or> mr_extra_away r < 0
      then raise (ValueError ''Input should be greater than or equal to 0'') else ok r)"

section \<open>Settlement of a total\<close>

definition interrupted :: "postponed_action \<Rightarrow> settlement_outcome" where
  "interrupted a = (if a = VoidAction then OutcomeVoid else OutcomeUnresolved)"

definition goals :: "settlement_policy \<Rightarrow> match_result \<Rightarrow> int" where
  "goals p r = mr_home r + mr_away r + (if sp_extra_time p then mr_extra_home r + mr_extra_away r else 0)"

definition settle_total_goals :: "sports_contract \<Rightarrow> match_result \<Rightarrow> settlement_outcome" where
  "settle_total_goals c r =
     (case mr_status r of
        Scheduled \<Rightarrow> OutcomeUnresolved
      | Postponed \<Rightarrow> interrupted (sp_postponed (ct_settlement c))
      | Cancelled \<Rightarrow> interrupted (sp_cancelled (ct_settlement c))
      | Abandoned \<Rightarrow> interrupted (sp_abandoned (ct_settlement c))
      | Finished \<Rightarrow>
          if (if ct_side c = ''over'' then of_int (goals (ct_settlement c) r) > ct_threshold c
              else of_int (goals (ct_settlement c) r) < ct_threshold c)
          then OutcomeYes else OutcomeNo)"

section \<open>The binding\<close>

record binding =
  fb_event :: sports_event
  fb_contract :: sports_contract
  fb_result :: match_result
  fb_time :: temporal_envelope

definition match_start :: "sports_event \<Rightarrow> timestamp" where
  "match_start e = (case ev_actual e of Some t \<Rightarrow> t | None \<Rightarrow> ev_scheduled e)"

definition validate_binding :: "binding \<Rightarrow> py_error + binding" where
  "validate_binding b =
     (let e = fb_event b; c = fb_contract b; start = match_start e; t = fb_time b in
      if ev_sport e \<noteq> ''football'' then raise (ValueError ''event sport must be football'')
      else if ct_event c \<noteq> ev_id e then raise (ValueError ''contract event_id must match event'')
      else if ct_type c \<noteq> TotalGoalsOverUnder then raise (ValueError ''contract must be total goals over/under'')
      else if ct_threshold c \<noteq> 5 / 2 then raise (ValueError ''contract threshold must be exactly 2.5'')
      else if ct_side c \<noteq> ''over'' then raise (ValueError ''the football slice requires YES to mean over 2.5'')
      else if ct_closes c > start then raise (ValueError ''contract must close before or at match start'')
      else if mr_status (fb_result b) \<noteq> ev_status e then raise (ValueError ''result status must match event status'')
      else if tm_event t < ct_closes c then raise (ValueError ''result event_time must not precede market close'')
      else if tm_event t < start then raise (ValueError ''result event_time must not precede match start'')
      else if tm_event t > tm_observed t then raise (ValueError ''result event_time cannot be after observed_at'')
      else if ev_status e = Scheduled \<and> tm_event t \<le> start
        then raise (ValueError ''an unresolved scheduled event cannot carry an early final result'')
      else ok b)"

text \<open>Loading a binding validates its parts first.\<close>

definition load_binding :: "binding \<Rightarrow> py_error + binding" where
  "load_binding b =
     (case validate_contract (fb_contract b) of Inl x \<Rightarrow> raise x
      | Inr _ \<Rightarrow> (case validate_result (fb_result b) of Inl x \<Rightarrow> raise x
      | Inr _ \<Rightarrow> (case validate_ordering (fb_time b) of Inl x \<Rightarrow> raise x
      | Inr _ \<Rightarrow> validate_binding b)))"

section \<open>Catalogue rows\<close>

record dataset_row =
  pd_id :: string
  pd_provider :: "string option"
  pd_payload :: json
  pd_tokens :: "string list option"
  pd_storage :: "string option"
  pd_uri :: "string option"
  pd_start :: "timestamp option"
  pd_end :: "timestamp option"

text \<open>\<open>Decimal(str(v))\<close>, or \<open>None\<close> when it raises.\<close>

definition decimal_of :: "text_io \<Rightarrow> json \<Rightarrow> pyfloat option" where
  "decimal_of io v =
     (case v of JStr s \<Rightarrow> io_read_decimal io s | JInt i \<Rightarrow> Some (of_int i) | JFloat x \<Rightarrow> io_read_decimal io (io_show_float io x) | _ \<Rightarrow> None)"

definition expected_payload :: "binding \<Rightarrow> (string \<times> json) list" where
  "expected_payload b =
     [(''canonical'', JBool True), (''schema_version'', JStr ''snapshots_v2''), (''sport'', JStr ''football''),
      (''event_id'', JStr (ev_id (fb_event b))), (''condition_id'', JStr (ct_market (fb_contract b))),
      (''clob_token_up'', JStr (ct_yes (fb_contract b))), (''clob_token_down'', JStr (ct_no (fb_contract b))),
      (''market_type'', JStr (market_type_value (ct_type (fb_contract b))))]"

definition time_of :: "text_io \<Rightarrow> (dkey \<times> json) list \<Rightarrow> string \<Rightarrow> timestamp option" where
  "time_of io payload key = (case parse_utc_iso io (json_get payload key) of Inl _ \<Rightarrow> None | Inr t \<Rightarrow> Some t)"

definition dataset_mismatches :: "text_io \<Rightarrow> binding \<Rightarrow> dataset_row \<Rightarrow> (dkey \<times> json) list \<Rightarrow> string list" where
  "dataset_mismatches io b d payload =
     (let c = fb_contract b in
      map fst (filter (\<lambda>(k, v). \<not> py_eq (json_get payload k) v) (expected_payload b))
      @ (if decimal_of io (json_get payload ''threshold'') \<noteq> Some (ct_threshold c) then [''threshold''] else [])
      @ (if pd_provider d \<noteq> Some (ct_venue c) then [''provider''] else [])
      @ (if set (case pd_tokens d of None \<Rightarrow> [] | Some ts \<Rightarrow> ts) \<noteq> {ct_yes c, ct_no c} then [''token_ids_json''] else [])
      @ (if pd_storage d \<noteq> Some ''parquet'' then [''storage_type''] else [])
      @ (if (case pd_start d of None \<Rightarrow> True | Some t \<Rightarrow> t > ct_opens c) then [''start_ts''] else [])
      @ (if (case pd_end d of None \<Rightarrow> True | Some t \<Rightarrow> t < ct_closes c) then [''end_ts''] else [])
      @ (if time_of io payload ''market_start_time'' \<noteq> Some (ct_opens c) then [''market_start_time''] else [])
      @ (if time_of io payload ''market_end_time'' \<noteq> Some (ct_closes c) then [''market_end_time''] else []))"

definition validate_provider_dataset :: "text_io \<Rightarrow> binding \<Rightarrow> dataset_row \<Rightarrow> py_error + unit" where
  "validate_provider_dataset io b d =
     (let check = (\<lambda>payload. if dataset_mismatches io b d payload = [] then ok () else raise (ValueError ''provider dataset does not match football binding''))
      in case pd_payload d of JDict payload \<Rightarrow> check payload | JFrozen payload \<Rightarrow> check payload
         | _ \<Rightarrow> raise (ValueError ''provider dataset payload_json must be an object''))"

section \<open>Settlement records\<close>

record settlement_record =
  sr_condition :: string
  sr_slug :: "string option"
  sr_winner :: "string option"
  sr_outcome :: "string option"
  sr_tokens :: "string list"
  sr_time :: "timestamp option"
  sr_coin_start :: "pyfloat option"
  sr_coin_end :: "pyfloat option"
  sr_resolved :: bool
  sr_source :: string

definition expected_football_settlement :: "binding \<Rightarrow> settlement_record" where
  "expected_football_settlement b =
     (let c = fb_contract b; outcome = settle_total_goals c (fb_result b)
      in \<lparr>sr_condition = ct_market c, sr_slug = None,
          sr_winner = (case outcome of OutcomeYes \<Rightarrow> Some (ct_yes c) | OutcomeNo \<Rightarrow> Some (ct_no c) | _ \<Rightarrow> None),
          sr_outcome = Some (py_upper (outcome_value outcome)), sr_tokens = [ct_yes c, ct_no c], sr_time = Some (tm_observed (fb_time b)),
          sr_coin_start = None, sr_coin_end = None, sr_resolved = (outcome \<noteq> OutcomeUnresolved),
          sr_source = ''evosport:football:'' @ ct_rules c\<rparr>)"

definition json_opt :: "('a \<Rightarrow> json) \<Rightarrow> 'a option \<Rightarrow> json" where
  "json_opt f v = (case v of None \<Rightarrow> JNull | Some x \<Rightarrow> f x)"

definition document :: "(string \<times> json) list \<Rightarrow> json" where
  "document kvs = JDict (map (\<lambda>(k, v). (Str k, v)) kvs)"

definition settlement_identity :: "text_io \<Rightarrow> settlement_record \<Rightarrow> json" where
  "settlement_identity io r =
     document [(''condition_id'', JStr (sr_condition r)), (''slug'', json_opt JStr (sr_slug r)), (''winning_token_id'', json_opt JStr (sr_winner r)),
       (''winning_outcome'', json_opt JStr (sr_outcome r)), (''token_ids'', JList (map JStr (sort (sr_tokens r)))),
       (''resolution_time'', json_opt (\<lambda>t. JStr (io_show_iso io t)) (sr_time r)), (''coin_price_start'', json_opt JFloat (sr_coin_start r)),
       (''coin_price_end'', json_opt JFloat (sr_coin_end r)), (''resolved'', JBool (sr_resolved r)), (''source'', JStr (sr_source r))]"

text \<open>The store: one row per condition, written whole, read back for conditions with surrounding space removed.\<close>

type_synonym settlement_store = "(string, settlement_record) dict"

definition upsert_settlement :: "settlement_record \<Rightarrow> settlement_store \<Rightarrow> settlement_store" where
  "upsert_settlement r store = dict_set store (sr_condition r) r"

definition get_settlement_records :: "string list \<Rightarrow> settlement_store \<Rightarrow> (string, settlement_record) dict" where
  "get_settlement_records ids store =
     (let wanted = map py_strip (filter (\<lambda>c. c \<noteq> []) ids) in filter (\<lambda>(k, r). k \<in> set wanted) store)"

definition store_football_settlement :: "binding \<Rightarrow> settlement_store \<Rightarrow> settlement_record \<times> settlement_store" where
  "store_football_settlement b store = (let r = expected_football_settlement b in (r, upsert_settlement r store))"

record token_meta =
  mt_token :: string
  mt_condition :: "string option"
  mt_slug :: "string option"
  mt_time :: "timestamp option"

text \<open>Truth of an optional text: \<open>None\<close> and the empty text are false.\<close>

definition text_or :: "string option \<Rightarrow> string \<Rightarrow> string" where
  "text_or v d = (case v of None \<Rightarrow> d | Some s \<Rightarrow> if s = [] then d else s)"

definition time_or :: "timestamp option \<Rightarrow> timestamp option \<Rightarrow> timestamp option" where
  "time_or a b = (case a of None \<Rightarrow> b | Some t \<Rightarrow> Some t)"

text \<open>One token: \<open>None\<close> when the token is left out of the map.\<close>

definition token_settlement_of :: "(string, settlement_record) dict \<Rightarrow> token_meta \<Rightarrow> token_settlement option" where
  "token_settlement_of records m =
     (let cond = py_strip (text_or (mt_condition m) []) in
      case (if cond = [] then None else dict_get records cond) of
        None \<Rightarrow> None
      | Some r \<Rightarrow>
          (let res_time = time_or (sr_time r) (mt_time m);
               foreign = (sr_tokens r \<noteq> [] \<and> mt_token m \<notin> set (sr_tokens r));
               settled = (\<lambda>p. Some \<lparr>ts_token = mt_token m, ts_settle_price = p, ts_resolution_time = res_time,
                   ts_winning_outcome = sr_outcome r, ts_condition_id = Some cond, ts_source = sr_source r\<rparr>)
           in if sr_resolved r \<and> py_upper (py_strip (text_or (sr_outcome r) [])) = ''VOID'' then (if foreign then None else settled (Some (1 / 2)))
              else if sr_resolved r \<and> text_or (sr_winner r) [] \<noteq> [] then
                (if foreign then None else settled (Some (if Some (mt_token m) = sr_winner r then 1 else 0)))
              else if res_time = None then None else settled None))"

definition build_token_settlements :: "token_meta list \<Rightarrow> (string, settlement_record) dict \<Rightarrow> (string, token_settlement) dict" where
  "build_token_settlements metas records =
     foldl (\<lambda>out m. case token_settlement_of records m of None \<Rightarrow> out | Some s \<Rightarrow> dict_set out (mt_token m) s) [] metas"

section \<open>Filling the store\<close>

record resolve_hint =
  mh_condition :: string
  mh_slug :: "string option"
  mh_tokens :: "string list"
  mh_up :: "string option"
  mh_down :: "string option"
  mh_outcomes :: "(string, string) dict"
  mh_time :: "timestamp option"

record resolution =
  rs_winner :: "string option"
  rs_coin_start :: "pyfloat option"
  rs_coin_end :: "pyfloat option"
  rs_source :: "string option"

text \<open>The label of the winning outcome is translated into the winning token.\<close>

definition label_of :: "string \<Rightarrow> string" where
  "label_of s = py_upper (py_strip s)"

definition winning_token_from_resolution :: "resolve_hint \<Rightarrow> resolution \<Rightarrow> string option \<times> string option" where
  "winning_token_from_resolution h m =
     (let w = label_of (text_or (rs_winner m) []) in
      if w = [] then (None, None)
      else if w = ''UP'' \<and> text_or (mh_up h) [] \<noteq> [] then (mh_up h, rs_winner m)
      else if w = ''DOWN'' \<and> text_or (mh_down h) [] \<noteq> [] then (mh_down h, rs_winner m)
      else (map_option fst (find (\<lambda>(t, l). label_of l = w) (mh_outcomes h)), rs_winner m))"

definition resolution_for :: "(string, resolution) dict \<Rightarrow> resolve_hint \<Rightarrow> resolution option" where
  "resolution_for res h =
     (case dict_get res (text_or (mh_slug h) []) of Some m \<Rightarrow> Some m | None \<Rightarrow> dict_get res (mh_condition h))"

definition resolved_record :: "(string, resolution) dict \<Rightarrow> resolve_hint \<Rightarrow> settlement_record" where
  "resolved_record res h =
     (let m = resolution_for res h;
          (tok, lab) = (case m of None \<Rightarrow> (None, None) | Some x \<Rightarrow> winning_token_from_resolution h x)
      in \<lparr>sr_condition = mh_condition h, sr_slug = mh_slug h, sr_winner = tok, sr_outcome = lab, sr_tokens = mh_tokens h, sr_time = mh_time h,
          sr_coin_start = (case m of None \<Rightarrow> None | Some x \<Rightarrow> rs_coin_start x), sr_coin_end = (case m of None \<Rightarrow> None | Some x \<Rightarrow> rs_coin_end x),
          sr_resolved = (tok \<noteq> None), sr_source = (case m of None \<Rightarrow> [] | Some x \<Rightarrow> text_or (rs_source x) ''resolver'')\<rparr>)"

text \<open>
  The resolver is an argument: it maps slugs or conditions to resolutions, or raises, which counts as no resolution. A write
  that fails leaves the store as it was; \<open>writes\<close> tells which succeed.
\<close>

type_synonym resolver = "(string option \<times> string) list \<Rightarrow> py_error + (string, resolution) dict"

definition resolve_step ::
    "(string, resolution) dict \<Rightarrow> (settlement_record \<Rightarrow> bool) \<Rightarrow> (string, settlement_record) dict \<times> settlement_store \<Rightarrow> resolve_hint
     \<Rightarrow> (string, settlement_record) dict \<times> settlement_store" where
  "resolve_step res writes acc h =
     (let r = resolved_record res h in
      (dict_set (fst acc) (mh_condition h) r, if sr_resolved r \<and> writes r then upsert_settlement r (snd acc) else snd acc))"

definition resolve_and_store ::
    "resolver \<Rightarrow> (settlement_record \<Rightarrow> bool) \<Rightarrow> resolve_hint list \<Rightarrow> settlement_store \<Rightarrow> (string, settlement_record) dict \<times> settlement_store" where
  "resolve_and_store resolve writes hints store =
     (let trades = map (\<lambda>h. (mh_slug h, mh_condition h)) (filter (\<lambda>h. text_or (mh_slug h) (mh_condition h) \<noteq> []) hints);
          res = (case resolve trades of Inl e \<Rightarrow> [] | Inr m \<Rightarrow> m)
      in foldl (resolve_step res writes) ([], store) hints)"

definition populate_settlements ::
    "resolver \<Rightarrow> (settlement_record \<Rightarrow> bool) \<Rightarrow> resolve_hint list \<Rightarrow> settlement_store \<Rightarrow> (string, settlement_record) dict \<times> settlement_store" where
  "populate_settlements resolve writes hints store = (if hints = [] then ([], store) else resolve_and_store resolve writes hints store)"

definition unresolved_hints :: "token_meta list \<Rightarrow> (string, settlement_record) dict \<Rightarrow> resolve_hint list \<Rightarrow> resolve_hint list" where
  "unresolved_hints metas records hints =
     filter (\<lambda>h. Some (mh_condition h) \<in> set (map mt_condition metas) \<and> mh_condition h \<noteq> [] \<and>
       (case dict_get records (mh_condition h) of None \<Rightarrow> True | Some r \<Rightarrow> \<not> sr_resolved r)) hints"

definition load_token_settlements ::
    "resolver \<Rightarrow> (settlement_record \<Rightarrow> bool) \<Rightarrow> token_meta list \<Rightarrow> resolve_hint list option \<Rightarrow> bool \<Rightarrow> settlement_store
     \<Rightarrow> (string, token_settlement) dict \<times> settlement_store" where
  "load_token_settlements resolve writes metas hints allow_network store =
     (let ids = List.map_filter mt_condition metas; records = get_settlement_records ids store;
          missing = (case hints of None \<Rightarrow> [] | Some hs \<Rightarrow> unresolved_hints metas records hs)
      in if allow_network \<and> missing \<noteq> [] then
           (case resolve_and_store resolve writes missing store of
              (found, store') \<Rightarrow> (build_token_settlements metas (foldl (\<lambda>d (k, r). dict_set d k r) records found), store'))
         else (build_token_settlements metas records, store))"

section \<open>Identities compared before and after a run\<close>

definition py_capitalize :: "string \<Rightarrow> string" where
  "py_capitalize s = (case s of [] \<Rightarrow> [] | c # cs \<Rightarrow> char_upper c # py_lower cs)"

definition frozen_projected_market_identity :: "text_io \<Rightarrow> binding \<Rightarrow> json" where
  "frozen_projected_market_identity io b =
     (let c = fb_contract b; e = fb_event b in
      document [(''market_id'', JStr (ct_market c)), (''condition_id'', JStr (ct_market c)), (''slug'', JStr (ct_id c)),
        (''title'', JStr (ev_home e @ '' v '' @ ev_away e @ '': '' @ py_capitalize (ct_side c) @ '' '' @ io_show_decimal io (ct_threshold c) @ '' total goals'')),
        (''coin'', JNull), (''timeframe'', JStr (market_type_value (ct_type c))), (''market_start'', JStr (io_show_iso io (ct_opens c))),
        (''market_close'', JStr (io_show_iso io (ct_closes c))), (''yes_token_id'', JStr (ct_yes c)), (''no_token_id'', JStr (ct_no c)),
        (''price_to_beat'', JNull)])"

definition payload_items :: "json \<Rightarrow> (dkey \<times> json) list" where
  "payload_items v = (case v of JDict kvs \<Rightarrow> kvs | JFrozen kvs \<Rightarrow> kvs | _ \<Rightarrow> [])"

definition time_text :: "text_io \<Rightarrow> timestamp option \<Rightarrow> json" where
  "time_text io t = json_opt (\<lambda>t. JStr (io_show_iso io t)) t"

definition dataset_identity :: "text_io \<Rightarrow> dataset_row \<Rightarrow> json" where
  "dataset_identity io d =
     (let p = payload_items (pd_payload d) in
      document [(''provider_dataset_id'', JStr (pd_id d)), (''provider'', json_opt JStr (pd_provider d)), (''canonical'', json_get p ''canonical''),
        (''schema_version'', json_get p ''schema_version''), (''sport'', json_get p ''sport''), (''event_id'', json_get p ''event_id''),
        (''condition_id'', json_get p ''condition_id''), (''yes_token_id'', json_get p ''clob_token_up''), (''no_token_id'', json_get p ''clob_token_down''),
        (''market_type'', json_get p ''market_type''), (''threshold'', json_opt (\<lambda>x. JStr (io_show_decimal io x)) (decimal_of io (json_get p ''threshold''))),
        (''token_ids'', JList (map JStr (sort (case pd_tokens d of None \<Rightarrow> [] | Some ts \<Rightarrow> ts)))), (''storage_type'', json_opt JStr (pd_storage d)),
        (''row_start'', time_text io (pd_start d)), (''row_end'', time_text io (pd_end d)),
        (''market_start'', time_text io (time_of io p ''market_start_time'')), (''market_end'', time_text io (time_of io p ''market_end_time''))])"

definition selected_ids :: "string list \<Rightarrow> string list" where
  "selected_ids ids = sort (remdups (filter (\<lambda>i. i \<noteq> []) ids))"

fun validate_all :: "text_io \<Rightarrow> binding \<Rightarrow> dataset_row list \<Rightarrow> py_error + json list" where
  "validate_all io b [] = ok []"
| "validate_all io b (d # ds) =
     (case validate_provider_dataset io b d of Inl e \<Rightarrow> raise e
      | Inr _ \<Rightarrow> (case validate_all io b ds of Inl e \<Rightarrow> raise e | Inr js \<Rightarrow> ok (dataset_identity io d # js)))"

definition load_current_football_identity ::
    "text_io \<Rightarrow> binding \<Rightarrow> string list \<Rightarrow> dataset_row list \<Rightarrow> settlement_store \<Rightarrow> py_error + json" where
  "load_current_football_identity io b ids rows store =
     (let sel = selected_ids ids in
      if sel = [] then raise (ValueError ''provider_dataset_ids cannot be empty'')
      else
        (let found = filter (\<lambda>d. pd_id d \<in> set sel) rows; by_id = foldl (\<lambda>m d. dict_set m (pd_id d) d) [] found in
         if fst ` set by_id \<noteq> set sel then raise (ValueError ''current football catalog IDs do not match manifest'')
         else
           (case validate_all io b (List.map_filter (dict_get by_id) sel) of Inl e \<Rightarrow> raise e
            | Inr datasets \<Rightarrow>
                (let expected = expected_football_settlement b in
                 case dict_get (get_settlement_records [sr_condition expected] store) (sr_condition expected) of
                   None \<Rightarrow> raise (ValueError ''current football settlement is missing'')
                 | Some actual \<Rightarrow>
                     if \<not> py_eq (settlement_identity io actual) (settlement_identity io expected)
                     then raise (ValueError ''current football settlement does not match frozen binding'')
                     else ok (document [(''provider_dataset_ids'', JList (map JStr sel)), (''provider_datasets'', JList datasets),
                            (''settlement'', settlement_identity io actual)])))))"

definition token_evidence :: "text_io \<Rightarrow> string \<times> token_settlement \<Rightarrow> json" where
  "token_evidence io p =
     (case p of (t, s) \<Rightarrow>
        document [(''token_id'', JStr t), (''condition_id'', json_opt JStr (ts_condition_id s)), (''settlement_price'', json_opt JFloat (ts_settle_price s)),
          (''winning_outcome'', json_opt JStr (ts_winning_outcome s)), (''resolution_time'', time_text io (ts_resolution_time s)),
          (''source'', JStr (ts_source s))])"

definition football_metas :: "binding \<Rightarrow> token_meta list" where
  "football_metas b =
     (let c = fb_contract b; meta = (\<lambda>t. \<lparr>mt_token = t, mt_condition = Some (ct_market c), mt_slug = None, mt_time = None\<rparr>)
      in [meta (ct_yes c), meta (ct_no c)])"

definition football_settlements :: "binding \<Rightarrow> (string, token_settlement) dict" where
  "football_settlements b =
     build_token_settlements (football_metas b) [(ct_market (fb_contract b), expected_football_settlement b)]"

definition expected_evidence :: "text_io \<Rightarrow> binding \<Rightarrow> string list \<Rightarrow> json" where
  "expected_evidence io b ids =
     document [(''provider_dataset_ids'', JList (map JStr (selected_ids ids))), (''markets'', JList [frozen_projected_market_identity io b]),
       (''token_settlements'', JList (map (token_evidence io) (sort_key fst (football_settlements b))))]"

definition validate_effective_football_evidence :: "text_io \<Rightarrow> binding \<Rightarrow> string list \<Rightarrow> json \<Rightarrow> json \<Rightarrow> py_error + unit" where
  "validate_effective_football_evidence io b ids current evidence =
     (if \<not> py_eq (json_get (payload_items current) ''provider_dataset_ids'') (JList (map JStr (selected_ids ids)))
        then raise (ValueError ''current football catalog IDs do not match frozen manifest'')
      else if \<not> py_eq (json_get (payload_items current) ''settlement'') (settlement_identity io (expected_football_settlement b))
        then raise (ValueError ''current football settlement does not match frozen binding'')
      else if \<not> py_eq evidence (expected_evidence io b ids)
        then raise (ValueError ''effective football semantics do not match frozen/current identity'')
      else ok ())"

section \<open>What a share redeems for\<close>

lemma build_settlements_get:
  "dict_get (foldl (\<lambda>out m. case token_settlement_of records m of None \<Rightarrow> out | Some s \<Rightarrow> dict_set out (mt_token m) s) acc metas) t = Some s \<Longrightarrow>
   dict_get acc t = Some s \<or> (\<exists>m\<in>set metas. mt_token m = t \<and> token_settlement_of records m = Some s)"
proof (induction metas arbitrary: acc)
  case (Cons m metas)
  then show ?case by (cases "token_settlement_of records m") (force split: if_splits)+
qed simp

lemma token_settlement_facts:
  assumes "token_settlement_of records m = Some s"
  obtains r where "dict_get records (py_strip (text_or (mt_condition m) [])) = Some r" "ts_token s = mt_token m"
    "ts_condition_id s = Some (py_strip (text_or (mt_condition m) []))"
    "ts_settle_price s \<noteq> None \<Longrightarrow> sr_resolved r \<and> (sr_tokens r = [] \<or> mt_token m \<in> set (sr_tokens r))"
    "ts_settle_price s \<in> {None, Some 0, Some (1 / 2), Some 1}"
    "ts_settle_price s = Some 1 \<Longrightarrow> sr_winner r = Some (mt_token m)"
    "ts_resolution_time s = time_or (sr_time r) (mt_time m)"
  using assms by (auto simp: token_settlement_of_def Let_def split: option.splits if_splits)

text \<open>
  C18: Redemption values are 0, one half or 1 and come from a resolved record of the token's own market, which lists the token;
  at most one token of a market redeems at 1.
\<close>

theorem settlement_prices_sound:
  assumes "dict_get (build_token_settlements metas records) t = Some s" "dict_get (build_token_settlements metas records) u = Some v"
  shows "ts_token s = t \<and> ts_settle_price s \<in> {None, Some 0, Some (1 / 2), Some 1} \<and>
    (ts_settle_price s = None \<or> (\<exists>c r. ts_condition_id s = Some c \<and> dict_get records c = Some r \<and> sr_resolved r \<and> (sr_tokens r = [] \<or> t \<in> set (sr_tokens r)))) \<and>
    (ts_condition_id s \<noteq> ts_condition_id v \<or> ts_settle_price s \<noteq> Some 1 \<or> ts_settle_price v \<noteq> Some 1 \<or> t = u)"
proof -
  obtain m where m: "mt_token m = t" "token_settlement_of records m = Some s"
    using build_settlements_get[of records "[]" metas t s] assms(1) by (auto simp: build_token_settlements_def)
  obtain n where n: "mt_token n = u" "token_settlement_of records n = Some v"
    using build_settlements_get[of records "[]" metas u v] assms(2) by (auto simp: build_token_settlements_def)
  obtain r where r: "dict_get records (py_strip (text_or (mt_condition m) [])) = Some r" "ts_token s = mt_token m"
    "ts_condition_id s = Some (py_strip (text_or (mt_condition m) []))"
    "ts_settle_price s \<noteq> None \<Longrightarrow> sr_resolved r \<and> (sr_tokens r = [] \<or> mt_token m \<in> set (sr_tokens r))"
    "ts_settle_price s \<in> {None, Some 0, Some (1 / 2), Some 1}" "ts_settle_price s = Some 1 \<Longrightarrow> sr_winner r = Some (mt_token m)"
    using m(2) by (rule token_settlement_facts) blast
  obtain q where q: "dict_get records (py_strip (text_or (mt_condition n) [])) = Some q"
    "ts_condition_id v = Some (py_strip (text_or (mt_condition n) []))" "ts_settle_price v = Some 1 \<Longrightarrow> sr_winner q = Some (mt_token n)"
    using n(2) by (rule token_settlement_facts) blast
  show ?thesis using m n r q by auto
qed

definition redemption :: "binding \<Rightarrow> pyfloat option \<times> pyfloat option" where
  "redemption b =
     (let p = ct_settlement (fb_contract b); off = (\<lambda>a. if a = VoidAction then (Some (1 / 2), Some (1 / 2)) else (None, None)) in
      case mr_status (fb_result b) of
        Finished \<Rightarrow> if 3 \<le> goals p (fb_result b) then (Some 1, Some 0) else (Some 0, Some 1)
      | Postponed \<Rightarrow> off (sp_postponed p) | Cancelled \<Rightarrow> off (sp_cancelled p) | Abandoned \<Rightarrow> off (sp_abandoned p) | Scheduled \<Rightarrow> (None, None))"

definition market_named :: "binding \<Rightarrow> bool" where
  "market_named b =
     (let c = fb_contract b in py_strip (ct_market c) = ct_market c \<and> ct_market c \<noteq> [] \<and> ct_yes c \<noteq> [] \<and> ct_no c \<noteq> [] \<and> ct_yes c \<noteq> ct_no c)"

lemma validate_binding_facts:
  assumes "validate_binding b = Inr b'"
  shows "b' = b \<and> ct_threshold (fb_contract b) = 5 / 2 \<and> ct_side (fb_contract b) = ''over'' \<and> ct_closes (fb_contract b) \<le> match_start (fb_event b) \<and>
    match_start (fb_event b) \<le> tm_event (fb_time b) \<and> tm_event (fb_time b) \<le> tm_observed (fb_time b) \<and>
    mr_status (fb_result b) = ev_status (fb_event b) \<and> ct_event (fb_contract b) = ev_id (fb_event b)"
  using assms unfolding validate_binding_def Let_def raise_unless not_less by blast

lemma load_binding_steps:
  assumes "load_binding b = Inr b'"
  shows "validate_binding b = Inr b'" "ct_opens (fb_contract b) < ct_closes (fb_contract b)" "tm_observed (fb_time b) \<le> tm_ingested (fb_time b)"
proof -
  obtain c r t where p: "validate_contract (fb_contract b) = Inr c" "validate_result (fb_result b) = Inr r" "validate_ordering (fb_time b) = Inr t"
      "validate_binding b = Inr b'"
    using assms by (auto simp: load_binding_def split: sum.splits)
  show "validate_binding b = Inr b'" by (rule p(4))
  show "ct_opens (fb_contract b) < ct_closes (fb_contract b)" using p(1) by (simp add: validate_contract_def split: if_split_asm)
  show "tm_observed (fb_time b) \<le> tm_ingested (fb_time b)" using p(3) by (simp add: validate_ordering_def split: if_split_asm)
qed

lemmas load_binding_facts = validate_binding_facts[OF load_binding_steps(1)] load_binding_steps(2,3)

lemma over_two_and_a_half: "of_int g > (5 / 2 :: real) \<longleftrightarrow> 3 \<le> (g :: int)"
  by linarith

lemma outcome_upper: "py_upper (outcome_value o') =
    (case o' of OutcomeYes \<Rightarrow> ''YES'' | OutcomeNo \<Rightarrow> ''NO'' | OutcomeVoid \<Rightarrow> ''VOID'' | OutcomeUnresolved \<Rightarrow> ''UNRESOLVED'')"
  by (cases o') (simp_all add: outcome_value_def py_upper_def char_upper_def char_of_def bit_0)

lemma outcome_labels: "py_upper (py_strip (py_upper (outcome_value o'))) = ''VOID'' \<longleftrightarrow> o' = OutcomeVoid"
  "py_upper (outcome_value o') \<noteq> []"
  by (cases o'; simp add: outcome_upper py_strip_def char_is_space_def; simp add: py_upper_def char_upper_def)+

lemma football_values:
  assumes "load_binding b = Inr b" "market_named b"
  shows "\<exists>y n. football_settlements b = [(ct_yes (fb_contract b), y), (ct_no (fb_contract b), n)] \<and>
    (ts_settle_price y, ts_settle_price n) = redemption b \<and> ts_resolution_time y = Some (tm_observed (fb_time b)) \<and>
    ts_resolution_time n = Some (tm_observed (fb_time b)) \<and> match_start (fb_event b) \<le> tm_observed (fb_time b) \<and>
    ct_closes (fb_contract b) \<le> tm_observed (fb_time b)"
proof -
  let ?c = "fb_contract b" and ?r = "expected_football_settlement b"
  note f = load_binding_facts(1)[OF assms(1)]
  note named = assms(2)[unfolded market_named_def Let_def]
  have get: "dict_get [(ct_market ?c, ?r)] (ct_market ?c) = Some ?r" by (simp add: dict_get_def)
  have rec: "sr_tokens ?r = [ct_yes ?c, ct_no ?c]" "sr_time ?r = Some (tm_observed (fb_time b))"
    "sr_outcome ?r = Some (py_upper (outcome_value (settle_total_goals ?c (fb_result b))))"
    "sr_winner ?r = (case settle_total_goals ?c (fb_result b) of OutcomeYes \<Rightarrow> Some (ct_yes ?c) | OutcomeNo \<Rightarrow> Some (ct_no ?c) | _ \<Rightarrow> None)"
    "sr_resolved ?r = (settle_total_goals ?c (fb_result b) \<noteq> OutcomeUnresolved)"
    by (simp_all add: expected_football_settlement_def Let_def)
  have tok: "\<exists>s. token_settlement_of [(ct_market ?c, ?r)] \<lparr>mt_token = t, mt_condition = Some (ct_market ?c), mt_slug = None, mt_time = None\<rparr> = Some s \<and>
      ts_resolution_time s = Some (tm_observed (fb_time b)) \<and>
      ts_settle_price s = (case settle_total_goals ?c (fb_result b) of OutcomeYes \<Rightarrow> Some (if t = ct_yes ?c then 1 else 0)
        | OutcomeNo \<Rightarrow> Some (if t = ct_no ?c then 1 else 0) | OutcomeVoid \<Rightarrow> Some (1 / 2) | OutcomeUnresolved \<Rightarrow> None)"
    if "t \<in> {ct_yes ?c, ct_no ?c}" for t
    using that named outcome_labels[of "settle_total_goals ?c (fb_result b)"]
    by (cases "settle_total_goals ?c (fb_result b)") (auto simp: token_settlement_of_def get rec text_or_def time_or_def Let_def)
  obtain y n where yn: "token_settlement_of [(ct_market ?c, ?r)] \<lparr>mt_token = ct_yes ?c, mt_condition = Some (ct_market ?c), mt_slug = None, mt_time = None\<rparr> = Some y"
      "token_settlement_of [(ct_market ?c, ?r)] \<lparr>mt_token = ct_no ?c, mt_condition = Some (ct_market ?c), mt_slug = None, mt_time = None\<rparr> = Some n"
      "ts_resolution_time y = Some (tm_observed (fb_time b))" "ts_resolution_time n = Some (tm_observed (fb_time b))"
      "ts_settle_price y = (case settle_total_goals ?c (fb_result b) of OutcomeYes \<Rightarrow> Some 1 | OutcomeNo \<Rightarrow> Some 0 | OutcomeVoid \<Rightarrow> Some (1 / 2) | OutcomeUnresolved \<Rightarrow> None)"
      "ts_settle_price n = (case settle_total_goals ?c (fb_result b) of OutcomeYes \<Rightarrow> Some 0 | OutcomeNo \<Rightarrow> Some 1 | OutcomeVoid \<Rightarrow> Some (1 / 2) | OutcomeUnresolved \<Rightarrow> None)"
    using tok[of "ct_yes ?c"] tok[of "ct_no ?c"] named by (auto split: settlement_outcome.splits)
  have "football_settlements b = [(ct_yes ?c, y), (ct_no ?c, n)]"
    using yn(1,2) named by (simp add: football_settlements_def football_metas_def build_token_settlements_def Let_def dict_set_def)
  moreover have "(ts_settle_price y, ts_settle_price n) = redemption b"
    using yn(5,6) f by (auto simp: redemption_def settle_total_goals_def interrupted_def over_two_and_a_half Let_def split: event_status.splits)
  ultimately show ?thesis using yn(3,4) f by auto
qed

text \<open>
  C16: The two tokens of an accepted binding redeem as the match ended: over 2.5 pays the YES token 1 and the NO token nothing
  when three or more goals count, the reverse otherwise, one half each when the event is voided, and nothing is redeemed while it
  is open. The redemption time is never before the market closed or the match started.
\<close>

theorem football_redemption:
  assumes "load_binding b = Inr b" "market_named b"
  shows "\<exists>y n. football_settlements b = [(ct_yes (fb_contract b), y), (ct_no (fb_contract b), n)] \<and>
    (ts_settle_price y, ts_settle_price n) = redemption b \<and> ts_resolution_time y = Some (tm_observed (fb_time b)) \<and>
    ts_resolution_time n = Some (tm_observed (fb_time b)) \<and> match_start (fb_event b) \<le> tm_observed (fb_time b) \<and>
    ct_closes (fb_contract b) \<le> tm_observed (fb_time b)"
  using assms by (rule football_values)

definition sample_binding :: binding where
  "sample_binding =
     \<lparr>fb_event = \<lparr>ev_id = ''e'', ev_sport = ''football'', ev_competition = ''c'', ev_season = ''s'', ev_home = ''A'', ev_away = ''B'', ev_scheduled = 20,
        ev_actual = None, ev_status = Finished, ev_sources = []\<rparr>,
      fb_contract = \<lparr>ct_id = ''k'', ct_event = ''e'', ct_venue = ''v'', ct_market = ''m'', ct_yes = ''y'', ct_no = ''n'', ct_type = TotalGoalsOverUnder,
        ct_threshold = 5 / 2, ct_side = ''over'', ct_opens = 10, ct_closes = 20, ct_rules = ''r'', ct_settlement = default_policy\<rparr>,
      fb_result = \<lparr>mr_home = 2, mr_away = 1, mr_extra_home = 0, mr_extra_away = 0, mr_status = Finished\<rparr>,
      fb_time = \<lparr>tm_event = 30, tm_observed = 31, tm_ingested = 32, tm_from = None, tm_to = None, tm_revision = None, tm_payload_hash = None\<rparr>\<rparr>"

lemma sample_binding_ok: "load_binding sample_binding = Inr sample_binding" "market_named sample_binding"
  by (simp_all add: sample_binding_def load_binding_def validate_contract_def validate_result_def validate_ordering_def validate_binding_def
      match_start_def market_named_def py_strip_def char_is_space_def)

lemma sample_binding_simps: "ct_yes (fb_contract sample_binding) = ''y''" "ct_no (fb_contract sample_binding) = ''n''" "ct_market (fb_contract sample_binding) = ''m''"
    "ct_closes (fb_contract sample_binding) = 20" "redemption sample_binding = (Some 1, Some 0)"
  by (simp_all add: sample_binding_def redemption_def goals_def default_policy_def)

theorem football_redemption_witness:
  "\<exists>y n. football_settlements sample_binding = [(''y'', y), (''n'', n)] \<and> ts_settle_price y = Some 1 \<and> ts_settle_price n = Some 0"
  using football_redemption[OF sample_binding_ok] unfolding sample_binding_simps by auto

theorem settlement_prices_sound_witness:
  "ts_settle_price (the (dict_get (football_settlements sample_binding) ''y'')) \<in> {None, Some 0, Some (1 / 2), Some 1}"
proof -
  obtain y n where "football_settlements sample_binding = [(''y'', y), (''n'', n)]"
    using football_values[OF sample_binding_ok] unfolding sample_binding_simps by blast
  then have "dict_get (football_settlements sample_binding) ''y'' = Some y" by (simp add: dict_get_def)
  then show ?thesis using settlement_prices_sound[of "football_metas sample_binding" _ "''y''" y "''y''" y] by (simp add: football_settlements_def)
qed

section \<open>No look-ahead in the engine\<close>

lemma schedule_after_close:
  assumes "load_binding b = Inr b" "market_named b" "bc_settlements cfg = football_settlements b" "(t, tok) \<in> set (resolution_schedule cfg)"
  shows "ct_closes (fb_contract b) \<le> t"
  using assms(3,4) football_values[OF assms(1,2)] 
  by (auto simp: resolution_schedule_def List.map_filter_def split: option.splits)


definition sample_football_config :: "unit backtest_config" where
  "sample_football_config = sample_backtest_config\<lparr>bc_settlements := football_settlements sample_binding\<rparr>"


section \<open>The store and the current identity\<close>

lemma get_records_get: "dict_get (get_settlement_records ids store) c = (if c \<in> set (map py_strip (filter (\<lambda>c. c \<noteq> []) ids)) then dict_get store c else None)"
  by (induction store) (auto simp: get_settlement_records_def dict_get_def Let_def)

lemma selected_ids_set: "set (selected_ids ids) = set ids - {[]}" "distinct (selected_ids ids)"
  by (auto simp: selected_ids_def)

text \<open>The catalogue rows of a selection: every selected id has a row and every such row fits the binding.\<close>

definition rows_fit :: "text_io \<Rightarrow> binding \<Rightarrow> string list \<Rightarrow> dataset_row list \<Rightarrow> bool" where
  "rows_fit io b ids rows =
     (selected_ids ids \<noteq> [] \<and> set (selected_ids ids) \<subseteq> pd_id ` set rows \<and>
      list_all (\<lambda>d. pd_id d \<in> set (selected_ids ids) \<longrightarrow> validate_provider_dataset io b d = Inr ()) rows)"

lemma rows_by_id: "dict_get (foldl (\<lambda>m d. dict_set m (pd_id d) d) acc found) i = Some d \<Longrightarrow> dict_get acc i = Some d \<or> d \<in> set found \<and> pd_id d = i"
  "fst ` set (foldl (\<lambda>m d. dict_set m (pd_id d) d) acc found) = fst ` set acc \<union> pd_id ` set found"
proof (induction found arbitrary: acc)
  case (Cons x found)
  { case 1 then show ?case using Cons.IH(1)[of "dict_set acc (pd_id x) x"] by (auto split: if_splits) }
  { case 2 then show ?case using Cons.IH(2)[of "dict_set acc (pd_id x) x"] by (simp add: dict_set_keys) }
qed auto

lemma validate_all_ok: "\<forall>d\<in>set ds. validate_provider_dataset io b d = Inr () \<Longrightarrow> validate_all io b ds = Inr (map (dataset_identity io) ds)"
  by (induction ds) auto

lemma validate_all_sound: "validate_all io b ds = Inr js \<Longrightarrow> \<forall>d\<in>set ds. validate_provider_dataset io b d = Inr ()"
  by (induction ds arbitrary: js) (auto split: sum.splits)

lemma stored_loads:
  assumes "market_named b" "rows_fit io b ids rows"
  shows "\<exists>doc. load_current_football_identity io b ids rows (snd (store_football_settlement b store)) = Inr doc \<and>
    validate_effective_football_evidence io b ids doc (expected_evidence io b ids) = Inr ()"
proof -
  let ?sel = "selected_ids ids" and ?r = "expected_football_settlement b"
  let ?found = "filter (\<lambda>d. pd_id d \<in> set ?sel) rows"
  let ?by = "foldl (\<lambda>m d. dict_set m (pd_id d) d) [] ?found"
  have keys: "fst ` set ?by = set ?sel" using rows_by_id(2)[of "[]" ?found] assms(2) by (auto simp: rows_fit_def)
  have "validate_provider_dataset io b d = Inr ()" if row: "d \<in> set (List.map_filter (dict_get ?by) ?sel)" for d
  proof -
    obtain i where "dict_get ?by i = Some d" using row by (auto simp: List.map_filter_def)
    then have "d \<in> set ?found" using rows_by_id(1)[of "[]" ?found i d] by auto
    then show ?thesis using assms(2) by (simp add: rows_fit_def list_all_iff)
  qed
  then obtain js where js: "validate_all io b (List.map_filter (dict_get ?by) ?sel) = Inr js" using validate_all_ok by blast
  have c: "sr_condition ?r = ct_market (fb_contract b)" by (simp add: expected_football_settlement_def Let_def)
  have "dict_get (get_settlement_records [sr_condition ?r] (snd (store_football_settlement b store))) (sr_condition ?r) = Some ?r"
    using assms(1) by (simp add: get_records_get c store_football_settlement_def upsert_settlement_def market_named_def Let_def)
  then show ?thesis using assms(2) keys js
    by (simp add: load_current_football_identity_def rows_fit_def Let_def validate_effective_football_evidence_def document_def payload_items_def json_get_def
        dict_get_def)
qed


text \<open>
  C20: The current identity loads only from a catalogue in which every selected row fits the binding (its tokens, its market and a
  span that covers the trading window), and from a store that holds a settlement of the market with the frozen identity.
\<close>

theorem football_identity_sound:
  assumes "load_current_football_identity io b ids rows store = Inr doc"
  shows "(\<exists>r. dict_get store (ct_market (fb_contract b)) = Some r \<and>
      py_eq (settlement_identity io r) (settlement_identity io (expected_football_settlement b))) \<and>
    {i \<in> set ids. i \<noteq> []} \<subseteq> {i. \<exists>d. d \<in> set rows \<and> pd_id d = i \<and> validate_provider_dataset io b d = Inr ()}"
proof -
  let ?sel = "selected_ids ids" and ?r = "expected_football_settlement b"
  let ?found = "filter (\<lambda>d. pd_id d \<in> set ?sel) rows"
  let ?by = "foldl (\<lambda>m d. dict_set m (pd_id d) d) [] ?found"
  note a = assms[unfolded load_current_football_identity_def Let_def raise_unless not_not]
  obtain js where js: "validate_all io b (List.map_filter (dict_get ?by) ?sel) = Inr js" using a by (auto split: sum.splits)
  have c: "sr_condition ?r = ct_market (fb_contract b)" by (simp add: expected_football_settlement_def Let_def)
  have "\<exists>r. dict_get (get_settlement_records [sr_condition ?r] store) (sr_condition ?r) = Some r \<and> py_eq (settlement_identity io r) (settlement_identity io ?r)"
    using a js by (auto split: option.splits if_splits)
  moreover have "\<exists>d. d \<in> set rows \<and> pd_id d = i \<and> validate_provider_dataset io b d = Inr ()" if i: "i \<in> set ids" "i \<noteq> []" for i
  proof -
    have sel: "i \<in> set ?sel" using i selected_ids_set by auto
    then have "i \<in> fst ` set ?by" using a by auto
    then obtain d where d: "dict_get ?by i = Some d" using dict_get_None_iff[of ?by i] by auto
    then have "d \<in> set (List.map_filter (dict_get ?by) ?sel)" using sel by (force simp: List.map_filter_def)
    then show ?thesis using validate_all_sound[OF js] rows_by_id(1)[of "[]" ?found i d] d by auto
  qed
  ultimately show ?thesis unfolding c by (auto simp: get_records_get split: if_splits)
qed

text \<open>What a fitting row says.\<close>

lemma dataset_fits:
  assumes "validate_provider_dataset io b d = Inr ()"
  shows "pd_provider d = Some (ct_venue (fb_contract b))" "pd_storage d = Some ''parquet''"
    "\<exists>s e. pd_start d = Some s \<and> pd_end d = Some e \<and> s \<le> ct_opens (fb_contract b) \<and> ct_closes (fb_contract b) \<le> e"
  using assms by (auto simp: validate_provider_dataset_def dataset_mismatches_def Let_def not_less split: json.splits if_splits option.splits)

definition sample_io :: text_io where
  "sample_io = \<lparr>io_read_iso = (\<lambda>s. Some (if s = ''open'' then 10 else 20, Some 0)), io_read_decimal = (\<lambda>s. Some (5 / 2)), io_show_iso = (\<lambda>t. int_str t),
     io_show_decimal = (\<lambda>x. ''2.5''), io_show_float = (\<lambda>x. ''2.5''), io_dump_time = int_str,
     io_dump_decimal = (\<lambda>x. ''2.5'')\<rparr>"

definition sample_dataset :: dataset_row where
  "sample_dataset = \<lparr>pd_id = ''d'', pd_provider = Some ''v'',
     pd_payload = document [(''canonical'', JBool True), (''schema_version'', JStr ''snapshots_v2''), (''sport'', JStr ''football''), (''event_id'', JStr ''e''),
       (''condition_id'', JStr ''m''), (''clob_token_up'', JStr ''y''), (''clob_token_down'', JStr ''n''), (''market_type'', JStr ''total_goals_over_under''),
       (''threshold'', JStr ''2.5''), (''market_start_time'', JStr ''open''), (''market_end_time'', JStr ''close'')],
     pd_tokens = Some [''y'', ''n''], pd_storage = Some ''parquet'', pd_uri = Some ''file:///d'', pd_start = Some 9, pd_end = Some 21\<rparr>"

lemma sample_rows_fit: "rows_fit sample_io sample_binding [''d''] [sample_dataset]"
  by (simp add: rows_fit_def selected_ids_def validate_provider_dataset_def dataset_mismatches_def sample_dataset_def sample_binding_def expected_payload_def
      document_def json_get_def dict_get_def market_type_value_def decimal_of_def sample_io_def time_of_def parse_utc_iso_def Let_def) auto


theorem football_identity_sound_witness:
  "\<exists>r. dict_get (snd (store_football_settlement sample_binding [])) ''m'' = Some r \<and>
     py_eq (settlement_identity sample_io r) (settlement_identity sample_io (expected_football_settlement sample_binding))"
proof -
  obtain doc where "load_current_football_identity sample_io sample_binding [''d''] [sample_dataset] (snd (store_football_settlement sample_binding [])) = Inr doc"
    using stored_loads[OF sample_binding_ok(2) sample_rows_fit, of "[]"] by blast
  then show ?thesis using football_identity_sound unfolding sample_binding_simps[symmetric] by blast
qed

end
