(* ===== verification/Coverage.thy ===== *)
theory Coverage
  imports Football
begin

text \<open>
  Which parquet files cover a token over a window (\<open>services/marketdata/coverage.py\<close>): the per-token view, the selection of
  catalogue rows, the accumulation of files, data sets and spans, and the sweep that decides whether the selected data sets
  cover the whole window.

  Rows are those of the \<open>ProviderDataset\<close> table. Where the file of a row and a token lies, and whether it exists, is
  the argument \<open>locate\<close>. Times are instants in microseconds. The background scan is left out: it only adds rows.
\<close>

section \<open>The coverage map\<close>

record token_coverage =
  tk_token :: string
  tk_files :: "string list"
  tk_datasets :: "string list"
  tk_start :: "int option"
  tk_end :: "int option"

definition no_coverage :: "string \<Rightarrow> token_coverage" where
  "no_coverage t = \<lparr>tk_token = t, tk_files = [], tk_datasets = [], tk_start = None, tk_end = None\<rparr>"

definition covered :: "token_coverage \<Rightarrow> bool" where
  "covered c = (tk_files c \<noteq> [])"

record coverage_map =
  cm_by_token :: "(string, token_coverage) dict"
  cm_requested :: "string list"
  cm_start :: "int option"
  cm_end :: "int option"
  cm_datasets :: "(string, string list) dict"

definition covered_tokens :: "coverage_map \<Rightarrow> string list" where
  "covered_tokens m = filter (\<lambda>t. covered (dict_get_or (cm_by_token m) t (no_coverage t))) (cm_requested m)"

definition uncovered_tokens :: "coverage_map \<Rightarrow> string list" where
  "uncovered_tokens m = filter (\<lambda>t. \<not> covered (dict_get_or (cm_by_token m) t (no_coverage t))) (cm_requested m)"

definition coverage_fraction :: "coverage_map \<Rightarrow> pyfloat" where
  "coverage_fraction m = (if cm_requested m = [] then 0 else real (length (covered_tokens m)) / real (length (cm_requested m)))"

definition files_for :: "coverage_map \<Rightarrow> string \<Rightarrow> string list" where
  "files_for m t = (case dict_get (cm_by_token m) t of None \<Rightarrow> [] | Some c \<Rightarrow> tk_files c)"

definition all_files :: "coverage_map \<Rightarrow> string list" where
  "all_files m = rev (remdups (rev (concat (map (\<lambda>p. tk_files (snd p)) (cm_by_token m)))))"

definition as_per_token_files :: "coverage_map \<Rightarrow> (string, string list) dict" where
  "as_per_token_files m = map (\<lambda>(t, c). (t, tk_files c)) (filter (\<lambda>p. tk_files (snd p) \<noteq> []) (cm_by_token m))"

section \<open>The sweep over the intervals\<close>

fun advance_cursor :: "int \<Rightarrow> int \<Rightarrow> (int \<times> int) list \<Rightarrow> int" where
  "advance_cursor stop cursor [] = cursor"
| "advance_cursor stop cursor ((a, b) # rest) =
     (if b < cursor then advance_cursor stop cursor rest
      else if a > cursor then cursor
      else if max cursor b \<ge> stop then max cursor b
      else advance_cursor stop (max cursor b) rest)"

definition insufficient :: "int \<Rightarrow> int \<Rightarrow> (int \<times> int) list \<Rightarrow> bool" where
  "insufficient start stop intervals = (advance_cursor stop start (sort intervals) < stop)"

text \<open>Every instant of the window lies in an interval.\<close>

definition covers :: "(int \<times> int) list \<Rightarrow> real \<Rightarrow> bool" where
  "covers intervals x = (\<exists>(a, b)\<in>set intervals. of_int a \<le> x \<and> x \<le> of_int b)"

lemma advance_covers:
  "advance_cursor stop c is \<ge> stop \<Longrightarrow> c < stop \<Longrightarrow> of_int c \<le> x \<Longrightarrow> x \<le> of_int stop \<Longrightarrow> covers is x"
proof (induction stop c "is" rule: advance_cursor.induct)
  case (2 stop c a b rest)
  consider "b < c" | "c \<le> b" "a \<le> c" "stop \<le> max c b" | "c \<le> b" "a \<le> c" "max c b < stop"
    using "2.prems"(1,2) by (fastforce split: if_splits)
  then show ?case
  proof cases
    case 1
    then have "covers rest x" using 2 by simp
    then show ?thesis by (auto simp: covers_def)
  next
    case 2
    then have "of_int a \<le> x" "x \<le> of_int b" using \<open>of_int c \<le> x\<close> \<open>x \<le> of_int stop\<close> \<open>c < stop\<close> by linarith+
    then show ?thesis by (auto simp: covers_def)
  next
    case 3
    show ?thesis
    proof (cases "x \<le> of_int b")
      case True
      have "of_int a \<le> x" using 3 \<open>of_int c \<le> x\<close> by linarith
      then show ?thesis using True by (auto simp: covers_def)
    next
      case False
      then have "covers rest x" using 2 3 by simp
      then show ?thesis by (auto simp: covers_def)
    qed
  qed
qed simp

lemma advance_gap:
  "advance_cursor stop c is < stop \<Longrightarrow> sorted (map fst is) \<Longrightarrow> c < stop \<Longrightarrow> \<exists>x. of_int c < x \<and> x \<le> of_int stop \<and> \<not> covers is x"
proof (induction stop c "is" rule: advance_cursor.induct)
  case (1 stop c)
  then show ?case by (intro exI[of _ "of_int stop"]) (simp add: covers_def)
next
  case (2 stop c a b rest)
  have keep: "\<not> covers ((a, b) # rest) x" if "\<not> covers rest x" "of_int b < x" for x using that by (auto simp: covers_def)
  consider "b < c" | "c \<le> b" "c < a" | "c \<le> b" "a \<le> c" "max c b < stop" using "2.prems"(1) by (auto split: if_splits)
  then show ?case
  proof cases
    case 1
    then obtain x where "of_int c < x" "x \<le> of_int stop" "\<not> covers rest x" using 2 by auto
    then show ?thesis using keep[of x] 1 by (intro exI[of _ x]) linarith
  next
    case 2
    let ?x = "(of_int c + of_int (min a stop)) / 2 :: real"
    have "of_int c < ?x" "?x < of_int a" "?x \<le> of_int stop" using 2 \<open>c < stop\<close> by (auto simp: min_def field_simps)
    moreover have "\<forall>(a', b')\<in>set ((a, b) # rest). of_int a \<le> (of_int a' :: real)" using \<open>sorted (map fst ((a, b) # rest))\<close> by fastforce
    ultimately show ?thesis by (intro exI[of _ ?x]) (fastforce simp: covers_def)
  next
    case 3
    then obtain x where "of_int (max c b) < x" "x \<le> of_int stop" "\<not> covers rest x" using 2 by auto
    then show ?thesis using keep[of x] by (intro exI[of _ x]) auto
  qed
qed

lemma sweep_exact:
  assumes "start < stop"
  shows "insufficient start stop intervals \<longleftrightarrow> (\<exists>x. of_int start \<le> x \<and> x \<le> of_int stop \<and> \<not> covers intervals x)"
proof -
  have s: "covers (sort intervals) = covers intervals" by (rule ext) (simp add: covers_def)
  have m: "sorted (map fst (sort intervals))"
    by (rule sorted_map_mono[OF sorted_sort]) (auto simp: mono_on_def less_eq_prod_def)
  show ?thesis
  proof
    assume "insufficient start stop intervals"
    then obtain x where "of_int start < x" "x \<le> of_int stop" "\<not> covers (sort intervals) x"
      using advance_gap[OF _ m assms] unfolding insufficient_def by blast
    then show "\<exists>x. of_int start \<le> x \<and> x \<le> of_int stop \<and> \<not> covers intervals x" unfolding s by (intro exI[of _ x]) simp
  next
    assume "\<exists>x. of_int start \<le> x \<and> x \<le> of_int stop \<and> \<not> covers intervals x"
    then obtain x where x: "of_int start \<le> x" "x \<le> of_int stop" "\<not> covers intervals x" by blast
    show "insufficient start stop intervals" unfolding insufficient_def
    proof (rule ccontr)
      assume "\<not> advance_cursor stop start (sort intervals) < stop"
      then show False using advance_covers[OF _ assms x(1,2), of "sort intervals"] x(3) unfolding s by simp
    qed
  qed
qed

text \<open>
  C22: The sweep over the sorted intervals of the selected data sets finds a window insufficiently covered exactly when some
  instant of the window lies in none of them.
\<close>

theorem coverage_sweep_exact:
  assumes "start < stop"
  shows "insufficient start stop intervals \<longleftrightarrow> (\<exists>x. of_int start \<le> x \<and> x \<le> of_int stop \<and> \<not> covers intervals x)"
  using assms by (rule sweep_exact)

theorem coverage_sweep_exact_witness:
  "insufficient 0 10 [(6, 12), (0, 5)] = (\<exists>x. 0 \<le> x \<and> x \<le> 10 \<and> \<not> covers [(6, 12), (0, 5)] x)"
  using coverage_sweep_exact[of 0 10 "[(6, 12), (0, 5)]"] by simp

section \<open>Resolution\<close>

text \<open>\<open>a or b\<close> on optional integers: zero is false.\<close>

definition int_or :: "int option \<Rightarrow> int option \<Rightarrow> int option" where
  "int_or a b = (case a of None \<Rightarrow> b | Some i \<Rightarrow> if i = 0 then b else Some i)"

definition join_span :: "(int \<Rightarrow> int \<Rightarrow> int) \<Rightarrow> int option \<Rightarrow> int option \<Rightarrow> int option" where
  "join_span f a b = (case (a, b) of (Some x, Some y) \<Rightarrow> Some (f x y) | _ \<Rightarrow> int_or a b)"

record coverage_acc =
  ca_files :: "(string, string list) dict"
  ca_datasets :: "(string, string list) dict"
  ca_paths :: "(string, string list) dict"
  ca_spans :: "(string, int option \<times> int option) dict"
  ca_intervals :: "(string, (int \<times> int) list) dict"

definition no_rows :: coverage_acc where
  "no_rows = \<lparr>ca_files = [], ca_datasets = [], ca_paths = [], ca_spans = [], ca_intervals = []\<rparr>"

definition append_at :: "string \<Rightarrow> 'a \<Rightarrow> (string, 'a list) dict \<Rightarrow> (string, 'a list) dict" where
  "append_at k v d = dict_set d k (dict_get_or d k [] @ [v])"

definition insert_at :: "string \<Rightarrow> 'a \<Rightarrow> (string, 'a list) dict \<Rightarrow> (string, 'a list) dict" where
  "insert_at k v d = dict_set d k (let vs = dict_get_or d k [] in if v \<in> set vs then vs else vs @ [v])"

type_synonym locator = "dataset_row \<Rightarrow> string \<Rightarrow> string option"

definition add_token :: "locator \<Rightarrow> dataset_row \<Rightarrow> string \<Rightarrow> coverage_acc \<Rightarrow> coverage_acc" where
  "add_token locate d tok acc =
     (case locate d tok of None \<Rightarrow> acc
      | Some path \<Rightarrow>
          \<lparr>ca_files = insert_at tok path (ca_files acc), ca_datasets = append_at tok (pd_id d) (ca_datasets acc),
           ca_paths = insert_at path (pd_id d) (ca_paths acc),
           ca_spans = dict_set (ca_spans acc) tok
             (case dict_get (ca_spans acc) tok of None \<Rightarrow> (pd_start d, pd_end d)
              | Some (lo, hi) \<Rightarrow> (join_span min lo (pd_start d), join_span max hi (pd_end d))),
           ca_intervals = (case (pd_start d, pd_end d) of (Some a, Some b) \<Rightarrow> append_at tok (a, b) (ca_intervals acc) | _ \<Rightarrow> ca_intervals acc)\<rparr>)"

definition row_tokens :: "dataset_row \<Rightarrow> string list" where
  "row_tokens d = (case pd_tokens d of None \<Rightarrow> [] | Some ts \<Rightarrow> ts)"

definition local_uri :: "dataset_row \<Rightarrow> bool" where
  "local_uri d = (case pd_uri d of None \<Rightarrow> False | Some u \<Rightarrow> take 7 u = ''file://'')"

definition add_row :: "locator \<Rightarrow> string list \<Rightarrow> dataset_row \<Rightarrow> coverage_acc \<Rightarrow> coverage_acc" where
  "add_row locate requested d acc =
     (let here = filter (\<lambda>t. t \<in> set (row_tokens d)) (remdups requested) in
      if here = [] \<or> \<not> local_uri d then acc else fold (add_token locate d) here acc)"

definition overlaps :: "int \<Rightarrow> int \<Rightarrow> dataset_row \<Rightarrow> bool" where
  "overlaps start stop d =
     (pd_storage d = Some ''parquet'' \<and> (case (pd_start d, pd_end d) of (Some a, Some b) \<Rightarrow> a \<le> stop \<and> b \<ge> start | _ \<Rightarrow> False))"

definition from_providers :: "string list option \<Rightarrow> dataset_row \<Rightarrow> bool" where
  "from_providers ps d = (case ps of None \<Rightarrow> True | Some xs \<Rightarrow> (case pd_provider d of None \<Rightarrow> False | Some p \<Rightarrow> p \<in> set xs))"

text \<open>The rows of a query: the selected data sets, checked to exist and to hold the tokens; or every overlapping parquet row.\<close>

definition query_rows ::
    "string list \<Rightarrow> int \<Rightarrow> int \<Rightarrow> string list option \<Rightarrow> string list option \<Rightarrow> dataset_row list \<Rightarrow> py_error + dataset_row list" where
  "query_rows requested start stop providers selection rows =
     (case selection of
        None \<Rightarrow> ok (filter (\<lambda>d. overlaps start stop d \<and> from_providers providers d) rows)
      | Some ids \<Rightarrow>
          (let found = filter (\<lambda>d. pd_id d \<in> set ids \<and> from_providers providers d) rows in
           if \<not> set ids \<subseteq> pd_id ` set found then raise (ValueError ''unknown provider dataset IDs'')
           else if \<not> set requested \<subseteq> \<Union> ((\<lambda>d. set (row_tokens d)) ` set found) then raise (ValueError ''selected dataset token mismatch'')
           else ok (filter (overlaps start stop) found)))"

definition token_coverage_of :: "coverage_acc \<Rightarrow> string \<Rightarrow> token_coverage" where
  "token_coverage_of acc t =
     \<lparr>tk_token = t, tk_files = sort (dict_get_or (ca_files acc) t []), tk_datasets = rev (remdups (rev (dict_get_or (ca_datasets acc) t []))),
      tk_start = fst (dict_get_or (ca_spans acc) t (None, None)), tk_end = snd (dict_get_or (ca_spans acc) t (None, None))\<rparr>"

definition resolve_coverage ::
    "locator \<Rightarrow> string list \<Rightarrow> int \<Rightarrow> int \<Rightarrow> string list option \<Rightarrow> string list option \<Rightarrow> dataset_row list \<Rightarrow> py_error + coverage_map" where
  "resolve_coverage locate token_ids start stop providers dataset_ids rows =
     (let requested = filter (\<lambda>t. t \<noteq> []) token_ids;
          selection = map_option (\<lambda>ids. filter (\<lambda>i. i \<noteq> []) ids) dataset_ids in
      if requested = [] then ok \<lparr>cm_by_token = [], cm_requested = [], cm_start = Some start, cm_end = Some stop, cm_datasets = []\<rparr>
      else if selection = Some [] then raise (ValueError ''dataset_ids cannot be empty when explicit selection is requested'')
      else
        (case query_rows requested start stop providers selection rows of
           Inl e \<Rightarrow> raise e
         | Inr chosen \<Rightarrow>
             (let acc = fold (add_row locate requested) chosen no_rows;
                  short = filter (\<lambda>t. insufficient start stop (dict_get_or (ca_intervals acc) t [])) requested
              in if selection \<noteq> None \<and> short \<noteq> [] then raise (ValueError ''selected datasets do not fully cover requested window for tokens'')
                 else ok \<lparr>cm_by_token = map (\<lambda>t. (t, token_coverage_of acc t)) (rev (remdups (rev requested))), cm_requested = requested,
                      cm_start = Some start, cm_end = Some stop, cm_datasets = map (\<lambda>(p, ids). (p, sort ids)) (sort_key fst (ca_paths acc))\<rparr>)))"

section \<open>Selected data sets really cover\<close>

definition acc_sound :: "locator \<Rightarrow> dataset_row list \<Rightarrow> coverage_acc \<Rightarrow> bool" where
  "acc_sound locate chosen acc =
     (\<forall>t a b. (a, b) \<in> set (dict_get_or (ca_intervals acc) t []) \<longrightarrow>
        (\<exists>d p. d \<in> set chosen \<and> pd_start d = Some a \<and> pd_end d = Some b \<and> t \<in> set (row_tokens d) \<and> locate d t = Some p \<and>
          p \<in> set (dict_get_or (ca_files acc) t [])))"

lemma insert_at_get: "set (dict_get_or (insert_at k v d) t []) = (if t = k then insert v (set (dict_get_or d t [])) else set (dict_get_or d t []))"
  by (auto simp: insert_at_def Let_def)

lemma append_at_get: "dict_get_or (append_at k v d) t [] = (if t = k then dict_get_or d t [] @ [v] else dict_get_or d t [])"
  by (auto simp: append_at_def)

lemma add_token_sound:
  assumes "acc_sound locate chosen acc" "d \<in> set chosen" "tok \<in> set (row_tokens d)"
  shows "acc_sound locate chosen (add_token locate d tok acc)"
proof (cases "locate d tok")
  case None
  then show ?thesis using assms(1) by (simp add: add_token_def)
next
  case (Some p)
  have files: "set (dict_get_or (ca_files (add_token locate d tok acc)) t []) =
      (if t = tok then insert p (set (dict_get_or (ca_files acc) t [])) else set (dict_get_or (ca_files acc) t []))" for t
    using Some by (simp add: add_token_def insert_at_get)
  have new: "(a, b) \<in> set (dict_get_or (ca_intervals acc) t []) \<or> (t = tok \<and> pd_start d = Some a \<and> pd_end d = Some b)"
    if "(a, b) \<in> set (dict_get_or (ca_intervals (add_token locate d tok acc)) t [])" for t a b
    using that Some by (auto simp: add_token_def append_at_get split: option.splits if_splits)
  show ?thesis unfolding acc_sound_def
  proof (intro allI impI)
    fix t a b assume i: "(a, b) \<in> set (dict_get_or (ca_intervals (add_token locate d tok acc)) t [])"
    show "\<exists>d' p'. d' \<in> set chosen \<and> pd_start d' = Some a \<and> pd_end d' = Some b \<and> t \<in> set (row_tokens d') \<and> locate d' t = Some p' \<and>
        p' \<in> set (dict_get_or (ca_files (add_token locate d tok acc)) t [])"
    proof (cases "(a, b) \<in> set (dict_get_or (ca_intervals acc) t [])")
      case True
      then show ?thesis using assms(1) unfolding acc_sound_def files by (metis insertI2)
    next
      case False
      then have "t = tok" "pd_start d = Some a" "pd_end d = Some b" using new[OF i] by auto
      then show ?thesis using Some assms(2,3) unfolding files by auto
    qed
  qed
qed

lemma add_row_sound:
  assumes "acc_sound locate chosen acc" "d \<in> set chosen"
  shows "acc_sound locate chosen (add_row locate requested d acc)"
proof -
  have "acc_sound locate chosen (fold (add_token locate d) (filter (\<lambda>t. t \<in> set (row_tokens d)) (remdups requested)) acc)"
    by (rule fold_invariant[where Q = "\<lambda>t. t \<in> set (row_tokens d)"]) (simp_all add: assms add_token_sound)
  then show ?thesis using assms(1) by (simp add: add_row_def Let_def)
qed

lemma rows_sound: "acc_sound locate chosen (fold (add_row locate requested) chosen no_rows)"
proof (rule fold_invariant[where Q = "\<lambda>d. d \<in> set chosen"])
  show "acc_sound locate chosen no_rows" by (simp add: acc_sound_def no_rows_def)
qed (simp_all add: add_row_sound)

text \<open>
  C21: Coverage resolved for an explicit selection leaves no gap: for every requested token and every instant of the window
  some selected row of the token spans the instant and has its file among those the map gives for the token.
\<close>

theorem selected_coverage_sound:
  assumes "resolve_coverage locate token_ids start stop providers (Some ids) rows = Inr m" "start < stop" "tok \<in> set token_ids" "tok \<noteq> []"
    and "of_int start \<le> (x :: real)" "x \<le> of_int stop"
  shows "\<exists>d p a b. d \<in> set rows \<and> pd_id d \<in> set ids \<and> tok \<in> set (row_tokens d) \<and> pd_start d = Some a \<and> pd_end d = Some b \<and>
    of_int a \<le> x \<and> x \<le> of_int b \<and> locate d tok = Some p \<and> p \<in> set (files_for m tok)"
proof -
  let ?req = "filter (\<lambda>t. t \<noteq> []) token_ids" and ?ids = "filter (\<lambda>i. i \<noteq> []) ids"
  have req: "tok \<in> set ?req" using assms(3,4) by simp
  then have ne: "?req \<noteq> []" by (metis length_greater_0_conv length_pos_if_in_set)
  obtain chosen where chosen: "query_rows ?req start stop providers (Some ?ids) rows = Inr chosen"
    using assms(1) ne by (auto simp: resolve_coverage_def Let_def raise_unless split: sum.splits if_splits)
  let ?acc = "fold (add_row locate ?req) chosen no_rows"
  have m: "filter (\<lambda>t. insufficient start stop (dict_get_or (ca_intervals ?acc) t [])) ?req = []"
      "cm_by_token m = map (\<lambda>t. (t, token_coverage_of ?acc t)) (rev (remdups (rev ?req)))"
    using assms(1) ne chosen by (auto simp: resolve_coverage_def Let_def raise_unless)
  have "\<not> insufficient start stop (dict_get_or (ca_intervals ?acc) tok [])" using m(1) req unfolding filter_empty_conv by blast
  then have "covers (dict_get_or (ca_intervals ?acc) tok []) x" using sweep_exact[OF assms(2)] assms(5,6) by blast
  then obtain a b where ab: "(a, b) \<in> set (dict_get_or (ca_intervals ?acc) tok [])" "of_int a \<le> x" "x \<le> of_int b" by (auto simp: covers_def)
  then obtain d p where d: "d \<in> set chosen" "pd_start d = Some a" "pd_end d = Some b" "tok \<in> set (row_tokens d)" "locate d tok = Some p"
      "p \<in> set (dict_get_or (ca_files ?acc) tok [])"
    using rows_sound[of locate chosen ?req] unfolding acc_sound_def by blast
  have "d \<in> set rows" "pd_id d \<in> set ids" using d(1) chosen by (auto simp: query_rows_def Let_def raise_unless)
  moreover have "dict_get (cm_by_token m) tok = Some (token_coverage_of ?acc tok)"
    using req unfolding m(2) dict_get_def by (simp add: map_of_map_restrict restrict_map_def)
  ultimately show ?thesis using d ab by (auto simp: files_for_def token_coverage_of_def)
qed

definition sample_coverage :: "py_error + coverage_map" where
  "sample_coverage = resolve_coverage (\<lambda>d t. Some ''f'') [''y''] 10 20 None (Some [''d'']) [sample_dataset]"

lemma sample_coverage_ok: "\<exists>m. sample_coverage = Inr m"
  by (simp add: sample_coverage_def resolve_coverage_def query_rows_def sample_dataset_def row_tokens_def overlaps_def from_providers_def add_row_def local_uri_def
      add_token_def no_rows_def append_at_def insert_at_def insufficient_def Let_def)

theorem selected_coverage_sound_witness:
  "\<exists>m d p a b. sample_coverage = Inr m \<and> d \<in> set [sample_dataset] \<and> pd_start d = Some a \<and> pd_end d = Some b \<and> of_int a \<le> (15 :: real) \<and>
     15 \<le> (of_int b :: real) \<and> p \<in> set (files_for m ''y'')"
proof -
  obtain m where m: "sample_coverage = Inr m" using sample_coverage_ok by blast
  show ?thesis using selected_coverage_sound[OF m[unfolded sample_coverage_def], of "''y''" 15] m by auto
qed

end
