(* ===== verification/Manifest.thy ===== *)
theory Manifest
  imports Coverage
begin

text \<open>
  Content-addressed dataset snapshots: the manifest and its validation (\<open>evosport/data/manifest.py\<close>), and freezing a selection
  of catalogue rows into one, loading it back verified (\<open>evosport/data/freeze.py\<close>).

  SHA-256 and the encoding of a manifest as text are arguments. A disk maps paths to files; a snapshot directory lists its entries.
  The copies of the files made for a run, with their descriptors and handles, are operating-system code and not modelled.
\<close>

section \<open>Fields of a document\<close>

lemma sort_keys_items_map: "sort_keys_items kvs = map (\<lambda>(k, v). (k, sort_keys v)) kvs"
  by (induction kvs) auto

lemma sort_keys_list_map: "sort_keys_list vs = map sort_keys vs"
  by (induction vs) auto

lemma distinct_fst_sort_key: "distinct (map fst kvs) \<Longrightarrow> distinct (map fst (sort_key fst kvs))"
  by (metis distinct_sort mset_map mset_sort sort_key_const sorted_sort_key mset_eq_imp_distinct_iff)

lemma map_of_sort_key: "distinct (map fst kvs) \<Longrightarrow> map_of (sort_key fst kvs) = map_of kvs"
  by (subst map_of_inject_set) (simp_all add: distinct_fst_sort_key)

lemma same_document_fields:
  assumes "sort_keys (document xs) = sort_keys (document ys)" "distinct (map fst xs)" "distinct (map fst ys)"
  shows "map_option sort_keys (map_of xs k) = map_option sort_keys (map_of ys k)"
proof -
  have keyed: "map_of (map (\<lambda>(k, v). (k, sort_keys v)) (map (\<lambda>(k, v). (Str k, v)) zs)) (Str k) = map_option sort_keys (map_of zs k)" for zs
    by (induction zs) auto
  have d: "distinct (map fst (map (\<lambda>(k, v). (k, sort_keys v)) (map (\<lambda>(k, v). (Str k, v)) zs)))" if z: "distinct (map fst zs)" for zs :: "(string \<times> json) list"
  proof -
    have "map fst (map (\<lambda>(k, v). (k, sort_keys v)) (map (\<lambda>(k, v). (Str k, v)) zs)) = map Str (map fst zs)" by (induction zs) auto
    then show ?thesis using z by (simp add: distinct_map inj_on_def del: map_map)
  qed
  have "sort_key fst (map (\<lambda>(k, v). (k, sort_keys v)) (map (\<lambda>(k, v). (Str k, v)) xs)) =
      sort_key fst (map (\<lambda>(k, v). (k, sort_keys v)) (map (\<lambda>(k, v). (Str k, v)) ys))"
    using assms(1) by (simp add: document_def sort_keys_items_map)
  then have "map_of (map (\<lambda>(k, v). (k, sort_keys v)) (map (\<lambda>(k, v). (Str k, v)) xs)) = map_of (map (\<lambda>(k, v). (k, sort_keys v)) (map (\<lambda>(k, v). (Str k, v)) ys))"
    using map_of_sort_key[OF d[OF assms(2)]] map_of_sort_key[OF d[OF assms(3)]] by simp
  then show ?thesis using keyed by metis
qed

lemma strings_injective: "map JStr xs = map JStr ys \<longleftrightarrow> xs = ys"
  by (rule inj_map_eq_map) (simp add: inj_def)

lemma sort_keys_strings [simp]: "sort_keys_list (map JStr xs) = map JStr xs"
  by (induction xs) auto

section \<open>The manifest\<close>

definition catalog_schema_version :: string where
  "catalog_schema_version = ''evosport.dataset.v2''"

record dataset_file =
  fl_path :: string
  fl_sha :: string
  fl_size :: int
  fl_datasets :: "string list"
  fl_tokens :: "string list"

definition sha256_pattern :: "string \<Rightarrow> bool" where
  "sha256_pattern s = (length s = 64 \<and> list_all (\<lambda>c. c \<in> set ''0123456789abcdef'') s)"

definition sorted_unique :: "string list \<Rightarrow> bool" where
  "sorted_unique xs = (xs = sort (remdups xs))"

definition validate_file :: "dataset_file \<Rightarrow> py_error + dataset_file" where
  "validate_file f =
     (if \<not> sha256_pattern (fl_sha f) then raise (ValueError ''String should match pattern'')
      else if fl_size f < 0 then raise (ValueError ''Input should be greater than or equal to 0'')
      else if take 1 (fl_path f) \<noteq> ''/'' then raise (ValueError ''path must be absolute'')
      else if fl_datasets f = [] then raise (ValueError ''provider_dataset_ids cannot be empty'')
      else if \<not> sorted_unique (fl_datasets f) then raise (ValueError ''provider_dataset_ids must be unique and sorted'')
      else if fl_tokens f = [] then raise (ValueError ''token_ids cannot be empty'')
      else if \<not> sorted_unique (fl_tokens f) then raise (ValueError ''token_ids must be unique and sorted'')
      else ok f)"

record manifest =
  mf_schema :: string
  mf_id :: string
  mf_source :: string
  mf_tokens :: "string list"
  mf_start :: timestamp
  mf_end :: timestamp
  mf_files :: "dataset_file list"
  mf_datasets :: "string list"
  mf_football :: binding

text \<open>\<open>model_dump(mode="json")\<close> of the parts.\<close>

definition strings :: "string list \<Rightarrow> json" where
  "strings xs = JList (map JStr xs)"

definition file_document :: "dataset_file \<Rightarrow> json" where
  "file_document f =
     document [(''path'', JStr (fl_path f)), (''sha256'', JStr (fl_sha f)), (''size_bytes'', JInt (fl_size f)),
       (''provider_dataset_ids'', strings (fl_datasets f)), (''token_ids'', strings (fl_tokens f))]"

definition status_value :: "event_status \<Rightarrow> string" where
  "status_value s = (case s of Scheduled \<Rightarrow> ''scheduled'' | Finished \<Rightarrow> ''finished'' | Postponed \<Rightarrow> ''postponed'' | Cancelled \<Rightarrow> ''cancelled''
     | Abandoned \<Rightarrow> ''abandoned'')"

definition action_value :: "postponed_action \<Rightarrow> string" where
  "action_value a = (case a of VoidAction \<Rightarrow> ''void'' | WaitForReschedule \<Rightarrow> ''wait_for_reschedule'')"

definition event_document :: "text_io \<Rightarrow> sports_event \<Rightarrow> json" where
  "event_document io e =
     document [(''event_id'', JStr (ev_id e)), (''sport'', JStr (ev_sport e)), (''competition'', JStr (ev_competition e)), (''season'', JStr (ev_season e)),
       (''home_team'', JStr (ev_home e)), (''away_team'', JStr (ev_away e)), (''scheduled_start'', JStr (io_dump_time io (ev_scheduled e))),
       (''actual_start'', json_opt (\<lambda>t. JStr (io_dump_time io t)) (ev_actual e)), (''status'', JStr (status_value (ev_status e))),
       (''source_ids'', document (map (\<lambda>(k, v). (k, JStr v)) (ev_sources e)))]"

definition policy_document :: "settlement_policy \<Rightarrow> json" where
  "policy_document p =
     document [(''includes_extra_time'', JBool (sp_extra_time p)), (''postponed_action'', JStr (action_value (sp_postponed p))),
       (''cancelled_action'', JStr (action_value (sp_cancelled p))), (''abandoned_action'', JStr (action_value (sp_abandoned p)))]"

definition contract_document :: "text_io \<Rightarrow> sports_contract \<Rightarrow> json" where
  "contract_document io c =
     document [(''contract_id'', JStr (ct_id c)), (''event_id'', JStr (ct_event c)), (''venue'', JStr (ct_venue c)), (''venue_market_id'', JStr (ct_market c)),
       (''yes_token_id'', JStr (ct_yes c)), (''no_token_id'', JStr (ct_no c)), (''market_type'', JStr (market_type_value (ct_type c))),
       (''threshold'', JStr (io_dump_decimal io (ct_threshold c))), (''side'', JStr (ct_side c)), (''opens_at'', JStr (io_dump_time io (ct_opens c))),
       (''closes_at'', JStr (io_dump_time io (ct_closes c))), (''rule_version'', JStr (ct_rules c)), (''settlement'', policy_document (ct_settlement c))]"

definition result_document :: "match_result \<Rightarrow> json" where
  "result_document r =
     document [(''regulation_home'', JInt (mr_home r)), (''regulation_away'', JInt (mr_away r)), (''extra_time_home'', JInt (mr_extra_home r)),
       (''extra_time_away'', JInt (mr_extra_away r)), (''status'', JStr (status_value (mr_status r)))]"

definition envelope_document :: "text_io \<Rightarrow> temporal_envelope \<Rightarrow> json" where
  "envelope_document io t =
     (let time = (\<lambda>x. JStr (io_dump_time io x)) in
      document [(''event_time'', time (tm_event t)), (''observed_at'', time (tm_observed t)), (''ingested_at'', time (tm_ingested t)),
        (''effective_from'', json_opt time (tm_from t)), (''effective_to'', json_opt time (tm_to t)),
        (''source_revision'', json_opt JStr (tm_revision t)), (''raw_payload_hash'', json_opt JStr (tm_payload_hash t))])"

definition binding_document :: "text_io \<Rightarrow> binding \<Rightarrow> json" where
  "binding_document io b =
     document [(''event'', event_document io (fb_event b)), (''contract'', contract_document io (fb_contract b)),
       (''result'', result_document (fb_result b)), (''result_time'', envelope_document io (fb_time b))]"

definition manifest_document :: "text_io \<Rightarrow> manifest \<Rightarrow> json" where
  "manifest_document io m =
     document [(''schema_version'', JStr (mf_schema m)), (''source'', JStr (mf_source m)), (''token_ids'', strings (mf_tokens m)),
       (''start'', JStr (io_show_iso io (mf_start m))), (''end'', JStr (io_show_iso io (mf_end m))),
       (''files'', JList (map file_document (mf_files m))), (''provider_dataset_ids'', strings (mf_datasets m)),
       (''football'', binding_document io (mf_football m))]"

definition manifest_id_for :: "(string \<Rightarrow> string) \<Rightarrow> text_io \<Rightarrow> manifest \<Rightarrow> string" where
  "manifest_id_for sha io m = sha (canonical_json (io_show_float io) (manifest_document io m))"

fun validate_each :: "('a \<Rightarrow> py_error + 'b) \<Rightarrow> 'a list \<Rightarrow> py_error + unit" where
  "validate_each f [] = ok ()"
| "validate_each f (x # xs) = (case f x of Inl e \<Rightarrow> raise e | Inr _ \<Rightarrow> validate_each f xs)"

text \<open>Validation of the whole: patterns and literals, the files, the binding, then the cross checks and the content address.\<close>

definition check_manifest :: "(string \<Rightarrow> string) \<Rightarrow> text_io \<Rightarrow> manifest \<Rightarrow> py_error + manifest" where
  "check_manifest sha io m =
     (let paths = map fl_path (mf_files m) in
      if mf_start m \<ge> mf_end m then raise (ValueError ''start must be before end'')
      else if \<not> sorted_unique (mf_tokens m) \<or> mf_tokens m = [] then raise (ValueError ''token_ids must be non-empty, unique, and sorted'')
      else if \<not> sorted_unique (mf_datasets m) \<or> mf_datasets m = []
        then raise (ValueError ''provider_dataset_ids must be non-empty, unique, and sorted'')
      else if paths = [] \<or> \<not> distinct paths \<or> paths \<noteq> sort paths then raise (ValueError ''files must be non-empty with unique sorted paths'')
      else if set (concat (map fl_tokens (mf_files m))) \<noteq> set (mf_tokens m)
        then raise (ValueError ''file token IDs must exactly cover manifest token IDs'')
      else if set (concat (map fl_datasets (mf_files m))) \<noteq> set (mf_datasets m)
        then raise (ValueError ''file dataset IDs must exactly cover manifest provider dataset IDs'')
      else if mf_id m \<noteq> manifest_id_for sha io m then raise (ValueError ''manifest_id does not match canonical manifest content'')
      else ok m)"

definition validate_manifest :: "(string \<Rightarrow> string) \<Rightarrow> text_io \<Rightarrow> manifest \<Rightarrow> py_error + manifest" where
  "validate_manifest sha io m =
     (if mf_schema m \<noteq> catalog_schema_version \<or> \<not> sha256_pattern (mf_id m) \<or> mf_source m \<noteq> ''homerun_catalog''
        then raise (ValueError ''Input should match'')
      else (case validate_each validate_file (mf_files m) of Inl e \<Rightarrow> raise e
        | Inr _ \<Rightarrow> (case load_binding (mf_football m) of Inl e \<Rightarrow> raise e
        | Inr _ \<Rightarrow> check_manifest sha io m)))"

section \<open>Content addressing\<close>

text \<open>The documents determine what they describe, as far as the texts of times do.\<close>

lemma file_document_inject:
  assumes "sort_keys (file_document f) = sort_keys (file_document g)"
  shows "f = g"
proof -
  note same = same_document_fields[OF assms[unfolded file_document_def]]
  show ?thesis using same[of "''path''"] same[of "''sha256''"] same[of "''size_bytes''"] same[of "''provider_dataset_ids''"] same[of "''token_ids''"]
    by (simp add: strings_def strings_injective)
qed

lemma value_inject: "status_value s = status_value s' \<longleftrightarrow> s = s'" "action_value a = action_value a' \<longleftrightarrow> a = a'"
  by (cases s; cases s'; simp add: status_value_def) (cases a; cases a'; simp add: action_value_def)

lemma json_opt_time: "inj d \<Longrightarrow> sort_keys (json_opt (\<lambda>t. JStr (d t)) a) = sort_keys (json_opt (\<lambda>t. JStr (d t)) b) \<longleftrightarrow> a = b"
  by (cases a; cases b; auto simp: json_opt_def inj_def)

lemma json_opt_text: "sort_keys (json_opt JStr a) = sort_keys (json_opt JStr b) \<longleftrightarrow> a = b"
  by (cases a; cases b; simp add: json_opt_def)

lemma policy_document_inject: "sort_keys (policy_document p) = sort_keys (policy_document q) \<Longrightarrow> p = q"
proof -
  assume a: "sort_keys (policy_document p) = sort_keys (policy_document q)"
  note same = same_document_fields[OF a[unfolded policy_document_def]]
  show ?thesis using same[of "''includes_extra_time''"] same[of "''postponed_action''"] same[of "''cancelled_action''"] same[of "''abandoned_action''"]
    by (simp add: value_inject)
qed

lemma contract_document_inject:
  assumes "sort_keys (contract_document io c) = sort_keys (contract_document io d)" "inj (io_dump_time io)" "ct_threshold c = ct_threshold d"
  shows "c = d"
proof -
  note same = same_document_fields[OF assms(1)[unfolded contract_document_def]]
  have "ct_id c = ct_id d" using same[of "''contract_id''"] by simp
  moreover have "ct_event c = ct_event d" using same[of "''event_id''"] by simp
  moreover have "ct_venue c = ct_venue d" using same[of "''venue''"] by simp
  moreover have "ct_market c = ct_market d" using same[of "''venue_market_id''"] by simp
  moreover have "ct_yes c = ct_yes d" using same[of "''yes_token_id''"] by simp
  moreover have "ct_no c = ct_no d" using same[of "''no_token_id''"] by simp
  moreover have "ct_side c = ct_side d" using same[of "''side''"] by simp
  moreover have "ct_opens c = ct_opens d" using same[of "''opens_at''"] assms(2) by (simp add: inj_eq)
  moreover have "ct_closes c = ct_closes d" using same[of "''closes_at''"] assms(2) by (simp add: inj_eq)
  moreover have "ct_rules c = ct_rules d" using same[of "''rule_version''"] by simp
  moreover have "ct_settlement c = ct_settlement d" using same[of "''settlement''"] policy_document_inject by simp
  moreover have "ct_type c = ct_type d" by (cases "ct_type c"; cases "ct_type d") simp
  ultimately show ?thesis using assms(3) by simp
qed

lemma result_document_inject:
  assumes "sort_keys (result_document r) = sort_keys (result_document q)"
  shows "r = q"
proof -
  note same = same_document_fields[OF assms[unfolded result_document_def]]
  show ?thesis using same[of "''regulation_home''"] same[of "''regulation_away''"] same[of "''extra_time_home''"] same[of "''extra_time_away''"] same[of "''status''"]
    by (simp add: value_inject)
qed

lemma envelope_document_inject:
  assumes "sort_keys (envelope_document io t) = sort_keys (envelope_document io u)" "inj (io_dump_time io)"
  shows "t = u"
proof -
  note same = same_document_fields[OF assms(1)[unfolded envelope_document_def Let_def]]
  have "tm_event t = tm_event u" using same[of "''event_time''"] assms(2) by (simp add: inj_eq)
  moreover have "tm_observed t = tm_observed u" using same[of "''observed_at''"] assms(2) by (simp add: inj_eq)
  moreover have "tm_ingested t = tm_ingested u" using same[of "''ingested_at''"] assms(2) by (simp add: inj_eq)
  moreover have "tm_from t = tm_from u" using same[of "''effective_from''"] by (simp add: json_opt_time[OF assms(2)])
  moreover have "tm_to t = tm_to u" using same[of "''effective_to''"] by (simp add: json_opt_time[OF assms(2)])
  moreover have "tm_revision t = tm_revision u" using same[of "''source_revision''"] by (simp add: json_opt_text)
  moreover have "tm_payload_hash t = tm_payload_hash u" using same[of "''raw_payload_hash''"] by (simp add: json_opt_text)
  ultimately show ?thesis by simp
qed

lemma event_document_inject:
  assumes "sort_keys (event_document io e) = sort_keys (event_document io f)" "inj (io_dump_time io)"
  shows "e\<lparr>ev_sources := []\<rparr> = f\<lparr>ev_sources := []\<rparr>"
proof -
  note same = same_document_fields[OF assms(1)[unfolded event_document_def]]
  have "ev_id e = ev_id f" using same[of "''event_id''"] by simp
  moreover have "ev_sport e = ev_sport f" using same[of "''sport''"] by simp
  moreover have "ev_competition e = ev_competition f" using same[of "''competition''"] by simp
  moreover have "ev_season e = ev_season f" using same[of "''season''"] by simp
  moreover have "ev_home e = ev_home f" using same[of "''home_team''"] by simp
  moreover have "ev_away e = ev_away f" using same[of "''away_team''"] by simp
  moreover have "ev_scheduled e = ev_scheduled f" using same[of "''scheduled_start''"] assms(2) by (simp add: inj_eq)
  moreover have "ev_actual e = ev_actual f" using same[of "''actual_start''"] by (simp add: json_opt_time[OF assms(2)])
  moreover have "ev_status e = ev_status f" using same[of "''status''"] by (simp add: value_inject)
  ultimately show ?thesis by (cases e; cases f) simp
qed

text \<open>Two manifests, up to the order of the source ids of the event.\<close>

definition unsourced :: "binding \<Rightarrow> binding" where
  "unsourced b = b\<lparr>fb_event := (fb_event b)\<lparr>ev_sources := []\<rparr>\<rparr>"

definition unsourced_manifest :: "manifest \<Rightarrow> manifest" where
  "unsourced_manifest m = m\<lparr>mf_football := unsourced (mf_football m)\<rparr>"

lemma binding_document_inject:
  assumes "sort_keys (binding_document io b) = sort_keys (binding_document io c)" "inj (io_dump_time io)"
    "ct_threshold (fb_contract b) = ct_threshold (fb_contract c)"
  shows "unsourced b = unsourced c"
proof -
  note same = same_document_fields[OF assms(1)[unfolded binding_document_def]]
  have "(fb_event b)\<lparr>ev_sources := []\<rparr> = (fb_event c)\<lparr>ev_sources := []\<rparr>" using same[of "''event''"] by (intro event_document_inject[OF _ assms(2)]) simp
  moreover have "fb_contract b = fb_contract c" using same[of "''contract''"] by (intro contract_document_inject[OF _ assms(2,3)]) simp
  moreover have "fb_result b = fb_result c" using same[of "''result''"] by (intro result_document_inject) simp
  moreover have "fb_time b = fb_time c" using same[of "''result_time''"] by (intro envelope_document_inject[OF _ assms(2)]) simp
  ultimately show ?thesis by (cases b; cases c) (simp add: unsourced_def)
qed

lemma files_document_inject: "map sort_keys (map file_document fs) = map sort_keys (map file_document gs) \<Longrightarrow> fs = gs"
  by (induction fs arbitrary: gs) (auto simp: Cons_eq_map_conv file_document_inject)

definition times_distinguished :: "text_io \<Rightarrow> bool" where
  "times_distinguished io = (inj (io_dump_time io) \<and> inj (io_show_iso io))"

lemma manifest_document_inject:
  assumes "sort_keys (manifest_document io m) = sort_keys (manifest_document io n)" "times_distinguished io" "mf_id m = mf_id n"
    "ct_threshold (fb_contract (mf_football m)) = ct_threshold (fb_contract (mf_football n))"
  shows "unsourced_manifest m = unsourced_manifest n"
proof -
  note same = same_document_fields[OF assms(1)[unfolded manifest_document_def]]
  note inj = assms(2)[unfolded times_distinguished_def]
  have "mf_schema m = mf_schema n" using same[of "''schema_version''"] by simp
  moreover have "mf_source m = mf_source n" using same[of "''source''"] by simp
  moreover have "mf_tokens m = mf_tokens n" using same[of "''token_ids''"] by (simp add: strings_def strings_injective)
  moreover have "mf_start m = mf_start n" using same[of "''start''"] inj by (simp add: inj_eq)
  moreover have "mf_end m = mf_end n" using same[of "''end''"] inj by (simp add: inj_eq)
  moreover have "mf_files m = mf_files n" using same[of "''files''"] files_document_inject by (simp add: sort_keys_list_map del: map_map)
  moreover have "mf_datasets m = mf_datasets n" using same[of "''provider_dataset_ids''"] by (simp add: strings_def strings_injective)
  moreover have "unsourced (mf_football m) = unsourced (mf_football n)"
    using same[of "''football''"] inj by (intro binding_document_inject[OF _ conjunct1[OF inj] assms(4)]) simp
  ultimately show ?thesis using assms(3) by (cases m; cases n) (simp add: unsourced_manifest_def)
qed

text \<open>Manifests are documents without floats.\<close>

lemma document_dumpable: "dumpable (document kvs) \<longleftrightarrow> list_all (\<lambda>p. dumpable (snd p)) kvs"
  "floats_in (document kvs) = concat (map (\<lambda>p. floats_in (snd p)) kvs)"
  by (induction kvs) (auto simp: document_def)

lemma strings_dumpable: "dumpable (strings xs)" "floats_in (strings xs) = []"
  by (induction xs) (auto simp: strings_def)

lemma opt_dumpable: "(\<And>x. dumpable (f x)) \<Longrightarrow> dumpable (json_opt f v)" "(\<And>x. floats_in (f x) = []) \<Longrightarrow> floats_in (json_opt f v) = []"
  by (cases v; simp add: json_opt_def)+

lemma manifest_dumpable: "dumpable (manifest_document io m)" "floats_in (manifest_document io m) = []"
proof -
  note parts = document_dumpable strings_dumpable opt_dumpable
  have fl: "dumpable (file_document f)" "floats_in (file_document f) = []" for f by (simp_all add: file_document_def parts)
  have event: "dumpable (event_document io e)" "floats_in (event_document io e) = []" for e
    by (simp_all add: event_document_def parts list_all_iff case_prod_beta)
  have contract: "dumpable (contract_document io c)" "floats_in (contract_document io c) = []" for c
    by (simp_all add: contract_document_def policy_document_def parts)
  have result: "dumpable (result_document r)" "floats_in (result_document r) = []" for r by (simp_all add: result_document_def parts)
  have envelope: "dumpable (envelope_document io t)" "floats_in (envelope_document io t) = []" for t
    by (simp_all add: envelope_document_def parts Let_def)
  show "dumpable (manifest_document io m)" "floats_in (manifest_document io m) = []"
    by (simp_all add: manifest_document_def binding_document_def parts fl event contract result envelope list_all_iff comp_def)
qed

text \<open>A collision of a hash: two texts with one value.\<close>

definition collision :: "(string \<Rightarrow> string) \<Rightarrow> string \<Rightarrow> string \<Rightarrow> bool" where
  "collision sha x y = (x \<noteq> y \<and> sha x = sha y)"

definition manifest_text :: "text_io \<Rightarrow> manifest \<Rightarrow> string" where
  "manifest_text io m = canonical_json (io_show_float io) (manifest_document io m)"


section \<open>Snapshots on disk\<close>

record disk_file =
  df_regular :: bool
  df_bytes :: string
  df_stamp :: int

type_synonym disk = "string \<Rightarrow> disk_file option"

record snapshot_dir =
  sd_regular :: bool
  sd_entries :: "(string \<times> disk_file) list"

definition integrity_error :: py_error where
  "integrity_error = RuntimeError ''snapshot integrity verification failed''"

definition payload_intact :: "(string \<Rightarrow> string) \<Rightarrow> disk \<Rightarrow> dataset_file \<Rightarrow> bool" where
  "payload_intact sha disk f =
     (case disk (fl_path f) of None \<Rightarrow> False
      | Some d \<Rightarrow> df_regular d \<and> int (length (df_bytes d)) = fl_size f \<and> sha (df_bytes d) = fl_sha f)"

definition verify_snapshot_tree :: "(string \<Rightarrow> string) \<Rightarrow> disk \<Rightarrow> snapshot_dir \<Rightarrow> manifest \<Rightarrow> py_error + manifest" where
  "verify_snapshot_tree sha disk dir m =
     (if \<not> sd_regular dir then raise (RuntimeError ''snapshot target is not a regular directory'')
      else if fst ` set (sd_entries dir) \<noteq> {''manifest.json''} then raise (RuntimeError ''snapshot tree has undeclared entries'')
      else if (case dict_get (sd_entries dir) ''manifest.json'' of None \<Rightarrow> True | Some f \<Rightarrow> \<not> df_regular f)
        then raise (RuntimeError ''snapshot manifest is not a regular file'')
      else if \<not> list_all (payload_intact sha disk) (mf_files m) then raise integrity_error
      else ok m)"

text \<open>
  Loading reads the manifest through one descriptor, verifies the tree, and compares the state of the file with the one read:
  \<open>later\<close> is the entry found then. Every failure is one integrity error. \<open>decode\<close> parses the fields of a manifest.
\<close>

definition load_verified_snapshot ::
    "(string \<Rightarrow> string) \<Rightarrow> text_io \<Rightarrow> (string \<Rightarrow> py_error + manifest) \<Rightarrow> disk \<Rightarrow> string \<Rightarrow> snapshot_dir \<Rightarrow> disk_file option
     \<Rightarrow> py_error + (manifest \<times> string)" where
  "load_verified_snapshot sha io decode disk name dir later =
     (if name \<noteq> ''manifest.json'' then raise integrity_error
      else (case dict_get (sd_entries dir) name of
          None \<Rightarrow> raise integrity_error
        | Some f \<Rightarrow>
            if \<not> df_regular f then raise integrity_error
            else (case decode (df_bytes f) of
                Inl e \<Rightarrow> raise integrity_error
              | Inr m0 \<Rightarrow> (case validate_manifest sha io m0 of
                  Inl e \<Rightarrow> raise integrity_error
                | Inr m \<Rightarrow> (case verify_snapshot_tree sha disk dir m of
                    Inl e \<Rightarrow> raise integrity_error
                  | Inr _ \<Rightarrow> if later \<noteq> Some f then raise integrity_error else ok (m, df_bytes f))))))"

section \<open>Freezing a selection\<close>

record freeze_env =
  fe_sha :: "string \<Rightarrow> string"
  fe_io :: text_io
  fe_encode :: "manifest \<Rightarrow> string"
  fe_decode :: "string \<Rightarrow> py_error + manifest"
  fe_disk :: disk
  fe_locate :: locator
  fe_uri_path :: "string \<Rightarrow> string option"
  fe_resolve :: "string \<Rightarrow> string"
  fe_listing :: "string \<Rightarrow> string list"
  fe_locked :: "string \<Rightarrow> bool"
  fe_stamp :: int

text \<open>A time as given: a local time and, when it is aware, its offset.\<close>

definition normalize_utc :: "int \<times> int option \<Rightarrow> py_error + timestamp" where
  "normalize_utc t = (case snd t of None \<Rightarrow> raise (ValueError ''must be aware'') | Some offset \<Rightarrow> ok (fst t - offset))"

text \<open>Data sets and tokens per file, over the tokens in order and the files of each.\<close>

definition add_identity :: "coverage_map \<Rightarrow> string \<Rightarrow> string \<Rightarrow> (string, string list \<times> string list) dict \<Rightarrow> (string, string list \<times> string list) dict" where
  "add_identity cov tok path d =
     (let (ds, ts) = dict_get_or d path ([], [])
      in dict_set d path (List.union ds (dict_get_or (cm_datasets cov) path []), List.union ts [tok]))"

definition identity_by_path :: "coverage_map \<Rightarrow> string list \<Rightarrow> (string, string list \<times> string list) dict" where
  "identity_by_path cov tokens = fold (\<lambda>tok. fold (add_identity cov tok) (files_for cov tok)) tokens []"

fun freeze_files :: "freeze_env \<Rightarrow> (string \<times> string list \<times> string list) list \<Rightarrow> py_error + dataset_file list" where
  "freeze_files env [] = ok []"
| "freeze_files env ((path, ds, ts) # rest) =
     (case fe_disk env path of
        None \<Rightarrow> raise (RuntimeError ''No such file or directory'')
      | Some d \<Rightarrow>
          (case validate_file \<lparr>fl_path = path, fl_sha = fe_sha env (df_bytes d), fl_size = int (length (df_bytes d)), fl_datasets = sort ds, fl_tokens = sort ts\<rparr> of
             Inl e \<Rightarrow> raise e
           | Inr f \<Rightarrow> (case freeze_files env rest of Inl e \<Rightarrow> raise e | Inr fs \<Rightarrow> ok (f # fs))))"

definition row_directory :: "freeze_env \<Rightarrow> dataset_row \<Rightarrow> string option" where
  "row_directory env d = (case pd_uri d of None \<Rightarrow> None | Some u \<Rightarrow> map_option (fe_resolve env) (fe_uri_path env u))"

definition actual_parquet :: "freeze_env \<Rightarrow> dataset_row list \<Rightarrow> string list" where
  "actual_parquet env rows = concat (map (\<lambda>d. map (fe_resolve env) (fe_listing env d)) (List.map_filter (row_directory env) rows))"

definition build_manifest ::
    "freeze_env \<Rightarrow> string list \<Rightarrow> string list \<Rightarrow> timestamp \<Rightarrow> timestamp \<Rightarrow> binding \<Rightarrow> dataset_file list \<Rightarrow> py_error + manifest" where
  "build_manifest env ids tokens start stop b fs =
     (let m = \<lparr>mf_schema = catalog_schema_version, mf_id = [], mf_source = ''homerun_catalog'', mf_tokens = tokens, mf_start = start, mf_end = stop,
                mf_files = fs, mf_datasets = ids, mf_football = b\<rparr>
      in validate_manifest (fe_sha env) (fe_io env) (m\<lparr>mf_id := manifest_id_for (fe_sha env) (fe_io env) m\<rparr>))"

definition select_manifest ::
    "freeze_env \<Rightarrow> string list \<Rightarrow> int \<times> int option \<Rightarrow> int \<times> int option \<Rightarrow> binding \<Rightarrow> dataset_row list \<Rightarrow> py_error + manifest" where
  "select_manifest env ids start_in end_in b table =
     (let sel = selected_ids ids in
      if sel = [] then raise (ValueError ''provider_dataset_ids cannot be empty'')
      else (case normalize_utc start_in of Inl e \<Rightarrow> raise e
      | Inr start \<Rightarrow> (case normalize_utc end_in of Inl e \<Rightarrow> raise e
      | Inr stop \<Rightarrow>
          if start \<ge> stop then raise (ValueError ''start must be before end'')
          else
            (let rows = filter (\<lambda>d. pd_id d \<in> set sel) table; by_id = foldl (\<lambda>m d. dict_set m (pd_id d) d) [] rows in
             if \<not> set sel \<subseteq> fst ` set by_id then raise (ValueError ''unknown provider dataset IDs'')
             else (case validate_all (fe_io env) b (List.map_filter (dict_get by_id) sel) of Inl e \<Rightarrow> raise e
             | Inr _ \<Rightarrow>
                (let tokens = sort (remdups (concat (map row_tokens rows))) in
                 case resolve_coverage (fe_locate env) tokens start stop None (Some sel) rows of Inl e \<Rightarrow> raise e
                 | Inr cov \<Rightarrow>
                    if uncovered_tokens cov \<noteq> [] then raise (ValueError ''selected datasets have uncovered tokens'')
                    else
                      (let ids_by_path = identity_by_path cov tokens in
                       if list_ex (\<lambda>d. row_directory env d = None) rows then raise (ValueError ''provider dataset storage_uri must be a file URI'')
                       else if set (actual_parquet env rows) \<noteq> set (map (fe_resolve env \<circ> fst) ids_by_path)
                         then raise (ValueError ''selected dataset directories contain missing or extra parquet files'')
                       else (case freeze_files env (sort_key fst ids_by_path) of Inl e \<Rightarrow> raise e
                         | Inr fs \<Rightarrow> build_manifest env sel tokens start stop b fs))))))))"

type_synonym snapshot_root = "(string, snapshot_dir) dict"

definition manifest_entry :: "snapshot_dir \<Rightarrow> disk_file option" where
  "manifest_entry dir = dict_get (sd_entries dir) ''manifest.json''"

definition reload :: "freeze_env \<Rightarrow> snapshot_dir \<Rightarrow> py_error + (manifest \<times> string)" where
  "reload env dir = load_verified_snapshot (fe_sha env) (fe_io env) (fe_decode env) (fe_disk env) ''manifest.json'' dir (manifest_entry dir)"

definition publish_snapshot :: "freeze_env \<Rightarrow> manifest \<Rightarrow> snapshot_root \<Rightarrow> (py_error + manifest) \<times> snapshot_root" where
  "publish_snapshot env m snaps =
     (if fe_locked env (mf_id m) then (raise (RuntimeError ''snapshot publication lock exists''), snaps)
      else (case dict_get snaps (mf_id m) of
          Some dir \<Rightarrow>
            (case reload env dir of Inl e \<Rightarrow> (raise e, snaps)
             | Inr (existing, _) \<Rightarrow> if existing \<noteq> m then (raise (RuntimeError ''snapshot collision''), snaps) else (ok existing, snaps))
        | None \<Rightarrow>
            (let staging = \<lparr>sd_regular = True, sd_entries = [(''manifest.json'', \<lparr>df_regular = True, df_bytes = fe_encode env m, df_stamp = fe_stamp env\<rparr>)]\<rparr> in
             case reload env staging of Inl e \<Rightarrow> (raise e, snaps)
             | Inr (verified, _) \<Rightarrow> if verified \<noteq> m then (raise (RuntimeError ''snapshot collision''), snaps) else (ok m, dict_set snaps (mf_id m) staging))))"

definition freeze_provider_datasets ::
    "freeze_env \<Rightarrow> string list \<Rightarrow> int \<times> int option \<Rightarrow> int \<times> int option \<Rightarrow> binding \<Rightarrow> dataset_row list \<Rightarrow> snapshot_root
     \<Rightarrow> (py_error + manifest) \<times> snapshot_root" where
  "freeze_provider_datasets env ids start_in end_in b table snaps =
     (case select_manifest env ids start_in end_in b table of Inl e \<Rightarrow> (raise e, snaps) | Inr m \<Rightarrow> publish_snapshot env m snaps)"

section \<open>What a frozen snapshot guarantees\<close>

lemma load_snapshot_facts:
  assumes "load_verified_snapshot sha io decode disk name dir later = Inr (m, bytes)"
  shows "\<exists>f m0. dict_get (sd_entries dir) ''manifest.json'' = Some f \<and> decode (df_bytes f) = Inr m0 \<and> validate_manifest sha io m0 = Inr m \<and>
    list_all (payload_intact sha disk) (mf_files m) \<and> bytes = df_bytes f \<and> later = Some f \<and> fst ` set (sd_entries dir) = {''manifest.json''}"
  using assms by (auto simp: load_verified_snapshot_def verify_snapshot_tree_def raise_unless split: option.splits sum.splits if_splits)

lemma validate_manifest_same: "validate_manifest sha io m = Inr n \<Longrightarrow> n = m"
  by (auto simp: validate_manifest_def check_manifest_def raise_unless Let_def split: sum.splits if_splits)

lemma publish_facts:
  assumes "publish_snapshot env m snaps = (r, snaps')"
  shows "dict_get snaps k = Some d \<Longrightarrow> dict_get snaps' k = Some d"
    "r = Inr n \<Longrightarrow> n = m \<and> (\<exists>dir bytes. dict_get snaps' (mf_id m) = Some dir \<and> reload env dir = Inr (m, bytes))"
    "r = Inl e \<Longrightarrow> snaps' = snaps"
  using assms by (auto simp: publish_snapshot_def Let_def split: option.splits sum.splits if_splits)

text \<open>
  C13: A successful freeze leaves, under the id of the manifest, a snapshot that loads back verified as exactly this manifest: the
  manifest is valid and every file it lists is on disk with the recorded size and hash. Snapshots published before are never
  changed, and a failed freeze changes nothing.
\<close>

theorem freeze_is_sound:
  assumes "freeze_provider_datasets env ids start_in end_in b table snaps = (r, snaps')"
  shows "(case r of
      Inl e \<Rightarrow> snaps' = snaps
    | Inr m \<Rightarrow> validate_manifest (fe_sha env) (fe_io env) m = Inr m \<and> list_all (payload_intact (fe_sha env) (fe_disk env)) (mf_files m) \<and>
        (\<exists>dir bytes. dict_get snaps' (mf_id m) = Some dir \<and> reload env dir = Inr (m, bytes)))
    \<and> (\<forall>k d. dict_get snaps k = Some d \<longrightarrow> dict_get snaps' k = Some d)"
proof (cases "select_manifest env ids start_in end_in b table")
  case (Inl e)
  then have "r = Inl e \<and> snaps' = snaps" using assms by (simp add: freeze_provider_datasets_def)
  then show ?thesis by simp
next
  case (Inr m)
  then have p: "publish_snapshot env m snaps = (r, snaps')" using assms by (simp add: freeze_provider_datasets_def)
  show ?thesis
  proof (cases r)
    case Inl: (Inl e)
    then show ?thesis using publish_facts[OF p] by auto
  next
    case r: (Inr n)
    then obtain dir bytes where n: "n = m" "dict_get snaps' (mf_id m) = Some dir" "reload env dir = Inr (m, bytes)" using publish_facts(2)[OF p] by blast
    then show ?thesis using publish_facts(1)[OF p] r load_snapshot_facts[OF n(3)[unfolded reload_def]] validate_manifest_same by fastforce
  qed
qed


definition sample_manifest :: manifest where
  "sample_manifest =
     \<lparr>mf_schema = catalog_schema_version, mf_id = replicate 64 CHR ''a'', mf_source = ''homerun_catalog'', mf_tokens = [''n'', ''y''], mf_start = 10, mf_end = 20,
      mf_files = [\<lparr>fl_path = ''/f'', fl_sha = replicate 64 CHR ''a'', fl_size = 2, fl_datasets = [''d''], fl_tokens = [''n'', ''y'']\<rparr>],
      mf_datasets = [''d''], mf_football = sample_binding\<rparr>"

definition sample_env :: freeze_env where
  "sample_env =
     \<lparr>fe_sha = (\<lambda>_. replicate 64 CHR ''a''), fe_io = sample_io, fe_encode = (\<lambda>m. ''{}''), fe_decode = (\<lambda>s. Inr sample_manifest),
      fe_disk = (\<lambda>p. if p = ''/f'' then Some \<lparr>df_regular = True, df_bytes = ''PK'', df_stamp = 0\<rparr> else None), fe_locate = (\<lambda>d t. Some ''/f''),
      fe_uri_path = (\<lambda>u. Some ''/''), fe_resolve = (\<lambda>p. p), fe_listing = (\<lambda>d. [''/f'']), fe_locked = (\<lambda>i. False), fe_stamp = 0\<rparr>"

lemma sha_text: "sha256_pattern (replicate 64 CHR ''a'')"
  by (simp add: sha256_pattern_def list_all_iff)

lemma sample_manifest_valid: "validate_manifest (\<lambda>_. replicate 64 CHR ''a'') sample_io sample_manifest = Inr sample_manifest"
  using sample_binding_ok(1)
  by (simp add: validate_manifest_def sample_manifest_def validate_file_def sha_text check_manifest_def sorted_unique_def manifest_id_for_def)

lemma sample_selected: "select_manifest sample_env [''d''] (10, Some 0) (20, Some 0) sample_binding [sample_dataset] = Inr sample_manifest"
proof -
  have fits: "validate_provider_dataset sample_io sample_binding sample_dataset = Inr ()" "pd_id sample_dataset = ''d''"
    using sample_rows_fit by (simp_all add: rows_fit_def selected_ids_def sample_dataset_def)
  have cov: "resolve_coverage (\<lambda>d t. Some ''/f'') [''n'', ''y''] 10 20 None (Some [''d'']) [sample_dataset] =
      Inr \<lparr>cm_by_token = [(''n'', \<lparr>tk_token = ''n'', tk_files = [''/f''], tk_datasets = [''d''], tk_start = Some 9, tk_end = Some 21\<rparr>),
             (''y'', \<lparr>tk_token = ''y'', tk_files = [''/f''], tk_datasets = [''d''], tk_start = Some 9, tk_end = Some 21\<rparr>)],
           cm_requested = [''n'', ''y''], cm_start = Some 10, cm_end = Some 20, cm_datasets = [(''/f'', [''d''])]\<rparr>"
    by (simp add: resolve_coverage_def query_rows_def sample_dataset_def row_tokens_def overlaps_def from_providers_def add_row_def local_uri_def
      add_token_def no_rows_def append_at_def insert_at_def insufficient_def Let_def token_coverage_of_def dict_get_or_def dict_get_def dict_set_def)
  have tokens: "sort (remdups (row_tokens sample_dataset)) = [''n'', ''y'']" "row_directory sample_env sample_dataset = Some ''/''"
    by (simp_all add: row_tokens_def sample_dataset_def row_directory_def sample_env_def)
  have paths: "identity_by_path \<lparr>cm_by_token = [(''n'', \<lparr>tk_token = ''n'', tk_files = [''/f''], tk_datasets = [''d''], tk_start = Some 9, tk_end = Some 21\<rparr>),
             (''y'', \<lparr>tk_token = ''y'', tk_files = [''/f''], tk_datasets = [''d''], tk_start = Some 9, tk_end = Some 21\<rparr>)],
           cm_requested = [''n'', ''y''], cm_start = Some 10, cm_end = Some 20, cm_datasets = [(''/f'', [''d''])]\<rparr> [''n'', ''y''] = [(''/f'', [''d''], [''n'', ''y''])]"
    by (simp add: identity_by_path_def files_for_def add_identity_def dict_get_or_def dict_get_def dict_set_def List.union_def)
  have env: "fe_locate sample_env = (\<lambda>d t. Some ''/f'')" "fe_io sample_env = sample_io" by (simp_all add: sample_env_def)
  have frozen: "freeze_files sample_env [(''/f'', [''d''], [''n'', ''y''])] =
      Inr [\<lparr>fl_path = ''/f'', fl_sha = replicate 64 CHR ''a'', fl_size = 2, fl_datasets = [''d''], fl_tokens = [''n'', ''y'']\<rparr>]"
    by (simp add: sample_env_def validate_file_def sha_text sorted_unique_def)
  have built: "build_manifest sample_env [''d''] [''n'', ''y''] 10 20 sample_binding
      [\<lparr>fl_path = ''/f'', fl_sha = replicate 64 CHR ''a'', fl_size = 2, fl_datasets = [''d''], fl_tokens = [''n'', ''y'']\<rparr>] = Inr sample_manifest"
    using sample_manifest_valid by (simp add: build_manifest_def sample_env_def sample_manifest_def manifest_id_for_def)
  have parquet: "actual_parquet sample_env [sample_dataset] = [''/f'']"
    by (simp add: actual_parquet_def List.map_filter_def tokens) (simp add: sample_env_def)
  have sel: "selected_ids [''d''] = [''d'']" by (simp add: selected_ids_def)
  have rows: "filter (\<lambda>d. pd_id d \<in> set [''d'']) [sample_dataset] = [sample_dataset]" using fits by simp
  have by_id: "foldl (\<lambda>m d. dict_set m (pd_id d) d) [] [sample_dataset] = [(''d'', sample_dataset)]" using fits by (simp add: dict_set_def)
  have chosen: "List.map_filter (dict_get [(''d'', sample_dataset)]) [''d''] = [sample_dataset]" by (simp add: List.map_filter_def dict_get_def)
  have res: "fe_resolve sample_env = (\<lambda>p. p)" by (simp add: sample_env_def)
  show ?thesis unfolding select_manifest_def sel Let_def rows by_id chosen
    using fits tokens parquet frozen built
    by (simp add: normalize_utc_def env cov paths uncovered_tokens_def covered_def dict_get_or_def dict_get_def res)
qed

lemma sample_freeze: "\<exists>snaps. freeze_provider_datasets sample_env [''d''] (10, Some 0) (20, Some 0) sample_binding [sample_dataset] [] = (Inr sample_manifest, snaps)"
proof -
  have env: "fe_sha sample_env = (\<lambda>_. replicate 64 CHR ''a'')" "fe_io sample_env = sample_io" "fe_decode sample_env = (\<lambda>s. Inr sample_manifest)"
    "fe_disk sample_env = (\<lambda>p. if p = ''/f'' then Some \<lparr>df_regular = True, df_bytes = ''PK'', df_stamp = 0\<rparr> else None)" "fe_locked sample_env = (\<lambda>i. False)"
    by (simp_all add: sample_env_def)
  have "list_all (payload_intact (fe_sha sample_env) (fe_disk sample_env)) (mf_files sample_manifest)"
    by (simp add: env sample_manifest_def payload_intact_def)
  then show ?thesis using sample_selected sample_manifest_valid
    by (simp add: freeze_provider_datasets_def publish_snapshot_def reload_def load_verified_snapshot_def verify_snapshot_tree_def env manifest_entry_def dict_get_def Let_def)
qed



theorem freeze_is_sound_witness:
  "\<exists>snaps dir bytes. freeze_provider_datasets sample_env [''d''] (10, Some 0) (20, Some 0) sample_binding [sample_dataset] [] = (Inr sample_manifest, snaps) \<and>
     dict_get snaps (replicate 64 CHR ''a'') = Some dir \<and> reload sample_env dir = Inr (sample_manifest, bytes)"
proof -
  obtain snaps where s: "freeze_provider_datasets sample_env [''d''] (10, Some 0) (20, Some 0) sample_binding [sample_dataset] [] = (Inr sample_manifest, snaps)"
    using sample_freeze by blast
  have "mf_id sample_manifest = replicate 64 CHR ''a''" by (simp add: sample_manifest_def)
  then show ?thesis using freeze_is_sound[OF s] s by auto
qed

end
