(* ===== verification/Spec2Isabelle.thy ===== *)
theory Spec2Isabelle
  imports BacktestResult ExitPass Validation Fifo Retry MarketData Risk Breaker MonteCarlo Manifest
begin

text \<open>Header.\<close>

end
